(* ===== verification/Prelude.thy ===== *)
theory Prelude
  imports Main "HOL-Library.Word" "HOL-Library.Signed_Division" "HOL-Library.Multiset"
begin

text \<open>
  Shared vocabulary of the development: Go's fixed-width integers and byte slices, checked
  indexing and slicing (a Go run-time panic is a value of type \<open>fault\<close>), the big-endian
  accessors of \<open>encoding/binary\<close>, and the part of package \<open>time\<close> that the program uses.
  Nothing in this theory models a file of the repository; it models the language and its
  standard library.
\<close>

unbundle bit_operations_syntax

named_theorems go_simps \<open>unfolding rules for the checked slice and byte primitives\<close>
named_theorems time_simps \<open>unfolding rules for clock arithmetic\<close>

section \<open>Machine types\<close>

type_synonym u8 = "8 word"
type_synonym u16 = "16 word"
type_synonym u32 = "32 word"
type_synonym u64 = "64 word"
type_synonym byte = "8 word"
type_synonym bytes = "8 word list"

section \<open>Results: values, returned errors and run-time panics\<close>

datatype go_panic = IndexOutOfRange | SliceBounds | NilDereference | TypeAssertion | Raised string

datatype 'e fault = Error 'e | Panic go_panic

type_synonym ('e, 'a) go = "'e fault + 'a"

definition bind_go :: "('e, 'a) go \<Rightarrow> ('a \<Rightarrow> ('e, 'b) go) \<Rightarrow> ('e, 'b) go" where
  "bind_go m f = (case m of Inl e \<Rightarrow> Inl e | Inr a \<Rightarrow> f a)"

fun no_panic :: "('e, 'a) go \<Rightarrow> bool" where
  "no_panic (Inl (Panic p)) = False"
| "no_panic (Inl (Error e)) = True"
| "no_panic (Inr a) = True"

lemma bind_go_simps [simp]:
  "bind_go (Inr a) f = f a"
  "bind_go (Inl e) f = Inl e"
  by (simp_all add: bind_go_def)

lemma bind_go_Inr_iff: "bind_go m f = Inr b \<longleftrightarrow> (\<exists>a. m = Inr a \<and> f a = Inr b)"
  by (cases m) auto

lemma bind_go_Inl_iff:
  "bind_go m f = Inl e \<longleftrightarrow> m = Inl e \<or> (\<exists>a. m = Inr a \<and> f a = Inl e)"
  by (cases m) auto

lemma no_panic_bind [intro]:
  assumes "no_panic m" and "\<And>a. m = Inr a \<Longrightarrow> no_panic (f a)"
  shows "no_panic (bind_go m f)"
proof (cases m)
  case (Inl e)
  with assms(1) show ?thesis by (cases e) auto
next
  case (Inr a)
  with assms(2) show ?thesis by simp
qed

lemma no_panic_iff: "no_panic m \<longleftrightarrow> (\<forall>p. m \<noteq> Inl (Panic p))"
  by (cases m rule: no_panic.cases) auto

section \<open>Slices\<close>

text \<open>\<open>b[i]\<close>, \<open>b[i:]\<close> and \<open>b[i:j]\<close> panic outside the bounds of the slice; \<open>copy\<close> never does.\<close>

definition idx :: "'a list \<Rightarrow> nat \<Rightarrow> ('e, 'a) go" where
  "idx b i = (if i < length b then Inr (b ! i) else Inl (Panic IndexOutOfRange))"

definition slice_from :: "'a list \<Rightarrow> nat \<Rightarrow> ('e, 'a list) go" where
  "slice_from b i = (if i \<le> length b then Inr (drop i b) else Inl (Panic SliceBounds))"

definition slice :: "'a list \<Rightarrow> nat \<Rightarrow> nat \<Rightarrow> ('e, 'a list) go" where
  "slice b i j =
     (if i \<le> j \<and> j \<le> length b then Inr (take (j - i) (drop i b)) else Inl (Panic SliceBounds))"

definition store :: "'a list \<Rightarrow> nat \<Rightarrow> 'a \<Rightarrow> ('e, 'a list) go" where
  "store b i v = (if i < length b then Inr (b[i := v]) else Inl (Panic IndexOutOfRange))"

definition go_copy :: "'a list \<Rightarrow> 'a list \<Rightarrow> 'a list" where
  "go_copy dst src = take (length dst) src @ drop (length src) dst"

lemma idx_Inr [simp]: "i < length b \<Longrightarrow> idx b i = Inr (b ! i)"
  by (simp add: idx_def)

lemma slice_from_Inr [simp]: "i \<le> length b \<Longrightarrow> slice_from b i = Inr (drop i b)"
  by (simp add: slice_from_def)

lemma slice_Inr [simp]:
  "i \<le> j \<Longrightarrow> j \<le> length b \<Longrightarrow> slice b i j = Inr (take (j - i) (drop i b))"
  by (simp add: slice_def)

lemma store_Inr [simp]: "i < length b \<Longrightarrow> store b i v = Inr (b[i := v])"
  by (simp add: store_def)

lemma length_go_copy [simp]: "length (go_copy dst src) = length dst"
  by (simp add: go_copy_def)

lemma go_copy_exact: "length src = length dst \<Longrightarrow> go_copy dst src = src"
  by (simp add: go_copy_def)

lemma go_copy_short: "length src \<le> length dst \<Longrightarrow> go_copy dst src = src @ drop (length src) dst"
  by (simp add: go_copy_def)

lemma length_filter_mono: "(\<And>x. P x \<Longrightarrow> Q x) \<Longrightarrow> length (filter P xs) \<le> length (filter Q xs)"
  by (induction xs) auto

section \<open>Big-endian accessors\<close>

definition be16 :: "u16 \<Rightarrow> bytes" where
  "be16 v = [ucast (drop_bit 8 v), ucast v]"

definition be32 :: "u32 \<Rightarrow> bytes" where
  "be32 v = [ucast (drop_bit 24 v), ucast (drop_bit 16 v), ucast (drop_bit 8 v), ucast v]"

definition uint16_of :: "byte \<Rightarrow> byte \<Rightarrow> u16" where
  "uint16_of b0 b1 = push_bit 8 (ucast b0) OR ucast b1"

definition uint32_of :: "byte \<Rightarrow> byte \<Rightarrow> byte \<Rightarrow> byte \<Rightarrow> u32" where
  "uint32_of b0 b1 b2 b3 =
     push_bit 24 (ucast b0) OR push_bit 16 (ucast b1) OR push_bit 8 (ucast b2) OR ucast b3"

text \<open>\<open>Uint16(b)\<close> and \<open>Uint32(b)\<close> read the first bytes of a slice, \<open>PutUint16\<close> and \<open>PutUint32\<close> write them.\<close>

definition getUint16 :: "bytes \<Rightarrow> ('e, u16) go" where
  "getUint16 b = (if 2 \<le> length b then Inr (uint16_of (b ! 0) (b ! 1)) else Inl (Panic IndexOutOfRange))"

definition getUint32 :: "bytes \<Rightarrow> ('e, u32) go" where
  "getUint32 b = (if 4 \<le> length b then Inr (uint32_of (b ! 0) (b ! 1) (b ! 2) (b ! 3))
                  else Inl (Panic IndexOutOfRange))"

definition putUint16 :: "bytes \<Rightarrow> u16 \<Rightarrow> ('e, bytes) go" where
  "putUint16 b v = (if 2 \<le> length b then Inr (go_copy b (be16 v)) else Inl (Panic IndexOutOfRange))"

definition putUint32 :: "bytes \<Rightarrow> u32 \<Rightarrow> ('e, bytes) go" where
  "putUint32 b v = (if 4 \<le> length b then Inr (go_copy b (be32 v)) else Inl (Panic IndexOutOfRange))"

lemma length_be [simp]: "length (be16 v) = 2" "length (be32 w) = 4"
  by (simp_all add: be16_def be32_def)

lemma uint16_of_be16 [simp]: "uint16_of (ucast (drop_bit 8 v)) (ucast v) = v"
  unfolding uint16_of_def
  by (rule bit_word_eqI) (auto simp: bit_simps)

lemma uint32_of_be32 [simp]:
  "uint32_of (ucast (drop_bit 24 v)) (ucast (drop_bit 16 v)) (ucast (drop_bit 8 v)) (ucast v) = v"
  unfolding uint32_of_def
proof (rule bit_word_eqI)
  fix n :: nat assume "n < LENGTH(32)"
  then consider "n < 8" | "8 \<le> n" "n < 16" | "16 \<le> n" "n < 24" | "24 \<le> n" "n < 32"
    by fastforce
  then show "bit (push_bit 24 (ucast (ucast (drop_bit 24 v) :: byte)) OR
      push_bit 16 (ucast (ucast (drop_bit 16 v) :: byte)) OR
      push_bit 8 (ucast (ucast (drop_bit 8 v) :: byte)) OR ucast (ucast v :: byte) :: u32) n = bit v n"
    by cases (auto simp: bit_simps)
qed

section \<open>Go integer division and time\<close>

text \<open>
  Go's \<open>/\<close> and \<open>%\<close> truncate towards zero; HOL's \<open>div\<close> and \<open>mod\<close> round down.
  A \<open>time.Time\<close> is the number of nanoseconds since the zero time (1 January of year 1, UTC), a
  \<open>time.Duration\<close> a number of nanoseconds. \<open>Sub\<close> saturates at the bounds of \<open>int64\<close>.
  The monotonic reading that Go attaches to some times is not distinguished from the wall
  reading.
\<close>

type_synonym Time = int
type_synonym Duration = int

definition go_rem :: "int \<Rightarrow> int \<Rightarrow> int" where
  "go_rem a b = a smod b"

definition go_quot :: "int \<Rightarrow> int \<Rightarrow> int" where
  "go_quot a b = a sdiv b"

lemma go_rem_nonneg: "0 \<le> a \<Longrightarrow> 0 < b \<Longrightarrow> go_rem a b = a mod b"
  by (cases "a = 0")
    (simp_all add: go_rem_def signed_modulo_int_def signed_divide_int_def minus_div_mult_eq_mod)

definition Second :: Duration where "Second = 1000000000"
definition Minute :: Duration where "Minute = 60 * Second"
definition Hour :: Duration where "Hour = 60 * Minute"
definition zeroTime :: Time where "zeroTime = 0"
definition maxDuration :: Duration where "maxDuration = 2 ^ 63 - 1"
definition minDuration :: Duration where "minDuration = - (2 ^ 63)"
definition unixEpoch :: Time where "unixEpoch = 62135596800 * Second"

definition time_Sub :: "Time \<Rightarrow> Time \<Rightarrow> Duration" where
  "time_Sub t u = max minDuration (min maxDuration (t - u))"

definition time_Add :: "Time \<Rightarrow> Duration \<Rightarrow> Time" where
  "time_Add t d = t + d"

definition time_Since :: "Time \<Rightarrow> Time \<Rightarrow> Duration" where
  "time_Since now t = time_Sub now t"

definition time_Until :: "Time \<Rightarrow> Time \<Rightarrow> Duration" where
  "time_Until now t = time_Sub t now"

definition time_Unix :: "Time \<Rightarrow> int" where
  "time_Unix t = (t - unixEpoch) div Second"

definition unix_Time :: "int \<Rightarrow> int \<Rightarrow> Time" where
  "unix_Time sec nsec = unixEpoch + sec * Second + nsec"

declare Second_def [time_simps] Minute_def [time_simps] Hour_def [time_simps]
  zeroTime_def [time_simps] maxDuration_def [time_simps] minDuration_def [time_simps]
  unixEpoch_def [time_simps] time_Sub_def [time_simps] time_Add_def [time_simps]
  time_Since_def [time_simps] time_Until_def [time_simps]

lemma time_Unix_unix_Time [simp]: "0 \<le> n \<Longrightarrow> n < Second \<Longrightarrow> time_Unix (unix_Time s n) = s"
  by (simp add: time_Unix_def unix_Time_def Second_def)

lemma time_Unix_nonneg [simp]: "unixEpoch \<le> t \<Longrightarrow> 0 \<le> time_Unix t"
  by (simp add: time_Unix_def Second_def div_int_pos_iff)

lemma time_Unix_bracket:
  "unix_Time (time_Unix t) 0 \<le> t" "t < unix_Time (time_Unix t + 1) 0"
proof -
  have split: "t - unixEpoch = time_Unix t * Second + (t - unixEpoch) mod Second"
    by (simp add: time_Unix_def)
  have "0 \<le> (t - unixEpoch) mod Second" "(t - unixEpoch) mod Second < Second"
    by (simp_all add: Second_def)
  with split show "unix_Time (time_Unix t) 0 \<le> t" "t < unix_Time (time_Unix t + 1) 0"
    by (simp_all add: unix_Time_def algebra_simps)
qed

lemma time_Sub_exact: "minDuration \<le> t - u \<Longrightarrow> t - u \<le> maxDuration \<Longrightarrow> time_Sub t u = t - u"
  by (simp add: time_Sub_def)

lemma time_Sub_mono: "u \<le> u' \<Longrightarrow> time_Sub t u' \<le> time_Sub t u"
  by (auto simp: time_Sub_def)

section \<open>Step relations\<close>

inductive steps_to :: "('s \<Rightarrow> 's \<Rightarrow> bool) \<Rightarrow> 's \<Rightarrow> 's \<Rightarrow> bool" for step where
  here: "steps_to step s s"
| onward: "steps_to step s t \<Longrightarrow> step t u \<Longrightarrow> steps_to step s u"

lemma steps_to_trans: "steps_to step t u \<Longrightarrow> steps_to step s t \<Longrightarrow> steps_to step s u"
  by (induction rule: steps_to.induct) (auto intro: steps_to.onward)

lemma steps_to_first: "step s t \<Longrightarrow> steps_to step t u \<Longrightarrow> steps_to step s u"
  by (blast intro: steps_to_trans steps_to.here steps_to.onward)

locale inductive_invariant =
  fixes step :: "'s \<Rightarrow> 's \<Rightarrow> bool" and inv :: "'s \<Rightarrow> bool"
  assumes inv_step: "step s t \<Longrightarrow> inv s \<Longrightarrow> inv t"
begin

lemma inv_steps: "steps_to step s t \<Longrightarrow> inv s \<Longrightarrow> inv t"
  by (induction rule: steps_to.induct) (auto intro: inv_step)

end

end
