(* ===== verification/Sping_Time.thy ===== *)
theory Sping_Time
  imports Prelude
begin

text \<open>
  Clock discipline: \<open>ntp.go\<close> (polling the NTP servers and choosing the clock offset) and
  \<open>timecorrection.go\<close> (the cached offset and the corrected clock), together with the
  computation of the next whole second that \<open>main.go\<close> performs in three places.
  The NTP query itself (\<open>ntp.QueryWithOptions\<close>) is an argument: for every server and attempt
  either nothing (an error) or a pair of clock offset and round-trip time.
\<close>

section \<open>Data\<close>

record ntpResult =
  RTT :: Duration
  Offset :: Duration
  Host :: string

definition zero_ntpResult :: ntpResult where
  "zero_ntpResult = \<lparr>RTT = 0, Offset = 0, Host = ''''\<rparr>"

type_synonym ntp_query = "nat \<Rightarrow> (Duration \<times> Duration) option"

definition ntpServers :: "string list" where
  "ntpServers =
    [''17.253.82.125'', ''17.253.82.253'', ''17.253.18.125'', ''17.253.18.253'',
     ''17.253.84.125'', ''17.253.84.253'', ''17.253.84.123'', ''17.253.4.125'',
     ''17.253.4.253'', ''17.253.26.125'', ''17.253.26.253'', ''17.253.14.125'',
     ''17.253.14.253'', ''17.253.14.123'', ''17.253.66.125'', ''17.253.66.253'',
     ''17.253.20.125'', ''17.253.20.253'', ''17.253.108.125'', ''17.253.108.253'',
     ''17.253.34.125'', ''17.253.34.253'', ''17.253.34.123'', ''17.253.12.125'',
     ''17.253.12.253'', ''17.253.6.125'', ''17.253.6.253'', ''17.253.52.125'',
     ''17.253.52.253'', ''17.253.68.125'', ''17.253.68.253'', ''17.253.68.123'',
     ''17.253.16.125'', ''17.253.16.253'', ''17.253.38.125'', ''17.253.38.253'',
     ''17.253.54.125'', ''17.253.54.253'', ''17.253.54.123'', ''17.253.2.125'',
     ''17.253.2.253'', ''17.253.24.125'', ''17.253.24.253'', ''17.253.116.125'',
     ''17.253.116.253'', ''17.253.114.125'', ''17.253.114.253'']"

section \<open>Polling one server\<close>

definition ntpTriplePoll_step ::
  "ntp_query \<Rightarrow> nat \<Rightarrow> int list \<times> int list \<times> nat \<Rightarrow> int list \<times> int list \<times> nat" where
  "ntpTriplePoll_step query i st =
     (let (offsets, rtt, failed) = st in
      case query i of
        None \<Rightarrow> (offsets, rtt, failed + 1)
      | Some (clockOffset, roundTrip) \<Rightarrow> (offsets[i := clockOffset], rtt[i := roundTrip], failed))"

text \<open>\<open>sort.Ints\<close> sorts in place; the middle of the three cells is returned.\<close>

definition ntpTriplePoll :: "ntp_query \<Rightarrow> Duration \<times> Duration \<times> nat" where
  "ntpTriplePoll query =
     (let (offsets, rtt, failed) =
        fold (ntpTriplePoll_step query) [0..<2] (replicate 3 0, replicate 3 0, 0)
      in (sort offsets ! 1, sort rtt ! 1, failed))"

definition pollServer :: "(string \<Rightarrow> ntp_query) \<Rightarrow> string \<Rightarrow> ntpResult option" where
  "pollServer answers server =
     (let (off, rt, failed) = ntpTriplePoll (answers server) in
      if failed > 1 \<or> rt = 0 \<or> off = 0 then None
      else Some \<lparr>RTT = rt, Offset = off, Host = server\<rparr>)"

section \<open>Choosing the offset\<close>

text \<open>
  The goroutines that poll the servers store their result in a shared map, which is read after
  a fixed wait. \<open>arrived\<close> lists the servers whose goroutine has finished by then, in the (random)
  order in which Go iterates over the map. \<open>sort.Sort\<close> is not stable; since \<open>arrived\<close> is
  arbitrary, a stable sort of an arbitrary enumeration reaches every order it can produce. Only
  servers of \<open>ntpServers\<close> are polled, each once.
\<close>

definition byNTPRTT_sort :: "ntpResult list \<Rightarrow> ntpResult list" where
  "byNTPRTT_sort rs = sort_key RTT rs"

definition byNTPOffset_sort :: "ntpResult list \<Rightarrow> ntpResult list" where
  "byNTPOffset_sort rs = sort_key Offset rs"

fun fillConsiderable :: "nat \<Rightarrow> ntpResult list \<Rightarrow> ntpResult list \<Rightarrow> ntpResult list" where
  "fillConsiderable cnt [] acc = acc"
| "fillConsiderable cnt (r # rs) acc =
     (let acc' = acc[cnt := r] in
      if cnt = 4 then acc' else fillConsiderable (cnt + 1) rs acc')"

definition ntpAnswers :: "(string \<Rightarrow> ntp_query) \<Rightarrow> string list \<Rightarrow> ntpResult list" where
  "ntpAnswers answers arrived = List.map_filter (pollServer answers) arrived"

definition considerable :: "ntpResult list \<Rightarrow> ntpResult list" where
  "considerable rs = fillConsiderable 0 (byNTPRTT_sort rs) (replicate 5 zero_ntpResult)"

definition chooseOffset :: "ntpResult list \<Rightarrow> Duration" where
  "chooseOffset rs = Offset (byNTPOffset_sort (considerable rs) ! 2)"

section \<open>The cached offset and the corrected clock\<close>

record clockst =
  timeOffset :: Duration
  lastSync :: Time

record clock_env =
  ce_perfect :: bool
  ce_answers :: "string \<Rightarrow> ntp_query"
  ce_arrived :: "string list"
  ce_since :: Time
  ce_sync :: Time

datatype sping_exit = FatalTimeOutOfSync | FatalMarshal | FatalListen | FatalPPS

definition init_clockst :: clockst where
  "init_clockst = \<lparr>timeOffset = 0, lastSync = zeroTime\<rparr>"

definition calibrateAgainstApple :: "clock_env \<Rightarrow> clockst \<Rightarrow> int \<times> clockst" where
  "calibrateAgainstApple env st =
     (if ce_perfect env then (1, st\<lparr>lastSync := ce_sync env\<rparr>)
      else (chooseOffset (ntpAnswers (ce_answers env) (remdups (filter (\<lambda>s. s \<in> set ntpServers) (ce_arrived env)))),
            st\<lparr>lastSync := ce_sync env\<rparr>))"

definition getTimeOffset :: "clock_env \<Rightarrow> clockst \<Rightarrow> (sping_exit, Duration \<times> clockst) go" where
  "getTimeOffset env st =
     (if lastSync st = zeroTime \<or> time_Since (ce_since env) (lastSync st) > 30 * Minute then
        let (off, st') = calibrateAgainstApple env st; st'' = st'\<lparr>timeOffset := off\<rparr>
        in if off > Second then Inl (Error FatalTimeOutOfSync) else Inr (off, st'')
      else Inr (timeOffset st, st))"

definition timeNowCorrected :: "clock_env \<Rightarrow> Time \<Rightarrow> clockst \<Rightarrow> (sping_exit, Time \<times> clockst) go" where
  "timeNowCorrected env now st =
     bind_go (getTimeOffset env st) (\<lambda>(off, st'). Inr (time_Add now off, st'))"

text \<open>
  The sleep that precedes every tick: \<open>now\<close> is read by the corrected clock, \<open>nowU\<close> by \<open>time.Until\<close>. The
  product \<open>timeOffset * -1\<close> is taken without wrap-around; as an \<open>int64\<close> it differs only for an offset of
  \<open>-2^63\<close> nanoseconds, which no NTP exchange can yield (its time stamps span 136 years, not 292).
\<close>

definition sleepToTick :: "clock_env \<Rightarrow> Time \<Rightarrow> Time \<Rightarrow> clockst \<Rightarrow> (sping_exit, Duration \<times> clockst) go" where
  "sleepToTick env now nowU st =
     bind_go (timeNowCorrected env now st) (\<lambda>(t, st').
       let a = time_Unix t
       in Inr (time_Until nowU (time_Add (unix_Time (a + 1) 0) (timeOffset st' * -1)), st'))"

section \<open>The contract of sorting by a key\<close>

locale key_sort =
  fixes srt :: "'a list \<Rightarrow> 'a list" and key :: "'a \<Rightarrow> int"
  assumes srt_mset: "mset (srt xs) = mset xs"
    and srt_sorted: "sorted (map key (srt xs))"
begin

lemma srt_length: "length (srt xs) = length xs"
  using srt_mset by (metis size_mset)

lemma srt_set: "set (srt xs) = set xs"
  using srt_mset by (metis set_mset_mset)

lemma srt_filter_length: "length (filter P (srt xs)) = length (filter P xs)"
  using srt_mset by (metis mset_filter size_mset)

lemma srt_nth_mono: "i \<le> j \<Longrightarrow> j < length xs \<Longrightarrow> key (srt xs ! i) \<le> key (srt xs ! j)"
  using sorted_nth_mono [OF srt_sorted, of i j xs] by (simp add: srt_length)

lemma rank_le:
  assumes "i < length xs"
  shows "Suc i \<le> length (filter (\<lambda>x. key x \<le> key (srt xs ! i)) xs)"
proof -
  have all: "\<forall>x \<in> set (take (Suc i) (srt xs)). key x \<le> key (srt xs ! i)"
    using assms by (auto simp: in_set_conv_nth srt_length intro!: srt_nth_mono)
  have "Suc i = length (filter (\<lambda>x. key x \<le> key (srt xs ! i)) (take (Suc i) (srt xs)))"
    using all assms by (simp add: srt_length)
  also have "\<dots> \<le> length (filter (\<lambda>x. key x \<le> key (srt xs ! i))
                   (take (Suc i) (srt xs) @ drop (Suc i) (srt xs)))"
    by (simp only: filter_append length_append)
  finally show ?thesis by (simp only: append_take_drop_id srt_filter_length)
qed

lemma rank_ge:
  assumes "i < length xs"
  shows "length xs - i \<le> length (filter (\<lambda>x. key (srt xs ! i) \<le> key x) xs)"
proof -
  have all: "\<forall>x \<in> set (drop i (srt xs)). key (srt xs ! i) \<le> key x"
    using assms by (auto simp: in_set_conv_nth srt_length intro!: srt_nth_mono)
  have "length xs - i = length (filter (\<lambda>x. key (srt xs ! i) \<le> key x) (drop i (srt xs)))"
    using all by (simp add: srt_length)
  also have "\<dots> \<le> length (filter (\<lambda>x. key (srt xs ! i) \<le> key x) (take i (srt xs) @ drop i (srt xs)))"
    by (simp only: filter_append length_append)
  finally show ?thesis by (simp only: append_take_drop_id srt_filter_length)
qed

text \<open>A rank that more elements than those outside an interval guarantee lies inside it.\<close>

lemma rank_in_interval:
  assumes "i < length xs"
    and lo: "length (filter (\<lambda>x. key x < lo) xs) \<le> i"
    and hi: "length (filter (\<lambda>x. hi < key x) xs) < length xs - i"
  shows "lo \<le> key (srt xs ! i)" "key (srt xs ! i) \<le> hi"
proof -
  show "lo \<le> key (srt xs ! i)"
  proof (rule ccontr)
    assume "\<not> lo \<le> key (srt xs ! i)"
    then have "\<forall>x. key x \<le> key (srt xs ! i) \<longrightarrow> key x < lo" by auto
    then have "length (filter (\<lambda>x. key x \<le> key (srt xs ! i)) xs) \<le> length (filter (\<lambda>x. key x < lo) xs)"
      by (intro length_filter_mono) blast
    with rank_le [OF assms(1)] lo show False by simp
  qed
  show "key (srt xs ! i) \<le> hi"
  proof (rule ccontr)
    assume "\<not> key (srt xs ! i) \<le> hi"
    then have "\<forall>x. key (srt xs ! i) \<le> key x \<longrightarrow> hi < key x" by auto
    then have "length (filter (\<lambda>x. key (srt xs ! i) \<le> key x) xs) \<le> length (filter (\<lambda>x. hi < key x) xs)"
      by (intro length_filter_mono) blast
    with rank_ge [OF assms(1)] hi show False by simp
  qed
qed

end

interpretation rtt_sort: key_sort byNTPRTT_sort RTT
  by unfold_locales (simp_all add: byNTPRTT_sort_def)

interpretation offset_sort: key_sort byNTPOffset_sort Offset
  by unfold_locales (simp_all add: byNTPOffset_sort_def)

section \<open>What the calibration computes\<close>

lemma fillConsiderable_eq:
  "cnt \<le> 4 \<Longrightarrow> length acc = 5 \<Longrightarrow>
   fillConsiderable cnt rs acc = take cnt acc @ take (5 - cnt) rs @ drop (cnt + length rs) acc"
proof (induction cnt rs acc rule: fillConsiderable.induct)
  case (1 cnt acc)
  then show ?case by simp
next
  case (2 cnt r rs acc)
  have take_upd: "take (Suc cnt) (acc[cnt := r]) = take cnt acc @ [r]"
    using "2.prems" by (simp add: take_Suc_conv_app_nth)
  show ?case
  proof (cases "cnt = 4")
    case True
    with "2.prems" take_upd show ?thesis
      using append_take_drop_id [of 5 "acc[4 := r]"] by (simp add: Let_def)
  next
    case False
    with "2.prems" have "fillConsiderable (cnt + 1) rs (acc[cnt := r]) =
        take (cnt + 1) (acc[cnt := r]) @ take (5 - (cnt + 1)) rs @ drop (cnt + 1 + length rs) (acc[cnt := r])"
      using "2.IH" by simp
    moreover have "5 - cnt = Suc (4 - cnt)" using "2.prems" by simp
    ultimately show ?thesis using False "2.prems" take_upd by (simp add: Let_def)
  qed
qed

lemma considerable_eq:
  "considerable rs = take 5 (byNTPRTT_sort rs) @ replicate (5 - length rs) zero_ntpResult"
  by (simp add: considerable_def fillConsiderable_eq rtt_sort.srt_length)

lemma length_considerable [simp]: "length (considerable rs) = 5"
  by (simp add: considerable_eq rtt_sort.srt_length)

lemma sort3_middle:
  "sort [a, b, 0::int] ! 1 =
     (if 0 < a \<and> 0 < b then min a b else if a < 0 \<and> b < 0 then max a b else 0)"
  by (auto simp: min_def max_def)

lemma ntpTriplePoll_eq:
  "ntpTriplePoll query =
     (let a = (case query 0 of None \<Rightarrow> (0, 0) | Some p \<Rightarrow> p);
          b = (case query 1 of None \<Rightarrow> (0, 0) | Some p \<Rightarrow> p)
      in (sort [fst a, fst b, 0] ! 1, sort [snd a, snd b, 0] ! 1,
          (if query 0 = None then 1 else 0) + (if query 1 = None then 1 else 0)))"
  by (auto simp: ntpTriplePoll_def ntpTriplePoll_step_def Let_def numeral_3_eq_3 upt_rec
      simp del: sort_key_simps split: option.splits)

lemma ntpTriplePoll_samples:
  "query 0 = Some (o0, r0) \<Longrightarrow> query 1 = Some (o1, r1) \<Longrightarrow>
   ntpTriplePoll query = (sort [o0, o1, 0] ! 1, sort [r0, r1, 0] ! 1, 0)"
  by (simp only: ntpTriplePoll_eq Let_def option.case fst_conv snd_conv) simp

text \<open>
  Despite its name \<open>ntpTriplePoll\<close> queries a server twice and sorts the two samples together
  with a cell that stays zero: two samples of the same sign give the one closer to zero, samples of
  different signs give zero.
\<close>

theorem ntpTriplePoll_two_samples:
  assumes "query 0 = Some (o0, r0)" and "query 1 = Some (o1, r1)"
  shows "ntpTriplePoll query =
    (if 0 < o0 \<and> 0 < o1 then min o0 o1 else if o0 < 0 \<and> o1 < 0 then max o0 o1 else 0,
     if 0 < r0 \<and> 0 < r1 then min r0 r1 else if r0 < 0 \<and> r1 < 0 then max r0 r1 else 0, 0)"
  using ntpTriplePoll_samples [OF assms] by (simp only: sort3_middle)

theorem ntpTriplePoll_two_samples_witness:
  "ntpTriplePoll (\<lambda>i. if i = 0 then Some (7, 20) else Some (-3, 30)) = (0, 20, 0)"
  using ntpTriplePoll_two_samples
    [of "\<lambda>i. if i = 0 then Some (7, 20) else Some (-3, 30)" 7 20 "-3" 30]
  by simp

text \<open>
  One failed query is enough to discard a server: the middle of the three cells is then zero,
  and a zero offset is not stored, so the test \<open>failed > 1\<close> never decides anything.
\<close>

theorem pollServer_one_failure:
  assumes "answers server 0 = None \<or> answers server 1 = None"
  shows "pollServer answers server = None"
proof -
  have "fst (ntpTriplePoll (answers server)) = 0"
    using assms unfolding ntpTriplePoll_eq Let_def sort3_middle
    by (cases "answers server 0"; cases "answers server 1"; simp)
  then show ?thesis
    by (cases "ntpTriplePoll (answers server)") (auto simp: pollServer_def)
qed

theorem pollServer_one_failure_witness:
  "pollServer (\<lambda>s i. if i = 0 then Some (5, 9) else None) ''17.253.82.125'' = None"
  by (rule pollServer_one_failure) simp

lemma middle_of_considerable:
  "chooseOffset rs = Offset (byNTPOffset_sort (considerable rs) ! 2)"
  by (simp add: chooseOffset_def)

text \<open>
  C19. The chosen offset is the median of the five considered results: whenever at most two of
  them lie below an interval and at most two above it, the offset lies inside it, so two bad
  servers cannot drag the clock out of the range the other three agree on.
\<close>

theorem chooseOffset_robust:
  assumes "length (filter (\<lambda>r. Offset r < lo) (considerable rs)) \<le> 2"
    and "length (filter (\<lambda>r. hi < Offset r) (considerable rs)) \<le> 2"
  shows "lo \<le> chooseOffset rs \<and> chooseOffset rs \<le> hi"
  using offset_sort.rank_in_interval [of 2 "considerable rs" lo hi] assms
  by (simp add: chooseOffset_def)

theorem chooseOffset_robust_witness:
  "10 \<le> chooseOffset [\<lparr>RTT = 5, Offset = 11, Host = ''a''\<rparr>, \<lparr>RTT = 4, Offset = -900, Host = ''b''\<rparr>,
      \<lparr>RTT = 3, Offset = 12, Host = ''c''\<rparr>, \<lparr>RTT = 2, Offset = 90000, Host = ''d''\<rparr>,
      \<lparr>RTT = 1, Offset = 13, Host = ''e''\<rparr>]
   \<and> chooseOffset [\<lparr>RTT = 5, Offset = 11, Host = ''a''\<rparr>, \<lparr>RTT = 4, Offset = -900, Host = ''b''\<rparr>,
      \<lparr>RTT = 3, Offset = 12, Host = ''c''\<rparr>, \<lparr>RTT = 2, Offset = 90000, Host = ''d''\<rparr>,
      \<lparr>RTT = 1, Offset = 13, Host = ''e''\<rparr>] \<le> 20"
  by (rule chooseOffset_robust) (simp_all add: considerable_eq byNTPRTT_sort_def)

text \<open>
  C32. With five or more answers the considered results are five of the answers, none of them
  with a longer round trip than an answer left out.
\<close>

theorem considerable_best_rtt:
  assumes "5 \<le> length rs"
  shows "mset (considerable rs) \<subseteq># mset rs \<and> length (considerable rs) = 5 \<and>
    (\<forall>c \<in># mset (considerable rs). \<forall>r \<in># mset rs - mset (considerable rs). RTT c \<le> RTT r)"
proof -
  let ?s = "byNTPRTT_sort rs"
  have cons: "considerable rs = take 5 ?s" using assms by (simp add: considerable_eq)
  have split: "mset rs = mset (take 5 ?s) + mset (drop 5 ?s)"
    using rtt_sort.srt_mset [of rs] by (simp flip: mset_append)
  have "RTT c \<le> RTT r" if "c \<in> set (take 5 ?s)" "r \<in> set (drop 5 ?s)" for c r
  proof -
    have "sorted (map RTT (take 5 ?s @ drop 5 ?s))" by (simp add: rtt_sort.srt_sorted)
    with that show ?thesis unfolding map_append sorted_append by auto
  qed
  with cons split show ?thesis using assms by (simp add: rtt_sort.srt_length)
qed

theorem considerable_best_rtt_witness:
  "mset (considerable (replicate 6 zero_ntpResult)) \<subseteq># mset (replicate 6 zero_ntpResult)
   \<and> length (considerable (replicate 6 zero_ntpResult)) = 5"
  using considerable_best_rtt [of "replicate 6 zero_ntpResult"] by simp

text \<open>
  With at most two answers the median is taken over at least three placeholder entries, so
  the calibration reports an offset of zero, as if the clock had been found to be exact.
\<close>

theorem chooseOffset_few_answers:
  assumes "length rs \<le> 2"
  shows "chooseOffset rs = 0"
proof -
  have few: "length (filter P (considerable rs)) \<le> 2" if "\<not> P zero_ntpResult" for P
    using assms that length_filter_le [of P "take 5 (byNTPRTT_sort rs)"]
    by (simp add: considerable_eq rtt_sort.srt_length)
  have "0 \<le> chooseOffset rs" "chooseOffset rs \<le> 0"
    using offset_sort.rank_in_interval [of 2 "considerable rs" 0 0]
      few [of "\<lambda>r. Offset r < 0"] few [of "\<lambda>r. 0 < Offset r"]
    by (simp_all add: chooseOffset_def zero_ntpResult_def)
  then show ?thesis by simp
qed

theorem chooseOffset_few_answers_witness:
  "chooseOffset [\<lparr>RTT = 5, Offset = 4000000000, Host = ''a''\<rparr>,
     \<lparr>RTT = 4, Offset = 4000000000, Host = ''b''\<rparr>] = 0"
  by (rule chooseOffset_few_answers) simp

section \<open>The corrected clock\<close>

lemma getTimeOffset_fresh:
  "lastSync st \<noteq> zeroTime \<Longrightarrow> time_Since (ce_since env) (lastSync st) \<le> 30 * Minute \<Longrightarrow>
   getTimeOffset env st = Inr (timeOffset st, st)"
  by (simp add: getTimeOffset_def)

lemma getTimeOffset_cases:
  assumes "getTimeOffset env st = Inr (off, st')"
  obtains (cached) "off = timeOffset st" "st' = st"
  | (synced) "off \<le> Second" "timeOffset st' = off" "lastSync st' = ce_sync env"
proof (cases "lastSync st = zeroTime \<or> time_Since (ce_since env) (lastSync st) > 30 * Minute")
  case True
  obtain o1 st1 where c: "calibrateAgainstApple env st = (o1, st1)" by fastforce
  then have "lastSync st1 = ce_sync env"
    by (auto simp: calibrateAgainstApple_def split: if_split_asm)
  moreover have "off = o1" "st' = st1\<lparr>timeOffset := o1\<rparr>" "o1 \<le> Second"
    using assms True c by (auto simp: getTimeOffset_def split: if_split_asm)
  ultimately show ?thesis using synced by simp
next
  case False
  with assms have "off = timeOffset st" "st' = st" by (auto simp: getTimeOffset_def)
  then show ?thesis by (rule cached)
qed

lemma getTimeOffset_Inr:
  assumes "getTimeOffset env st = Inr (off, st')" and "timeOffset st \<le> Second"
  shows "off \<le> Second" "timeOffset st' = off"
  using assms by (auto elim!: getTimeOffset_cases)

lemma timeNowCorrected_Inr:
  assumes "timeOffset st \<le> Second" and "timeNowCorrected env now st = Inr (t, st')"
  shows "t = now + timeOffset st'" "timeOffset st' \<le> Second"
proof -
  from assms(2) obtain off where off: "getTimeOffset env st = Inr (off, st')" "t = now + off"
    by (auto simp: timeNowCorrected_def bind_go_Inr_iff time_Add_def)
  with getTimeOffset_Inr [OF off(1) assms(1)]
  show "t = now + timeOffset st'" "timeOffset st' \<le> Second" by simp_all
qed

text \<open>
  C34. The corrected clock never runs more than one second ahead of the system clock, whatever
  the servers answer: a larger offset ends the program instead.
\<close>

theorem timeNowCorrected_ahead_bounded:
  assumes "timeOffset st \<le> Second" and "timeNowCorrected env now st = Inr (t, st')"
  shows "t \<le> now + Second \<and> t = now + timeOffset st' \<and> timeOffset st' \<le> Second"
  using timeNowCorrected_Inr [OF assms] by simp

theorem timeNowCorrected_ahead_bounded_witness:
  "\<exists>st'. timeNowCorrected \<lparr>ce_perfect = True, ce_answers = \<lambda>_ _. None, ce_arrived = [],
       ce_since = unixEpoch, ce_sync = unixEpoch\<rparr> unixEpoch init_clockst = Inr (unixEpoch + 1, st')
     \<and> unixEpoch + 1 \<le> unixEpoch + Second"
proof -
  let ?env = "\<lparr>ce_perfect = True, ce_answers = \<lambda>_ _. None, ce_arrived = [],
     ce_since = unixEpoch, ce_sync = unixEpoch\<rparr> :: clock_env"
  have run: "timeNowCorrected ?env unixEpoch init_clockst =
      Inr (unixEpoch + 1, \<lparr>timeOffset = 1, lastSync = unixEpoch\<rparr>)"
    by (simp add: timeNowCorrected_def getTimeOffset_def init_clockst_def calibrateAgainstApple_def
        time_simps)
  have "timeOffset init_clockst \<le> Second" by (simp add: init_clockst_def Second_def)
  from timeNowCorrected_ahead_bounded [OF this run] run show ?thesis by blast
qed

text \<open>
  No such bound holds on the other side: a machine whose clock runs an hour fast is given an
  offset of minus one hour and the program carries on, although the check is meant to stop it
  when the clock is too far out of sync.
\<close>

theorem getTimeOffset_no_lower_bound:
  "\<exists>env st'. \<not> ce_perfect env \<and> set (ce_arrived env) \<subseteq> set ntpServers \<and> distinct (ce_arrived env) \<and>
     getTimeOffset env init_clockst = Inr (- Hour, st')"
proof -
  let ?env = "\<lparr>ce_perfect = False, ce_answers = \<lambda>_ _. Some (- Hour, Second),
     ce_arrived = take 5 ntpServers, ce_since = unixEpoch, ce_sync = unixEpoch\<rparr> :: clock_env"
  have poll: "pollServer (\<lambda>_ _. Some (- Hour, Second)) s = Some \<lparr>RTT = Second, Offset = - Hour, Host = s\<rparr>" for s
    using ntpTriplePoll_samples [of "\<lambda>_. Some (- Hour, Second)" "- Hour" Second "- Hour" Second]
    by (simp add: pollServer_def time_simps)
  let ?rs = "ntpAnswers (ce_answers ?env) (ce_arrived ?env)"
  have rs: "?rs = map (\<lambda>s. \<lparr>RTT = Second, Offset = - Hour, Host = s\<rparr>) (take 5 ntpServers)"
    by (simp add: ntpAnswers_def poll List.map_filter_def)
  have all: "Offset r = - Hour" if "r \<in> set (considerable ?rs)" for r
  proof -
    have "5 \<le> length ?rs" unfolding rs by (simp add: ntpServers_def)
    then have "set (considerable ?rs) \<subseteq> set ?rs"
      using considerable_eq [of ?rs] rtt_sort.srt_set [of ?rs] by (auto dest: in_set_takeD)
    with that show ?thesis unfolding rs by auto
  qed
  have "- Hour \<le> chooseOffset ?rs" "chooseOffset ?rs \<le> - Hour"
    using offset_sort.rank_in_interval [of 2 "considerable ?rs" "- Hour" "- Hour"] all
    by (simp_all add: chooseOffset_def filter_empty_conv)
  then have off: "chooseOffset ?rs = - Hour" by (rule order_antisym [rotated])
  have dst: "distinct (take 5 ntpServers)" "set (take 5 ntpServers) \<subseteq> set ntpServers"
    by (simp_all add: ntpServers_def)
  then have "remdups (filter (\<lambda>s. s \<in> set ntpServers) (take 5 ntpServers)) = take 5 ntpServers"
    by (subst filter_True) (auto simp: distinct_remdups_id)
  with off have "getTimeOffset ?env init_clockst = Inr (- Hour, \<lparr>timeOffset = - Hour, lastSync = unixEpoch\<rparr>)"
    by (simp add: getTimeOffset_def init_clockst_def calibrateAgainstApple_def time_simps)
  moreover note dst
  ultimately show ?thesis by (intro exI [of _ ?env] exI) simp
qed

text \<open>
  C33. The sleep before a tick ends on a whole second of the corrected clock: the wake-up time
  plus the clock offset is the start of the second after the current one, and the sleep is
  positive and at most one second long when the two clock readings coincide.
\<close>

theorem sleepToTick_whole_second:
  assumes "timeOffset st \<le> Second" and "sleepToTick env now nowU st = Inr (u, st')"
    and "now \<le> nowU" and "nowU - now \<le> Hour"
  shows "nowU + u + timeOffset st' = unix_Time (time_Unix (now + timeOffset st') + 1) 0
    \<and> u \<le> Second \<and> (nowU = now \<longrightarrow> 0 < u)"
proof -
  from assms(2) obtain t where t: "timeNowCorrected env now st = Inr (t, st')"
    and u: "u = time_Until nowU (time_Add (unix_Time (time_Unix t + 1) 0) (timeOffset st' * -1))"
    by (auto simp: sleepToTick_def bind_go_Inr_iff)
  have tt: "t = now + timeOffset st'"
    by (rule timeNowCorrected_Inr [OF assms(1) t])
  have lo: "t < unix_Time (time_Unix t + 1) 0" and hi: "unix_Time (time_Unix t + 1) 0 \<le> t + Second"
    using time_Unix_bracket [of t] by (simp_all add: unix_Time_def Second_def)
  have "u = unix_Time (time_Unix t + 1) 0 - timeOffset st' - nowU"
    using lo hi tt assms(3,4) unfolding u by (simp add: time_simps)
  with lo hi tt assms(3) show ?thesis by simp
qed

theorem sleepToTick_whole_second_witness:
  "\<exists>u st'. sleepToTick \<lparr>ce_perfect = True, ce_answers = \<lambda>_ _. None, ce_arrived = [],
       ce_since = unixEpoch, ce_sync = unixEpoch\<rparr> unixEpoch unixEpoch init_clockst = Inr (u, st')
     \<and> unixEpoch + u + timeOffset st' = unix_Time (time_Unix (unixEpoch + timeOffset st') + 1) 0"
proof -
  let ?env = "\<lparr>ce_perfect = True, ce_answers = \<lambda>_ _. None, ce_arrived = [],
     ce_since = unixEpoch, ce_sync = unixEpoch\<rparr> :: clock_env"
  have run: "sleepToTick ?env unixEpoch unixEpoch init_clockst =
      Inr (999999999, \<lparr>timeOffset = 1, lastSync = unixEpoch\<rparr>)"
    by (simp add: sleepToTick_def timeNowCorrected_def getTimeOffset_def init_clockst_def
        calibrateAgainstApple_def time_simps time_Unix_def unix_Time_def)
  have "timeOffset init_clockst \<le> Second" by (simp add: init_clockst_def Second_def)
  from sleepToTick_whole_second [OF this run] run show ?thesis by (auto simp: Hour_def Minute_def Second_def)
qed

end
