(* ===== verification/Sping_Session.thy ===== *)
theory Sping_Session
  imports Sping_Time
begin

text \<open>
  The data of \<open>main.go\<close> and \<open>sessionhandle.go\<close>: the packets on the wire, the session with its
  ring of the last 32 received pings, and the process state. Sessions are Go pointers shared
  between the session table and goroutines, so the state holds a heap of sessions (an address is
  an index, allocation appends) and the table maps a session id to an address. A nil pointer, nil
  slice-valued address or nil channel is \<open>None\<close>.
\<close>

section \<open>Packets and sessions\<close>

type_synonym IP = "bytes option"
type_synonym conn = nat

record UDPAddr =
  ua_IP :: IP
  ua_Port :: int

record pingInfo =
  pi_ID :: u8
  pi_TX :: Time
  pi_RX :: Time

record pingStruct =
  ps_Type :: u8
  ps_Magic :: u16
  ps_Session :: u32
  ps_ID :: u8
  ps_TXTime :: Time
  ps_SendersError :: u16
  ps_LastAcks :: "pingInfo list"

record handshakeStruct =
  hs_Type :: u8
  hs_Magic :: u16
  hs_Version :: u16
  hs_Session :: u32

record session =
  TCPActivated :: bool
  UDPActivated :: bool
  MadeByMe :: bool
  UDPHandshake :: "nat option"  \<comment> \<open>capacity of the channel, None for a nil channel\<close>
  PeerAddress :: IP
  SessionMade :: Time
  ReplyWith :: "conn option"
  ReplyTo :: "UDPAddr option"
  LastAcks :: "pingInfo list"
  LastRX :: Time
  CurrentID :: u8
  SessionID :: u32
  nextAckSlot :: nat
  LastRXPing :: pingStruct
  pulse :: "nat option"

definition zero_pingInfo :: pingInfo where
  "zero_pingInfo = \<lparr>pi_ID = 0, pi_TX = zeroTime, pi_RX = zeroTime\<rparr>"

definition zero_pingStruct :: pingStruct where
  "zero_pingStruct = \<lparr>ps_Type = 0, ps_Magic = 0, ps_Session = 0, ps_ID = 0, ps_TXTime = zeroTime,
     ps_SendersError = 0, ps_LastAcks = replicate 32 zero_pingInfo\<rparr>"

definition zero_session :: session where
  "zero_session = \<lparr>TCPActivated = False, UDPActivated = False, MadeByMe = False,
     UDPHandshake = None, PeerAddress = None, SessionMade = zeroTime, ReplyWith = None,
     ReplyTo = None, LastAcks = replicate 32 zero_pingInfo, LastRX = zeroTime, CurrentID = 0,
     SessionID = 0, nextAckSlot = 0, LastRXPing = zero_pingStruct, pulse = None\<rparr>"

section \<open>The ring of acknowledged pings\<close>

definition getNextAckSlot :: "session \<Rightarrow> nat \<times> session" where
  "getNextAckSlot s =
     (let s' = (if nextAckSlot s \<noteq> 31 then s\<lparr>nextAckSlot := nextAckSlot s + 1\<rparr>
                else s\<lparr>nextAckSlot := 0\<rparr>)
      in (nextAckSlot s', s'))"

text \<open>\<open>ses.LastAcks[ses.getNextAckSlot()] = pI\<close>, an indexed store into an array of 32.\<close>

definition recordAck :: "pingInfo \<Rightarrow> session \<Rightarrow> (sping_exit, session) go" where
  "recordAck p s =
     (let (slot, s') = getNextAckSlot s
      in bind_go (store (LastAcks s') slot p) (\<lambda>acks. Inr (s'\<lparr>LastAcks := acks\<rparr>)))"

definition ring_ok :: "session \<Rightarrow> bool" where
  "ring_ok s \<longleftrightarrow> length (LastAcks s) = 32 \<and> nextAckSlot s < 32"

text \<open>The pings the ring holds, oldest first: the slot written last is the newest.\<close>

definition ackHistory :: "session \<Rightarrow> pingInfo list" where
  "ackHistory s = rotate (Suc (nextAckSlot s)) (LastAcks s)"

locale bounded_history =
  fixes push :: "'a \<Rightarrow> 's \<Rightarrow> 's" and hist :: "'s \<Rightarrow> 'a list" and ok :: "'s \<Rightarrow> bool"
    and capacity :: nat
  assumes ok_push: "ok s \<Longrightarrow> ok (push x s)"
    and hist_length: "ok s \<Longrightarrow> length (hist s) = capacity"
    and hist_push: "ok s \<Longrightarrow> hist (push x s) = tl (hist s) @ [x]"
    and capacity_pos: "0 < capacity"
begin

lemma ok_pushes: "ok s \<Longrightarrow> ok (fold push xs s)"
  by (induction xs arbitrary: s) (auto intro: ok_push)

lemma hist_pushes: "ok s \<Longrightarrow> hist (fold push xs s) = drop (length xs) (hist s @ xs)"
proof (induction xs arbitrary: s)
  case Nil
  then show ?case by simp
next
  case (Cons x xs)
  then have "hist (fold push (x # xs) s) = drop (length xs) (tl (hist s) @ x # xs)"
    using Cons.IH [OF ok_push] by (simp add: hist_push)
  moreover have "hist s \<noteq> []"
    using Cons.prems hist_length capacity_pos by fastforce
  ultimately show ?case by (cases "hist s") auto
qed

lemma hist_recent:
  "ok s \<Longrightarrow> capacity \<le> length xs \<Longrightarrow> hist (fold push xs s) = drop (length xs - capacity) xs"
  by (simp add: hist_pushes hist_length)

lemma recent_kept:
  assumes "ok s" and "n \<le> capacity"
  shows "set (drop (length xs - n) xs) \<subseteq> set (hist (fold push xs s))"
proof -
  have "hist (fold push xs s) = drop (length xs) (hist s) @ drop (length xs - capacity) xs"
    using assms(1) by (simp add: hist_pushes hist_length)
  moreover have "set (drop (length xs - n) xs) \<subseteq> set (drop (length xs - capacity) xs)"
    using assms(2) by (intro set_drop_subset_set_drop) simp
  ultimately show ?thesis by auto
qed

end

lemma length_ackHistory [simp]: "length (ackHistory s) = length (LastAcks s)"
  by (simp add: ackHistory_def)

lemma set_ackHistory [simp]: "set (ackHistory s) = set (LastAcks s)"
  by (simp add: ackHistory_def)

lemma recordAck_Inr:
  "ring_ok s \<Longrightarrow>
   recordAck p s = Inr (s\<lparr>nextAckSlot := Suc (nextAckSlot s) mod 32,
                          LastAcks := (LastAcks s)[Suc (nextAckSlot s) mod 32 := p]\<rparr>)"
  by (auto simp: recordAck_def getNextAckSlot_def ring_ok_def Let_def)

lemma ring_ok_recordAck: "ring_ok s \<Longrightarrow> ring_ok (projr (recordAck p s))"
  by (simp add: recordAck_Inr) (simp add: ring_ok_def)

lemma ackHistory_recordAck:
  assumes "ring_ok s"
  shows "ackHistory (projr (recordAck p s)) = tl (ackHistory s) @ [p]"
proof -
  let ?L = "LastAcks s" and ?k = "nextAckSlot s"
  have len: "length ?L = 32" and k: "?k < 32" using assms by (simp_all add: ring_ok_def)
  show ?thesis
  proof (cases "?k = 31")
    case True
    with len assms have "ackHistory s = ?L"
      and "ackHistory (projr (recordAck p s)) = rotate1 (?L[0 := p])"
      by (simp_all add: ackHistory_def recordAck_Inr rotate_id)
    then show ?thesis using len by (cases ?L) auto
  next
    case False
    with k have k': "Suc ?k < 32" by simp
    have new: "ackHistory (projr (recordAck p s)) = rotate (Suc (Suc ?k)) (?L[Suc ?k := p])"
      using assms k' by (simp add: ackHistory_def recordAck_Inr)
    have "rotate (Suc (Suc ?k)) (?L[Suc ?k := p]) = drop (Suc (Suc ?k)) ?L @ take (Suc ?k) ?L @ [p]"
    proof (cases "Suc (Suc ?k) = 32")
      case True
      then show ?thesis using len k'
        by (simp add: rotate_id take_Suc_conv_app_nth [of "Suc ?k", symmetric])
          (simp add: upd_conv_take_nth_drop)
    next
      case False
      then show ?thesis using len k'
        by (simp add: rotate_drop_take take_Suc_conv_app_nth [of "Suc ?k" "?L[Suc ?k := p]"])
    qed
    moreover have "tl (ackHistory s) = drop (Suc (Suc ?k)) ?L @ take (Suc ?k) ?L"
      using len k' by (simp add: ackHistory_def rotate_drop_take tl_drop drop_Suc)
    ultimately show ?thesis using new by simp
  qed
qed

interpretation ack_ring: bounded_history "\<lambda>p s. projr (recordAck p s)" ackHistory ring_ok 32
  by unfold_locales
    (simp_all add: ring_ok_recordAck ackHistory_recordAck, simp add: ring_ok_def)

fun recordAcks :: "pingInfo list \<Rightarrow> session \<Rightarrow> (sping_exit, session) go" where
  "recordAcks [] s = Inr s"
| "recordAcks (p # ps) s = bind_go (recordAck p s) (recordAcks ps)"

lemma recordAcks_fold:
  "ring_ok s \<Longrightarrow> recordAcks ps s = Inr (fold (\<lambda>p s. projr (recordAck p s)) ps s)"
proof (induction ps arbitrary: s)
  case Nil
  then show ?case by simp
next
  case (Cons p ps)
  obtain s' where "recordAck p s = Inr s'" using recordAck_Inr [OF Cons.prems] by simp
  then show ?case using Cons.IH [of s'] ring_ok_recordAck [OF Cons.prems, of p] by simp
qed

text \<open>
  C12. The ring refines a window over the received pings: recording any sequence of pings never
  panics, and afterwards the ring holds, oldest first, the last 32 of what it held before followed
  by that sequence; so after 32 pings it holds exactly the last 32 received.
\<close>

theorem ring_holds_last_32:
  assumes "ring_ok s"
  shows "\<exists>s'. recordAcks ps s = Inr s' \<and> ring_ok s' \<and>
    ackHistory s' = drop (length ps) (ackHistory s @ ps) \<and>
    (32 \<le> length ps \<longrightarrow> ackHistory s' = drop (length ps - 32) ps)"
  using assms
  by (simp add: recordAcks_fold ack_ring.ok_pushes ack_ring.hist_pushes)
    (simp add: ring_ok_def)

theorem ring_holds_last_32_witness:
  "ring_ok zero_session \<and>
   (\<exists>s'. recordAcks (replicate 40 (zero_pingInfo\<lparr>pi_ID := 9\<rparr>)) zero_session = Inr s' \<and>
     ackHistory s' = replicate 32 (zero_pingInfo\<lparr>pi_ID := 9\<rparr>))"
proof -
  have ok: "ring_ok zero_session" by (simp add: ring_ok_def zero_session_def)
  from ring_holds_last_32 [OF ok, of "replicate 40 (zero_pingInfo\<lparr>pi_ID := 9\<rparr>)"] ok
  show ?thesis by auto
qed

section \<open>The process state\<close>

record world =
  heap :: "session list"
  sessionMap :: "u32 \<rightharpoonup> nat"
  globalReplyWith :: "conn option"
  wire :: "(conn \<times> bytes \<times> UDPAddr) list"  \<comment> \<open>datagrams handed to a socket, oldest first\<close>
  clock :: clockst

definition setSession :: "nat \<Rightarrow> session \<Rightarrow> world \<Rightarrow> world" where
  "setSession a s w = w\<lparr>heap := (heap w)[a := s]\<rparr>"

text \<open>\<open>sessionMap[id] = &session{...}\<close>\<close>

definition putSession :: "u32 \<Rightarrow> session \<Rightarrow> world \<Rightarrow> world" where
  "putSession sid s w =
     w\<lparr>heap := heap w @ [s], sessionMap := (sessionMap w)(sid \<mapsto> length (heap w))\<rparr>"

definition writeTo :: "conn \<Rightarrow> bytes \<Rightarrow> UDPAddr \<Rightarrow> world \<Rightarrow> world" where
  "writeTo c b ua w = w\<lparr>wire := wire w @ [(c, b, ua)]\<rparr>"

definition sessionOf :: "world \<Rightarrow> u32 \<Rightarrow> session option" where
  "sessionOf w sid = map_option (\<lambda>a. heap w ! a) (sessionMap w sid)"

text \<open>Every table entry points into the heap and two ids never share a session.\<close>

definition table_ok :: "world \<Rightarrow> bool" where
  "table_ok w \<longleftrightarrow> (\<forall>sid a. sessionMap w sid = Some a \<longrightarrow> a < length (heap w) \<and> SessionID (heap w ! a) = sid)"

lemma table_okD:
  "table_ok w \<Longrightarrow> sessionMap w sid = Some a \<Longrightarrow> a < length (heap w)"
  "table_ok w \<Longrightarrow> sessionMap w sid = Some a \<Longrightarrow> SessionID (heap w ! a) = sid"
  by (auto simp: table_ok_def)

lemma table_ok_inj:
  "table_ok w \<Longrightarrow> sessionMap w sid = Some a \<Longrightarrow> sessionMap w sid' = Some a \<Longrightarrow> sid = sid'"
  by (auto simp: table_ok_def)

text \<open>
  The session table as its clients see it: a map from ids to sessions, with the laws of
  insertion and of an update through a pointer obtained from a lookup.
\<close>

locale session_table =
  fixes look :: "'w \<Rightarrow> 'k \<Rightarrow> 's option" and put :: "'k \<Rightarrow> 's \<Rightarrow> 'w \<Rightarrow> 'w"
    and addr :: "'w \<Rightarrow> 'k \<Rightarrow> 'a option" and upd :: "'a \<Rightarrow> 's \<Rightarrow> 'w \<Rightarrow> 'w"
    and ok :: "'w \<Rightarrow> bool" and keyed :: "'k \<Rightarrow> 's \<Rightarrow> bool"
  assumes ok_put: "ok w \<Longrightarrow> keyed k s \<Longrightarrow> ok (put k s w)"
    and ok_upd: "ok w \<Longrightarrow> addr w k = Some a \<Longrightarrow> keyed k s \<Longrightarrow> ok (upd a s w)"
    and look_put: "ok w \<Longrightarrow> look (put k s w) k' = (if k' = k then Some s else look w k')"
    and look_upd: "ok w \<Longrightarrow> addr w k = Some a \<Longrightarrow>
      look (upd a s w) k' = (if k' = k then Some s else look w k')"
    and look_None: "look w k = None \<longleftrightarrow> addr w k = None"
begin

lemma look_upd_same: "ok w \<Longrightarrow> addr w k = Some a \<Longrightarrow> look (upd a s w) k = Some s"
  by (simp add: look_upd)

lemma look_upd_other: "ok w \<Longrightarrow> addr w k = Some a \<Longrightarrow> k' \<noteq> k \<Longrightarrow> look (upd a s w) k' = look w k'"
  by (simp add: look_upd)

lemma dom_upd: "ok w \<Longrightarrow> addr w k = Some a \<Longrightarrow> dom (look (upd a s w)) = dom (look w)"
  using look_None [of w k] by (auto simp: look_upd dom_def split: if_splits)

lemma dom_put: "ok w \<Longrightarrow> dom (look (put k s w)) = insert k (dom (look w))"
  by (auto simp: look_put dom_def split: if_splits)

end

lemma sessionMap_simps [simp]:
  "sessionMap (setSession a s w) = sessionMap w"
  "heap (setSession a s w) = (heap w)[a := s]"
  "clock (setSession a s w) = clock w"
  "wire (setSession a s w) = wire w"
  "globalReplyWith (setSession a s w) = globalReplyWith w"
  "sessionMap (writeTo c b ua w) = sessionMap w"
  "heap (writeTo c b ua w) = heap w"
  "clock (writeTo c b ua w) = clock w"
  "wire (writeTo c b ua w) = wire w @ [(c, b, ua)]"
  "globalReplyWith (writeTo c b ua w) = globalReplyWith w"
  "sessionOf (writeTo c b ua w) = sessionOf w"
  "sessionOf (w\<lparr>clock := ck\<rparr>) = sessionOf w"
  by (simp_all add: setSession_def writeTo_def sessionOf_def fun_eq_iff)

lemma table_ok_frame [simp]:
  "table_ok (writeTo c b ua w) = table_ok w"
  "table_ok (w\<lparr>clock := ck\<rparr>) = table_ok w"
  by (simp_all add: table_ok_def)

interpretation sessions: session_table sessionOf putSession sessionMap setSession table_ok
    "\<lambda>sid s. SessionID s = sid"
proof (unfold_locales, goal_cases)
  case (1 w k s)
  then show ?case by (auto simp: table_ok_def putSession_def nth_append intro: less_SucI)
next
  case (2 w k a s)
  then show ?case by (auto simp: table_ok_def nth_list_update) metis
next
  case (3 w k s k')
  then show ?case
    by (cases "sessionMap w k'") (auto simp: sessionOf_def putSession_def nth_append dest: table_okD)
next
  case (4 w k a s k')
  then show ?case
    by (cases "sessionMap w k'")
      (auto simp: sessionOf_def nth_list_update table_okD dest: table_ok_inj)
next
  case (5 w k)
  then show ?case by (simp add: sessionOf_def)
qed

end
