(* ===== verification/Sping_Stats.thy ===== *)
theory Sping_Stats
  imports Sping_Session
begin

text \<open>
  The statistics of \<open>main.go\<close>: the one-way latencies (\<open>getStats\<close>) and the packet loss of the
  last seconds in each direction (\<open>getLoss\<close>). Ping ids are derived from the Unix second and live
  in \<open>1..255\<close>; the loss loop walks over \<open>uint8\<close> values with wrap-around, and is a partial function
  because it does not stop for a tip id of zero.
\<close>

section \<open>Loss\<close>

definition pingID :: "Time \<Rightarrow> u8" where
  "pingID now = word_of_int (go_rem (time_Unix now) 255) + 1"

fun dumbLastAckSearchForID :: "u8 \<Rightarrow> pingInfo list \<Rightarrow> bool" where
  "dumbLastAckSearchForID targetID [] = False"
| "dumbLastAckSearchForID targetID (v # vs) =
     (if pi_ID v = targetID then True else dumbLastAckSearchForID targetID vs)"

partial_function (option) lossLoop ::
  "u8 \<Rightarrow> pingInfo list \<Rightarrow> pingInfo list \<Rightarrow> u8 \<Rightarrow> int \<Rightarrow> int \<Rightarrow> (int \<times> int) option" where
  "lossLoop TipID rxAcks sesAcks i RXLoss TXLoss =
     (let i1 = i + 1; i2 = (if i1 = 0 then i1 + 1 else i1) in
      if i2 = TipID then Some (RXLoss, TXLoss)
      else lossLoop TipID rxAcks sesAcks i2
             (if \<not> dumbLastAckSearchForID i2 sesAcks then RXLoss + 1 else RXLoss)
             (if \<not> dumbLastAckSearchForID i2 rxAcks then TXLoss + 1 else TXLoss))"

text \<open>\<open>getLoss\<close> returns the losses and the total; \<open>None\<close> is a loop that never ends.\<close>

definition getLoss :: "Time \<Rightarrow> pingStruct \<Rightarrow> session \<Rightarrow> (int \<times> int \<times> int) option" where
  "getLoss now rx ses =
     (let TipID = pingID now in
      if dumbLastAckSearchForID 0 (LastAcks ses) then Some (0, 0, 0)
      else case lossLoop TipID (ps_LastAcks rx) (LastAcks ses) (TipID - 32) 0 0 of
             None \<Rightarrow> None
           | Some (RXLoss, TXLoss) \<Rightarrow> Some (RXLoss, TXLoss, 32))"

section \<open>Latency\<close>

text \<open>
  \<open>rd\<close> gives the successive readings of \<open>time.Now()\<close>: every \<open>time.Since\<close> in the loop takes a
  new one.
\<close>

fun txLoop :: "(nat \<Rightarrow> Time) \<Rightarrow> nat \<Rightarrow> pingInfo list \<Rightarrow> Duration \<Rightarrow> Duration \<Rightarrow> Duration" where
  "txLoop rd k [] TXLatency latest = TXLatency"
| "txLoop rd k (v # vs) TXLatency latest =
     (if pi_RX v = zeroTime then txLoop rd k vs TXLatency latest
      else if time_Since (rd k) (pi_TX v) < latest
      then txLoop rd (k + 2) vs (time_Sub (pi_RX v) (pi_TX v)) (time_Since (rd (k + 1)) (pi_TX v))
      else txLoop rd (k + 1) vs TXLatency latest)"

definition getStats ::
  "(nat \<Rightarrow> Time) \<Rightarrow> Time \<Rightarrow> Time \<Rightarrow> pingStruct \<Rightarrow> session \<Rightarrow> (Duration \<times> Duration \<times> int \<times> int \<times> int) option" where
  "getStats rd nowLoss timeRX rx ses =
     (let RXLatency = time_Sub timeRX (ps_TXTime rx);
          TXLatency = txLoop rd 0 (ps_LastAcks rx) 0 (Hour * 24)
      in case getLoss nowLoss rx ses of
           None \<Rightarrow> None
         | Some (RXLoss, TXLoss, TotalSent) \<Rightarrow> Some (RXLatency, TXLatency, RXLoss, TXLoss, TotalSent))"

section \<open>Ping ids\<close>

lemma search_iff [simp]: "dumbLastAckSearchForID t acks \<longleftrightarrow> t \<in> pi_ID ` set acks"
  by (induction acks) auto

definition secondID :: "int \<Rightarrow> u8" where
  "secondID s = word_of_int (s mod 255 + 1)"

lemma uint_secondID [simp]: "uint (secondID s) = s mod 255 + 1"
proof -
  have "0 \<le> s mod 255 + 1" "s mod 255 + 1 < 256"
    using pos_mod_bound [of 255 s] by auto
  then have "take_bit LENGTH(8) (s mod 255 + 1) = s mod 255 + 1"
    by (intro take_bit_int_eq_self) simp_all
  then show ?thesis by (simp only: secondID_def uint_word_of_int_eq)
qed

lemma secondID_nonzero [simp]: "secondID s \<noteq> 0"
proof
  assume "secondID s = 0"
  then have "uint (secondID s) = 0" by simp
  moreover have "0 \<le> s mod 255" by simp
  ultimately show False by (simp only: uint_secondID)
qed

lemma pingID_secondID: "unixEpoch \<le> now \<Longrightarrow> pingID now = secondID (time_Unix now)"
  by (simp add: pingID_def secondID_def go_rem_nonneg)

section \<open>The window of the loss loop\<close>

definition lossWindow :: "nat \<Rightarrow> u8 \<Rightarrow> u8 list" where
  "lossWindow d tip = filter (\<lambda>x. x \<noteq> 0) (map (\<lambda>k. tip - word_of_nat k) (rev [1..<d]))"

definition missing :: "pingInfo list \<Rightarrow> u8 list \<Rightarrow> int" where
  "missing acks ids = int (length (filter (\<lambda>i. i \<notin> pi_ID ` set acks) ids))"

lemma missing_simps [simp]:
  "missing acks [] = 0"
  "missing acks (i # ids) = (if i \<in> pi_ID ` set acks then 0 else 1) + missing acks ids"
  by (simp_all add: missing_def)

lemma lossWindow_1 [simp]: "lossWindow (Suc 0) tip = []"
  by (simp add: lossWindow_def)

lemma lossWindow_Suc:
  "1 \<le> d \<Longrightarrow> lossWindow (Suc d) tip =
     (if tip = word_of_nat d then lossWindow d tip else (tip - word_of_nat d) # lossWindow d tip)"
  by (simp add: lossWindow_def)

lemma word_of_nat_nonzero: "0 < d \<Longrightarrow> d < 256 \<Longrightarrow> (word_of_nat d :: u8) \<noteq> 0"
  by (simp add: word_of_nat_eq_0_iff nat_dvd_not_less)

lemma lossLoop_window:
  assumes "tip \<noteq> 0" and "1 \<le> d" and "d < 256"
  shows "lossLoop tip rxAcks sesAcks (tip - word_of_nat d) r t =
    Some (r + missing sesAcks (lossWindow d tip), t + missing rxAcks (lossWindow d tip))"
  using assms(2,3)
proof (induction d arbitrary: r t rule: less_induct)
  case (less d)
  then obtain e where d: "d = Suc e" by (cases d) auto
  have step: "tip - word_of_nat d + 1 = tip - word_of_nat e" by (simp add: d)
  show ?case
  proof (cases "e = 0")
    case True
    then show ?thesis using assms(1)
      by (subst lossLoop.simps) (simp add: step d Let_def)
  next
    case e0: False
    then have e: "1 \<le> e" "e < 256" "(word_of_nat e :: u8) \<noteq> 0"
      using less.prems d word_of_nat_nonzero by auto
    show ?thesis
    proof (cases "tip = word_of_nat e")
      case False
      then show ?thesis using e less.IH [of e] d
        by (subst lossLoop.simps) (simp add: step Let_def lossWindow_Suc)
    next
      case True
      obtain f where f: "e = Suc f" using e by (cases e) auto
      have one: "tip - word_of_nat f = 1" using True by (simp add: f)
      show ?thesis
      proof (cases "f = 0")
        case f0: True
        then show ?thesis using True
          by (subst lossLoop.simps) (simp add: step d f Let_def lossWindow_Suc)
      next
        case False
        then have f': "1 \<le> f" "f < 256" "f < d" using e d f by auto
        have ne: "tip \<noteq> 1" using one f' word_of_nat_nonzero [of f] by auto
        have ne': "tip \<noteq> word_of_nat f" using one by auto
        have "lossLoop tip rxAcks sesAcks 1 r' t' =
            Some (r' + missing sesAcks (lossWindow f tip), t' + missing rxAcks (lossWindow f tip))" for r' t'
          using less.IH [of f] f' one by simp
        then show ?thesis using True ne ne' one f'
          by (subst lossLoop.simps) (simp add: step d f Let_def lossWindow_Suc)
      qed
    qed
  qed
qed

lemma getLoss_eq:
  assumes "unixEpoch \<le> now" and "0 \<notin> pi_ID ` set (LastAcks ses)"
  shows "getLoss now rx ses =
    Some (missing (LastAcks ses) (lossWindow 32 (pingID now)),
          missing (ps_LastAcks rx) (lossWindow 32 (pingID now)), 32)"
  using assms lossLoop_window [of "pingID now" 32 "ps_LastAcks rx" "LastAcks ses" 0 0]
  by (simp add: getLoss_def pingID_secondID Let_def)

text \<open>
  The ids the loop visits are those of the seconds before the tip, but when the ids wrap within the
  window the skipped id zero costs one of them.
\<close>

lemma mod_255_minus:
  fixes u e :: int
  shows "0 \<le> e \<Longrightarrow> e \<le> u mod 255 \<Longrightarrow> (u - e) mod 255 = u mod 255 - e"
    and "u mod 255 < e \<Longrightarrow> e \<le> 254 \<Longrightarrow> (u - e) mod 255 = u mod 255 - e + 255"
proof -
  have r: "0 \<le> u mod 255" "u mod 255 < 255" by simp_all
  have eq: "(u - e) mod 255 = (u mod 255 - e) mod 255" by (simp add: mod_diff_left_eq)
  show "(u - e) mod 255 = u mod 255 - e" if "0 \<le> e" "e \<le> u mod 255"
    unfolding eq using that r by (intro mod_pos_pos_trivial) linarith+
  show "(u - e) mod 255 = u mod 255 - e + 255" if "u mod 255 < e" "e \<le> 254"
  proof -
    have "(u mod 255 - e) mod 255 = (u mod 255 - e + 255) mod 255" by simp
    also have "\<dots> = u mod 255 - e + 255" using that r by (intro mod_pos_pos_trivial) linarith+
    finally show ?thesis by (simp only: eq)
  qed
qed

lemma secondID_minus:
  "int d \<le> u mod 255 \<Longrightarrow> secondID u - word_of_nat d = secondID (u - int d)"
  using mod_255_minus(1) [of "int d" u] by (simp add: secondID_def)

lemma secondID_wrap_zero: "int d = u mod 255 + 1 \<Longrightarrow> secondID u = word_of_nat d"
  unfolding secondID_def by (metis of_int_of_nat_eq)

lemma secondID_minus_wrapped:
  assumes "u mod 255 + 1 < int d" and "d \<le> 255"
  shows "secondID u - word_of_nat d = secondID (u - (int d - 1))"
  using mod_255_minus(2) [of u "int d - 1"] assms by (simp add: secondID_def)

definition windowSeconds :: "nat \<Rightarrow> int \<Rightarrow> nat" where
  "windowSeconds d u = (if int d \<le> u mod 255 + 1 then d else d - 1)"

lemma lossWindow_seconds:
  "1 \<le> d \<Longrightarrow> d \<le> 255 \<Longrightarrow>
   lossWindow d (secondID u) = map (\<lambda>j. secondID (u - int j)) (rev [1..<windowSeconds d u])"
proof (induction d)
  case 0
  then show ?case by simp
next
  case (Suc d)
  have nonneg: "0 \<le> u mod 255" by simp
  show ?case
  proof (cases "d = 0")
    case True
    then show ?thesis using nonneg by (simp add: windowSeconds_def)
  next
    case False
    with Suc have IH: "lossWindow d (secondID u) =
        map (\<lambda>j. secondID (u - int j)) (rev [1..<windowSeconds d u])" and d: "1 \<le> d" "d \<le> 254"
      by simp_all
    consider "int d \<le> u mod 255" | "int d = u mod 255 + 1" | "u mod 255 + 1 < int d" by linarith
    then show ?thesis
    proof cases
      case 1
      moreover have "secondID u \<noteq> word_of_nat d"
        using secondID_minus [OF 1] secondID_nonzero [of "u - int d"] by auto
      ultimately show ?thesis using d IH by (simp add: lossWindow_Suc secondID_minus windowSeconds_def)
    next
      case 2
      with d IH show ?thesis by (simp add: lossWindow_Suc secondID_wrap_zero windowSeconds_def)
    next
      case 3
      obtain e where e: "d = Suc e" "1 \<le> e" using 3 nonneg d by (cases d) auto
      have "secondID u \<noteq> word_of_nat d"
        using secondID_minus_wrapped [OF 3] d secondID_nonzero [of "u - (int d - 1)"] by auto
      with 3 d e IH secondID_minus_wrapped [OF 3] show ?thesis
        by (simp add: lossWindow_Suc windowSeconds_def)
    qed
  qed
qed

lemma missing_card:
  "missing acks (map (\<lambda>j. secondID (u - int j)) (rev [1..<m])) =
   int (card {s \<in> {u - int m<..<u}. secondID s \<notin> pi_ID ` set acks})"
proof -
  let ?ys = "map (\<lambda>j. u - int j) (rev [1..<m])"
  have set: "set ?ys = {u - int m<..<u}"
  proof (intro equalityI subsetI)
    fix s assume "s \<in> {u - int m<..<u}"
    then have "s = u - int (nat (u - s))" "nat (u - s) \<in> {1..<m}" by auto
    then have "s \<in> (\<lambda>j. u - int j) ` {1..<m}" by (rule image_eqI)
    then show "s \<in> set ?ys" by simp
  qed auto
  have dist: "distinct ?ys" by (simp add: distinct_map inj_on_def)
  have "missing acks (map (\<lambda>j. secondID (u - int j)) (rev [1..<m])) =
      int (length (filter (\<lambda>s. secondID s \<notin> pi_ID ` set acks) ?ys))"
    by (simp add: missing_def filter_map comp_def)
  also have "\<dots> = int (card {s \<in> set ?ys. secondID s \<notin> pi_ID ` set acks})"
    using distinct_card [OF distinct_filter [OF dist], of "\<lambda>s. secondID s \<notin> pi_ID ` set acks"]
    by (simp only: set_filter)
  finally show ?thesis by (simp only: set)
qed

lemma getLoss_card:
  assumes "unixEpoch \<le> now" and "0 \<notin> pi_ID ` set (LastAcks ses)"
  shows "getLoss now rx ses =
    (let u = time_Unix now; secs = {u - int (windowSeconds 32 u)<..<u} in
     Some (int (card {s \<in> secs. secondID s \<notin> pi_ID ` set (LastAcks ses)}),
           int (card {s \<in> secs. secondID s \<notin> pi_ID ` set (ps_LastAcks rx)}), 32))"
proof -
  have "lossWindow 32 (pingID now) =
      map (\<lambda>j. secondID (time_Unix now - int j)) (rev [1..<windowSeconds 32 (time_Unix now)])"
    using assms(1) lossWindow_seconds [of 32] by (simp add: pingID_secondID)
  then show ?thesis by (simp only: getLoss_eq [OF assms] missing_card Let_def)
qed

lemma windowSeconds_le: "windowSeconds d u \<le> d"
  by (simp add: windowSeconds_def)

lemma window_card_le: "card {s \<in> {u - int (windowSeconds 32 u)<..<u}. P s} \<le> 31"
proof -
  have "card {s \<in> {u - int (windowSeconds 32 u)<..<u}. P s} \<le> card {u - int (windowSeconds 32 u)<..<u}"
    by (intro card_mono) auto
  also have "\<dots> \<le> 31" using windowSeconds_le [of 32 u] by simp
  finally show ?thesis .
qed

text \<open>
  C9. Once every slot of the ring has been filled, \<open>getLoss\<close> terminates and reports, for each
  direction, exactly the number of the last 31 whole seconds whose ping id is absent from the
  respective table of acknowledged pings; when the ids wrap inside that window (the Unix second is
  within 31 of a multiple of 255) only the last 30 seconds are examined.
\<close>

theorem getLoss_counts_missed_seconds:
  assumes "unixEpoch \<le> now" and "0 \<notin> pi_ID ` set (LastAcks ses)"
  shows "getLoss now rx ses =
    (let u = time_Unix now; n = (if u mod 255 < 31 then 30 else 31) in
     Some (int (card {s \<in> {u - n..u - 1}. secondID s \<notin> pi_ID ` set (LastAcks ses)}),
           int (card {s \<in> {u - n..u - 1}. secondID s \<notin> pi_ID ` set (ps_LastAcks rx)}), 32))"
proof -
  let ?u = "time_Unix now"
  have "{?u - int (windowSeconds 32 ?u)<..<?u} = {?u - (if ?u mod 255 < 31 then 30 else 31)..?u - 1}"
    by (auto simp: windowSeconds_def)
  then show ?thesis using getLoss_card [OF assms] by (simp only: Let_def)
qed

theorem getLoss_counts_missed_seconds_witness:
  "getLoss (unixEpoch + 100 * Second) zero_pingStruct
     (zero_session\<lparr>LastAcks := replicate 32 (zero_pingInfo\<lparr>pi_ID := 98\<rparr>)\<rparr>) = Some (30, 31, 32)"
proof -
  let ?ses = "zero_session\<lparr>LastAcks := replicate 32 (zero_pingInfo\<lparr>pi_ID := 98\<rparr>)\<rparr>"
  have u: "time_Unix (unixEpoch + 100 * Second) = 100" by (simp add: time_Unix_def Second_def)
  have id98: "secondID s = 98 \<longleftrightarrow> s = 97" if "s \<in> {69..99}" for s
  proof -
    have "secondID s = 98 \<longleftrightarrow> uint (secondID s) = uint (98 :: u8)" by (rule word_uint_eq_iff)
    also have "\<dots> \<longleftrightarrow> s mod 255 + 1 = 98" by simp
    finally show ?thesis using that by auto
  qed
  have "{s \<in> {69..99}. secondID s \<notin> {98}} = {69..99} - {97}" using id98 by auto
  moreover have "{s \<in> {69..99}. secondID s \<notin> {0}} = {69..99}" by auto
  ultimately have c: "card {s \<in> {69..99 :: int}. secondID s \<notin> {98}} = 30"
    "card {s \<in> {69..99 :: int}. secondID s \<notin> {0}} = 31" by (simp_all only:) simp_all
  have ids: "pi_ID ` set (LastAcks ?ses) = {98}" "pi_ID ` set (ps_LastAcks zero_pingStruct) = {0}"
    by (simp_all add: zero_pingStruct_def zero_pingInfo_def)
  have n: "(100::int) - (if 100 mod 255 < (31::int) then 30 else 31) = 69" "(100::int) - 1 = 99" by simp_all
  have ge: "unixEpoch \<le> unixEpoch + 100 * Second" by (simp add: Second_def)
  have nz: "0 \<notin> pi_ID ` set (LastAcks ?ses)" unfolding ids by simp
  show ?thesis
    using getLoss_counts_missed_seconds [OF ge nz, of zero_pingStruct]
    unfolding Let_def u ids n c by simp
qed

text \<open>
  The loss figures stay between 0 and 31 while the total is reported as 32: a peer from which
  nothing at all arrives is shown with 31 lost pings of 32 at most, never with a total loss.
\<close>

theorem getLoss_never_total:
  assumes "unixEpoch \<le> now"
  shows "\<exists>rxl txl n. getLoss now rx ses = Some (rxl, txl, n) \<and> 0 \<le> rxl \<and> rxl \<le> 31 \<and>
    0 \<le> txl \<and> txl \<le> 31 \<and> (n = 0 \<and> rxl = 0 \<and> txl = 0 \<or> n = 32)"
proof (cases "0 \<in> pi_ID ` set (LastAcks ses)")
  case True
  then show ?thesis by (simp add: getLoss_def)
next
  case False
  let ?u = "time_Unix now"
  show ?thesis
    using getLoss_card [OF assms False, of rx]
      window_card_le [of ?u "\<lambda>s. secondID s \<notin> pi_ID ` set (LastAcks ses)"]
      window_card_le [of ?u "\<lambda>s. secondID s \<notin> pi_ID ` set (ps_LastAcks rx)"]
    by (simp add: Let_def)
qed

theorem getLoss_never_total_witness:
  "\<exists>rxl txl n. getLoss unixEpoch zero_pingStruct zero_session = Some (rxl, txl, n) \<and> rxl \<le> 31"
  using getLoss_never_total [of unixEpoch zero_pingStruct zero_session] by blast

lemma secondID_inj: "secondID x = secondID y \<Longrightarrow> \<bar>x - y\<bar> < 255 \<Longrightarrow> x = y"
proof -
  assume eq: "secondID x = secondID y" and near: "\<bar>x - y\<bar> < 255"
  from eq have "uint (secondID x) = uint (secondID y)" by simp
  then have "x mod 255 = y mod 255" by (simp only: uint_secondID)
  then have "255 dvd x - y" by (simp add: mod_eq_dvd_iff)
  with near show "x = y" using dvd_imp_le_int [of "x - y" 255] by auto
qed

text \<open>A second among the last 31 that occurs in an increasing list is among its last 32 elements.\<close>

lemma recent_in_last_32:
  assumes "sorted_wrt (<) ss" and "set ss \<subseteq> {..<u}" and "32 \<le> length ss"
    and "w \<in> set ss" and "u - 31 \<le> (w :: int)"
  shows "w \<in> set (drop (length ss - 32) ss)"
proof (rule ccontr)
  let ?k = "length ss - 32"
  assume "w \<notin> set (drop ?k ss)"
  with assms(4) have w: "w \<in> set (take ?k ss)"
    using append_take_drop_id [of ?k ss] by (metis Un_iff set_append)
  have "sorted_wrt (<) (take ?k ss @ drop ?k ss)" using assms(1) by simp
  then have above: "\<forall>x \<in> set (drop ?k ss). w < x" and srt: "sorted_wrt (<) (drop ?k ss)"
    using w unfolding sorted_wrt_append by auto
  have "set (drop ?k ss) \<subseteq> {w<..<u}" using above assms(2) by (auto dest: in_set_dropD)
  then have "card (set (drop ?k ss)) \<le> card {w<..<u}" by (intro card_mono) auto
  moreover have "card (set (drop ?k ss)) = 32"
    using srt assms(3) by (simp add: strict_sorted_iff distinct_card)
  ultimately show False using assms(5) by simp
qed

text \<open>What a ring reports that holds the pings of the last of an increasing sequence of seconds.\<close>

lemma history_loss_exact:
  assumes hist: "map pi_ID (ackHistory s') = map secondID (drop (length ss - 32) ss)"
    and "sorted_wrt (<) ss" and "32 \<le> length ss"
    and "set ss \<subseteq> {time_Unix now - 200..<time_Unix now}" and "unixEpoch \<le> now"
  shows "\<exists>txl. getLoss now rx s' =
    Some (int (card ({time_Unix now - (if time_Unix now mod 255 < 31 then 30 else 31)..time_Unix now - 1}
                     - set ss)), txl, 32)"
proof -
  let ?u = "time_Unix now" and ?k = "length ss - 32"
  let ?win = "{?u - (if ?u mod 255 < 31 then 30 else 31)..?u - 1}"
  have "pi_ID ` set (LastAcks s') = set (map pi_ID (ackHistory s'))" by simp
  also have "\<dots> = secondID ` set (drop ?k ss)" by (simp only: hist set_map)
  finally have tab: "pi_ID ` set (LastAcks s') = secondID ` set (drop ?k ss)" .
  have "secondID w \<in> secondID ` set (drop ?k ss) \<longleftrightarrow> w \<in> set ss" if w: "w \<in> ?win" for w
  proof
    assume "secondID w \<in> secondID ` set (drop ?k ss)"
    then obtain x where x: "x \<in> set ss" "secondID w = secondID x" by (auto dest: in_set_dropD)
    have "x \<in> {?u - 200..<?u}" using x(1) assms(4) by blast
    then have "\<bar>w - x\<bar> < 255" using w by (auto split: if_splits)
    then show "w \<in> set ss" using x secondID_inj by blast
  next
    assume "w \<in> set ss"
    moreover have "set ss \<subseteq> {..<?u}" "?u - 31 \<le> w" using assms(4) w by (auto split: if_splits)
    ultimately have "w \<in> set (drop ?k ss)" by (intro recent_in_last_32 [OF assms(2) _ assms(3)])
    then show "secondID w \<in> secondID ` set (drop ?k ss)" by blast
  qed
  then have "{w \<in> ?win. secondID w \<notin> secondID ` set (drop ?k ss)} = ?win - set ss" by blast
  moreover have "{?u - int (windowSeconds 32 ?u)<..<?u} = ?win" by (auto simp: windowSeconds_def)
  moreover have "0 \<notin> pi_ID ` set (LastAcks s')" unfolding tab by auto
  ultimately show ?thesis
    using getLoss_card [OF assms(5), of s' rx] unfolding tab Let_def by (simp only:) blast
qed

text \<open>
  End to end: if the pings a session has recorded carry the ids of increasing seconds before
  the current one, at least 32 of them and none older than 200 seconds, then the receive loss that
  is reported is exactly the number of seconds of the window for which no ping was received.
\<close>

theorem measured_rx_loss_exact:
  assumes "ring_ok s" and rec: "recordAcks ps s = Inr s'"
    and ids: "map pi_ID ps = map secondID ss" and "sorted_wrt (<) ss" and "32 \<le> length ss"
    and "set ss \<subseteq> {time_Unix now - 200..<time_Unix now}" and "unixEpoch \<le> now"
  shows "\<exists>txl. getLoss now rx s' =
    Some (int (card ({time_Unix now - (if time_Unix now mod 255 < 31 then 30 else 31)..time_Unix now - 1}
                     - set ss)), txl, 32)"
proof -
  have len: "length ps = length ss" using ids by (metis length_map)
  from rec assms(1) have "s' = fold (\<lambda>p s. projr (recordAck p s)) ps s" by (simp add: recordAcks_fold)
  then have "ackHistory s' = drop (length ps - 32) ps"
    using ack_ring.hist_recent [OF assms(1), of ps] assms(5) len by simp
  then have "map pi_ID (ackHistory s') = map secondID (drop (length ss - 32) ss)"
    unfolding drop_map [symmetric] ids [symmetric] len by (simp add: drop_map)
  then show ?thesis using assms(4-7) by (rule history_loss_exact)
qed

theorem measured_rx_loss_exact_witness:
  "\<exists>s' txl. recordAcks (map (\<lambda>t. zero_pingInfo\<lparr>pi_ID := secondID t\<rparr>) [60..91]) zero_session = Inr s' \<and>
     getLoss (unixEpoch + 100 * Second) zero_pingStruct s' = Some (8, txl, 32)"
proof -
  let ?ps = "map (\<lambda>t. zero_pingInfo\<lparr>pi_ID := secondID t\<rparr>) [60..91]" and ?now = "unixEpoch + 100 * Second"
  have ok: "ring_ok zero_session" by (simp add: ring_ok_def zero_session_def)
  obtain s' where s': "recordAcks ?ps zero_session = Inr s'" using recordAcks_fold [OF ok] by blast
  have u: "time_Unix ?now = 100" by (simp add: time_Unix_def Second_def)
  have ids: "map pi_ID ?ps = map secondID [60..91]" by (simp add: comp_def)
  have now: "unixEpoch \<le> ?now" by (simp add: Second_def)
  have "\<exists>txl. getLoss ?now zero_pingStruct s' = Some (8, txl, 32)"
    using measured_rx_loss_exact [OF ok s' ids _ _ _ now, of zero_pingStruct, unfolded u] by simp
  then show ?thesis using s' by blast
qed

section \<open>The transmit latency\<close>

definition no_saturation :: "(nat \<Rightarrow> Time) \<Rightarrow> pingInfo list \<Rightarrow> bool" where
  "no_saturation rd acks \<longleftrightarrow> (\<forall>v \<in> set acks. \<forall>k. \<bar>rd k - pi_TX v\<bar> \<le> maxDuration)"

lemma time_Since_exact: "\<bar>t - u\<bar> \<le> maxDuration \<Longrightarrow> time_Since t u = t - u"
  by (simp add: time_simps)

lemma no_saturation_Cons [simp]:
  "no_saturation rd (v # vs) \<longleftrightarrow> (\<forall>k. \<bar>rd k - pi_TX v\<bar> \<le> maxDuration) \<and> no_saturation rd vs"
  by (auto simp: no_saturation_def)

text \<open>Once an ack is selected, later ones replace it only if they were sent later.\<close>

lemma txLoop_selected:
  assumes "mono rd" and "\<forall>k. rd k \<le> rd 0 + \<delta>" and "no_saturation rd vs" and "j < k"
  shows "\<exists>v. (v = c \<or> v \<in> set vs \<and> pi_RX v \<noteq> zeroTime) \<and>
    txLoop rd k vs (time_Sub (pi_RX c) (pi_TX c)) (rd j - pi_TX c) = time_Sub (pi_RX v) (pi_TX v) \<and>
    pi_TX c \<le> pi_TX v \<and> (\<forall>u \<in> set vs. pi_RX u \<noteq> zeroTime \<longrightarrow> pi_TX u \<le> pi_TX v + \<delta>)"
  using assms(3,4)
proof (induction vs arbitrary: c k j)
  case Nil
  then show ?case by auto
next
  case (Cons x xs)
  have \<delta>: "0 \<le> \<delta>" using assms(2) by (metis le_add_same_cancel1)
  have exact: "time_Since (rd i) (pi_TX x) = rd i - pi_TX x" for i
    using Cons.prems by (simp add: time_Since_exact)
  have jk: "rd j \<le> rd k" using assms(1) Cons.prems by (simp add: monoD)
  have kj: "rd k \<le> rd j + \<delta>"
    using assms(1,2) by (meson add_right_mono monoD order_trans zero_le)
  have sat: "no_saturation rd xs" using Cons.prems by simp
  show ?case
  proof (cases "pi_RX x = zeroTime")
    case True
    then show ?thesis using Cons.IH [OF sat Cons.prems(2), of c] by auto
  next
    case rx: False
    show ?thesis
    proof (cases "rd k - pi_TX x < rd j - pi_TX c")
      case True
      with jk have "pi_TX c < pi_TX x" by simp
      then show ?thesis using Cons.IH [OF sat, of "k + 1" "k + 2" x] rx True exact \<delta>
        by fastforce
    next
      case False
      then have "pi_TX x \<le> pi_TX c + \<delta>" using kj by simp
      then show ?thesis using Cons.IH [OF sat, of j "k + 1" c] Cons.prems rx False exact by fastforce
    qed
  qed
qed

lemma txLoop_unselected:
  assumes "mono rd" and "\<forall>k. rd k \<le> rd 0 + \<delta>" and "no_saturation rd vs"
    and "\<exists>u \<in> set vs. pi_RX u \<noteq> zeroTime \<and> rd 0 + \<delta> - pi_TX u < L"
  shows "\<exists>v \<in> set vs. pi_RX v \<noteq> zeroTime \<and> rd k - L < pi_TX v \<and>
    txLoop rd k vs 0 L = time_Sub (pi_RX v) (pi_TX v) \<and>
    (\<forall>u \<in> set vs. pi_RX u \<noteq> zeroTime \<longrightarrow> pi_TX u \<le> pi_TX v + \<delta>)"
  using assms(3,4)
proof (induction vs arbitrary: k)
  case Nil
  then show ?case by simp
next
  case (Cons x xs)
  have \<delta>: "0 \<le> \<delta>" using assms(2) by (metis le_add_same_cancel1)
  have exact: "time_Since (rd i) (pi_TX x) = rd i - pi_TX x" for i
    using Cons.prems by (simp add: time_Since_exact)
  have sat: "no_saturation rd xs" using Cons.prems by simp
  show ?case
  proof (cases "pi_RX x \<noteq> zeroTime \<and> rd k - pi_TX x < L")
    case True
    then have "rd k - L < pi_TX x" by simp
    then show ?thesis
      using txLoop_selected [OF assms(1,2) sat, of "k + 1" "k + 2" x] True exact \<delta> by fastforce
  next
    case False
    have "rd k \<le> rd 0 + \<delta>" using assms(2) by blast
    with False Cons.prems have ex: "\<exists>u \<in> set xs. pi_RX u \<noteq> zeroTime \<and> rd 0 + \<delta> - pi_TX u < L"
      by auto
    have mono: "rd k \<le> rd (k + 1)" using assms(1) by (simp add: monoD)
    show ?thesis
    proof (cases "pi_RX x = zeroTime")
      case True
      then show ?thesis using Cons.IH [OF sat ex, of k] by auto
    next
      case rx: False
      with False have "pi_TX x \<le> rd k - L" by simp
      then show ?thesis using Cons.IH [OF sat ex, of "k + 1"] rx False exact mono \<delta> by fastforce
    qed
  qed
qed

text \<open>
  C13. \<open>getStats\<close> reports as transmit latency the one-way delay of the most recently sent ping the
  peer has acknowledged: no acknowledged ping was sent later than the chosen one by more than the
  time \<open>\<delta>\<close> the clock advances while the loop runs. The receive latency is the arrival time minus the
  sender's time stamp.
\<close>

theorem getStats_latency:
  assumes "unixEpoch \<le> nowLoss"
    and "mono rd" and "\<forall>k. rd k \<le> rd 0 + \<delta>" and "no_saturation rd (ps_LastAcks rx)"
    and "\<exists>u \<in> set (ps_LastAcks rx). pi_RX u \<noteq> zeroTime \<and> rd 0 + \<delta> - pi_TX u < Hour * 24"
  shows "\<exists>v \<in> set (ps_LastAcks rx). \<exists>rxLoss txLoss n. pi_RX v \<noteq> zeroTime \<and>
    getStats rd nowLoss timeRX rx ses =
      Some (time_Sub timeRX (ps_TXTime rx), time_Sub (pi_RX v) (pi_TX v), rxLoss, txLoss, n) \<and>
    (\<forall>u \<in> set (ps_LastAcks rx). pi_RX u \<noteq> zeroTime \<longrightarrow> pi_TX u \<le> pi_TX v + \<delta>)"
proof -
  obtain rxLoss txLoss n where "getLoss nowLoss rx ses = Some (rxLoss, txLoss, n)"
  proof (cases "0 \<in> pi_ID ` set (LastAcks ses)")
    case True
    then show ?thesis using that [of 0 0 0] by (simp add: getLoss_def)
  next
    case False
    then show ?thesis using that getLoss_eq [OF assms(1)] by blast
  qed
  moreover obtain v where "v \<in> set (ps_LastAcks rx)" "pi_RX v \<noteq> zeroTime"
    "txLoop rd 0 (ps_LastAcks rx) 0 (Hour * 24) = time_Sub (pi_RX v) (pi_TX v)"
    "\<forall>u \<in> set (ps_LastAcks rx). pi_RX u \<noteq> zeroTime \<longrightarrow> pi_TX u \<le> pi_TX v + \<delta>"
    using txLoop_unselected [OF assms(2-5), of 0] by blast
  ultimately show ?thesis by (intro bexI [of _ v]) (simp_all add: getStats_def)
qed

theorem getStats_latency_witness:
  "\<exists>v \<in> {\<lparr>pi_ID = 5, pi_TX = unixEpoch, pi_RX = unixEpoch + 7\<rparr>}. \<exists>rxLoss txLoss n.
     getStats (\<lambda>_. unixEpoch) unixEpoch (unixEpoch + 3)
       (zero_pingStruct\<lparr>ps_TXTime := unixEpoch,
          ps_LastAcks := [\<lparr>pi_ID = 5, pi_TX = unixEpoch, pi_RX = unixEpoch + 7\<rparr>]\<rparr>) zero_session =
     Some (3, time_Sub (pi_RX v) (pi_TX v), rxLoss, txLoss, n)"
  using getStats_latency [of unixEpoch "\<lambda>_. unixEpoch" 0
      "zero_pingStruct\<lparr>ps_TXTime := unixEpoch,
        ps_LastAcks := [\<lparr>pi_ID = 5, pi_TX = unixEpoch, pi_RX = unixEpoch + 7\<rparr>]\<rparr>"
      "unixEpoch + 3" zero_session]
  by (simp add: mono_def no_saturation_def time_simps)

end
