(* ===== verification/Sping_Packet.thy ===== *)
theory Sping_Packet
  imports Sping_Stats
begin

text \<open>
  The UDP side of \<open>main.go\<close>: the receive loop \<open>listenAndRoute\<close> and the handlers \<open>handlePacket\<close>
  and \<open>handleInboundHandshake\<close>. The msgpack codec is an argument (a record of four functions,
  \<open>None\<close> for an error), as are the clock readings, the decision of the rate limiter and whether
  a goroutine is blocked on the session's handshake channel when the handler tries to send on
  it. Each early return of the handlers is an outcome of its own. Log and debug output are not
  modelled. A handler runs as one step here; \<open>Sping_System\<close> cuts it at its accesses to shared memory.
\<close>

section \<open>Handlers\<close>

record codec =
  marshalPing :: "pingStruct \<Rightarrow> bytes option"
  unmarshalPing :: "bytes \<Rightarrow> pingStruct option"
  marshalHandshake :: "handshakeStruct \<Rightarrow> bytes option"
  unmarshalHandshake :: "bytes \<Rightarrow> handshakeStruct option"

datatype pkt_outcome =
    ParseFailed | InvalidMagic | NotTimeType | NoActiveSession | NotDoubleActivated | PingRecorded nat
  | HandshakeParseFailed | HandshakeInvalidMagic | HandshakeInvalidVersion | HandshakeNoSession
  | HandshakeAlreadyActive | HandshakeAccepted nat bool

text \<open>A non-blocking send: it succeeds on a made channel exactly when a receiver is waiting.\<close>

definition trySend :: "nat option \<Rightarrow> bool \<Rightarrow> bool" where
  "trySend ch waiting = (case ch of None \<Rightarrow> False | Some cap \<Rightarrow> waiting)"

definition handleInboundHandshake ::
  "codec \<Rightarrow> bool \<Rightarrow> bytes \<Rightarrow> UDPAddr \<Rightarrow> conn \<Rightarrow> world \<Rightarrow> (sping_exit, pkt_outcome \<times> world) go" where
  "handleInboundHandshake cd waiting buf rxAddr lSocket w =
     (case unmarshalHandshake cd buf of
        None \<Rightarrow> Inr (HandshakeParseFailed, w)
      | Some rx \<Rightarrow>
          if hs_Magic rx \<noteq> 11181 then Inr (HandshakeInvalidMagic, w)
          else if hs_Version rx \<noteq> 3 then Inr (HandshakeInvalidVersion, w)
          else case sessionMap w (hs_Session rx) of
            None \<Rightarrow> Inr (HandshakeNoSession, w)
          | Some a \<Rightarrow>
              let ses = heap w ! a in
              if UDPActivated ses \<and> TCPActivated ses then Inr (HandshakeAlreadyActive, w)
              else case globalReplyWith w of
                None \<Rightarrow> Inl (Panic NilDereference)
              | Some g \<Rightarrow>
                  let wasAlreadyActivated = UDPActivated ses;
                      ses' = ses\<lparr>ReplyTo := Some rxAddr, ReplyWith := Some g, UDPActivated := True,
                        PeerAddress := (case PeerAddress ses of None \<Rightarrow> ua_IP rxAddr | Some ip \<Rightarrow> Some ip)\<rparr>;
                      w' = setSession a ses' w;
                      notified = trySend (UDPHandshake ses) waiting;
                      w'' = (if \<not> wasAlreadyActivated then writeTo g buf rxAddr w' else w')
                  in Inr (HandshakeAccepted a notified, w''))"

definition handlePing ::
  "Time \<Rightarrow> pingStruct \<Rightarrow> UDPAddr \<Rightarrow> conn \<Rightarrow> world \<Rightarrow> (sping_exit, pkt_outcome \<times> world) go" where
  "handlePing timeRX rx rxAddr lSocket w =
     (case sessionMap w (ps_Session rx) of
        None \<Rightarrow> Inr (NoActiveSession, w)
      | Some a \<Rightarrow>
          let ses = heap w ! a in
          if UDPActivated ses = False \<and> TCPActivated ses then Inr (NotDoubleActivated, w)
          else
            let pI = \<lparr>pi_ID = ps_ID rx, pi_TX = ps_TXTime rx, pi_RX = timeRX\<rparr> in
            bind_go (recordAck pI ses) (\<lambda>ses1.
              Inr (PingRecorded a,
                setSession a (ses1\<lparr>ReplyWith := Some lSocket, ReplyTo := Some rxAddr,
                                   LastRX := timeRX, LastRXPing := rx\<rparr>) w)))"

definition handlePacket ::
  "codec \<Rightarrow> clock_env \<Rightarrow> Time \<Rightarrow> bool \<Rightarrow> bytes \<Rightarrow> UDPAddr \<Rightarrow> conn \<Rightarrow> world
     \<Rightarrow> (sping_exit, pkt_outcome \<times> world) go" where
  "handlePacket cd env now waiting buf rxAddr lSocket w0 =
     bind_go (timeNowCorrected env now (clock w0)) (\<lambda>(timeRX, ck).
       let w = w0\<lparr>clock := ck\<rparr> in
       case unmarshalPing cd buf of
         None \<Rightarrow> Inr (ParseFailed, w)
       | Some rx \<Rightarrow>
           if ps_Magic rx \<noteq> 11181 then Inr (InvalidMagic, w)
           else if ps_Type rx = 104 then handleInboundHandshake cd waiting buf rxAddr lSocket w
           else if ps_Type rx \<noteq> 116 then Inr (NotTimeType, w)
           else handlePing timeRX rx rxAddr lSocket w)"

datatype udp_read = ReadError | Datagram bytes UDPAddr

definition listenUDP :: "conn option \<Rightarrow> world \<Rightarrow> (sping_exit, conn \<times> world) go" where
  "listenUDP listener w =
     (case listener of
        None \<Rightarrow> Inl (Error FatalListen)
      | Some c \<Rightarrow> Inr (c, w\<lparr>globalReplyWith := Some c\<rparr>))"

text \<open>One turn of the receive loop: read into a buffer of 10000 bytes, ask the limiter, handle.\<close>

definition routePacket ::
  "codec \<Rightarrow> clock_env \<Rightarrow> Time \<Rightarrow> bool \<Rightarrow> udp_read \<Rightarrow> bool \<Rightarrow> conn \<Rightarrow> world
     \<Rightarrow> (sping_exit, pkt_outcome option \<times> world) go" where
  "routePacket cd env now waiting rd allow uListener w =
     (case rd of
        ReadError \<Rightarrow> Inl (Error FatalListen)
      | Datagram buf rxAddr \<Rightarrow>
          if \<not> allow then Inr (None, w)
          else bind_go (handlePacket cd env now waiting (take 10000 buf) rxAddr uListener w)
                 (\<lambda>(out, w'). Inr (Some out, w')))"

section \<open>Well-formed states\<close>

text \<open>
  What every session of a running process satisfies: the ring is in range, the session came out of
  a TCP handshake and has an unbuffered handshake channel and no pulse channel; an activated
  session knows where to reply to; a session that has received a ping is activated.
\<close>

definition session_ok :: "session \<Rightarrow> bool" where
  "session_ok s \<longleftrightarrow> ring_ok s \<and> TCPActivated s \<and> UDPHandshake s = Some 0 \<and> pulse s = None \<and>
     (UDPActivated s \<longrightarrow> ReplyTo s \<noteq> None \<and> ReplyWith s \<noteq> None) \<and>
     (LastRX s \<noteq> zeroTime \<longrightarrow> UDPActivated s)"

definition world_ok :: "world \<Rightarrow> bool" where
  "world_ok w \<longleftrightarrow> table_ok w \<and> (\<forall>s \<in> set (heap w). session_ok s) \<and> timeOffset (clock w) \<le> Second"

lemma world_ok_session:
  "world_ok w \<Longrightarrow> sessionMap w sid = Some a \<Longrightarrow> session_ok (heap w ! a)"
  by (auto simp: world_ok_def dest: table_okD)

lemma world_ok_setSession:
  "world_ok w \<Longrightarrow> sessionMap w sid = Some a \<Longrightarrow> session_ok s \<Longrightarrow> SessionID s = sid \<Longrightarrow>
   world_ok (setSession a s w)"
  by (auto simp: world_ok_def sessions.ok_upd dest: set_update_subset_insert [THEN subsetD])

lemma world_ok_putSession:
  "world_ok w \<Longrightarrow> session_ok s \<Longrightarrow> SessionID s = sid \<Longrightarrow> world_ok (putSession sid s w)"
  by (simp add: world_ok_def sessions.ok_put) (auto simp: putSession_def)

lemma world_ok_frame [simp]:
  "world_ok (writeTo c b ua w) = world_ok w"
  "timeOffset ck \<le> Second \<Longrightarrow> timeOffset (clock w) \<le> Second \<Longrightarrow> world_ok (w\<lparr>clock := ck\<rparr>) = world_ok w"
  by (simp_all add: world_ok_def)

lemma recordAck_frame:
  assumes "recordAck p s = Inr s'"
  shows "s' = s\<lparr>nextAckSlot := nextAckSlot s', LastAcks := LastAcks s'\<rparr>"
  using assms
  by (auto simp: recordAck_def getNextAckSlot_def Let_def bind_go_Inr_iff split: if_split_asm)

lemma recordAck_session_ok:
  assumes "session_ok s" and "UDPActivated s" and "recordAck p s = Inr s1"
  shows "session_ok (s1\<lparr>ReplyWith := Some c, ReplyTo := Some ua, LastRX := t, LastRXPing := rx\<rparr>)"
    and "SessionID s1 = SessionID s"
proof -
  have ring: "ring_ok s1" using assms ring_ok_recordAck [of s p] by (simp add: session_ok_def)
  have frame: "s1 = s\<lparr>nextAckSlot := nextAckSlot s1, LastAcks := LastAcks s1\<rparr>"
    using recordAck_frame [OF assms(3)] .
  show "SessionID s1 = SessionID s" by (subst frame) simp
  have "TCPActivated s1 = TCPActivated s" "UDPHandshake s1 = UDPHandshake s" "pulse s1 = pulse s"
    "UDPActivated s1 = UDPActivated s" by (subst frame, simp)+
  with ring assms(1,2) show "session_ok (s1\<lparr>ReplyWith := Some c, ReplyTo := Some ua, LastRX := t, LastRXPing := rx\<rparr>)"
    by (simp add: session_ok_def ring_ok_def)
qed

lemma handlePing_world_ok:
  assumes "world_ok w" and "handlePing t rx ua c w = Inr (out, w')"
  shows "world_ok w'" and "sessionMap w' = sessionMap w" and "wire w' = wire w"
proof -
  have "world_ok w' \<and> sessionMap w' = sessionMap w \<and> wire w' = wire w"
  proof (cases "sessionMap w (ps_Session rx)")
    case None
    with assms show ?thesis by (simp add: handlePing_def)
  next
    case (Some a)
    have ok: "session_ok (heap w ! a)" using assms(1) Some by (rule world_ok_session)
    have id: "SessionID (heap w ! a) = ps_Session rx"
      using assms(1) Some by (simp add: world_ok_def table_okD)
    show ?thesis
    proof (cases "UDPActivated (heap w ! a)")
      case True
      let ?p = "\<lparr>pi_ID = ps_ID rx, pi_TX = ps_TXTime rx, pi_RX = t\<rparr>"
      from assms(2) True Some obtain s1 where s1: "recordAck ?p (heap w ! a) = Inr s1"
        and w': "w' = setSession a (s1\<lparr>ReplyWith := Some c, ReplyTo := Some ua, LastRX := t, LastRXPing := rx\<rparr>) w"
        by (auto simp: handlePing_def bind_go_Inr_iff)
      show ?thesis
        using recordAck_session_ok [OF ok True s1] id world_ok_setSession [OF assms(1) Some]
        by (simp add: w')
    next
      case False
      with assms Some ok show ?thesis by (auto simp: handlePing_def session_ok_def)
    qed
  qed
  then show "world_ok w'" "sessionMap w' = sessionMap w" "wire w' = wire w" by simp_all
qed

text \<open>The accepting branch of the handshake handler, spelled out once.\<close>

lemma handleInboundHandshake_cases:
  assumes "handleInboundHandshake cd waiting buf ua c w = Inr (out, w')"
  obtains (rejected) "w' = w" "\<And>a b. out \<noteq> HandshakeAccepted a b" "\<And>a. out \<noteq> PingRecorded a"
  | (accepted) rx a g ses' where "unmarshalHandshake cd buf = Some rx" "hs_Magic rx = 11181" "hs_Version rx = 3"
      "sessionMap w (hs_Session rx) = Some a" "globalReplyWith w = Some g"
      "\<not> (UDPActivated (heap w ! a) \<and> TCPActivated (heap w ! a))"
      "out = HandshakeAccepted a (trySend (UDPHandshake (heap w ! a)) waiting)"
      "ses' = (heap w ! a)\<lparr>ReplyTo := Some ua, ReplyWith := Some g, UDPActivated := True,
         PeerAddress := (case PeerAddress (heap w ! a) of None \<Rightarrow> ua_IP ua | Some ip \<Rightarrow> Some ip)\<rparr>"
      "w' = (if UDPActivated (heap w ! a) then setSession a ses' w else writeTo g buf ua (setSession a ses' w))"
proof (cases "\<exists>a b. out = HandshakeAccepted a b")
  case False
  then have "w' = w" "\<And>a. out \<noteq> PingRecorded a"
    using assms by (auto simp: handleInboundHandshake_def Let_def split: option.splits if_splits)
  with False rejected show ?thesis by blast
next
  case True
  with assms obtain rx where rx: "unmarshalHandshake cd buf = Some rx"
    by (cases "unmarshalHandshake cd buf") (auto simp: handleInboundHandshake_def)
  with assms True have m: "hs_Magic rx = 11181" "hs_Version rx = 3"
    by (auto simp: handleInboundHandshake_def split: if_split_asm)
  with assms True rx obtain a where a: "sessionMap w (hs_Session rx) = Some a"
    by (cases "sessionMap w (hs_Session rx)") (auto simp: handleInboundHandshake_def)
  with assms True rx m have act: "\<not> (UDPActivated (heap w ! a) \<and> TCPActivated (heap w ! a))"
    by (auto simp: handleInboundHandshake_def Let_def)
  with assms True rx m a obtain g where g: "globalReplyWith w = Some g"
    by (cases "globalReplyWith w") (auto simp: handleInboundHandshake_def Let_def)
  show ?thesis
    using assms rx m a g act
    by (intro accepted [OF rx m a g act _ refl]) (simp_all add: handleInboundHandshake_def Let_def split: if_split_asm)
qed

lemma handshake_session_ok:
  "session_ok s \<Longrightarrow> session_ok (s\<lparr>ReplyTo := Some ua, ReplyWith := Some g, UDPActivated := True, PeerAddress := ip\<rparr>)"
  by (simp add: session_ok_def ring_ok_def)

lemma handleInboundHandshake_world_ok:
  assumes "world_ok w" and "handleInboundHandshake cd waiting buf ua c w = Inr (out, w')"
  shows "world_ok w'" and "sessionMap w' = sessionMap w"
proof -
  from assms(2) have "world_ok w' \<and> sessionMap w' = sessionMap w"
  proof (cases rule: handleInboundHandshake_cases)
    case rejected
    with assms(1) show ?thesis by simp
  next
    case (accepted rx a g ses')
    then have "session_ok ses'" "SessionID ses' = hs_Session rx"
      using assms(1) world_ok_session [OF assms(1) accepted(4)]
      by (simp_all add: handshake_session_ok world_ok_def table_okD)
    with accepted assms(1) show ?thesis using world_ok_setSession [OF assms(1) accepted(4)] by simp
  qed
  then show "world_ok w'" "sessionMap w' = sessionMap w" by simp_all
qed

lemma handlePacket_clock:
  assumes "world_ok w" and "timeNowCorrected env now (clock w) = Inr (t, ck)"
  shows "world_ok (w\<lparr>clock := ck\<rparr>)"
  using assms timeNowCorrected_Inr [OF _ assms(2)] by (simp add: world_ok_def)

lemma handlePacket_cases:
  assumes "handlePacket cd env now waiting buf ua c w = Inr (out, w')"
  obtains (rejected) t ck where "timeNowCorrected env now (clock w) = Inr (t, ck)" "w' = w\<lparr>clock := ck\<rparr>"
      "\<And>a b. out \<noteq> HandshakeAccepted a b" "\<And>a. out \<noteq> PingRecorded a"
  | (handshake) t ck rx where "timeNowCorrected env now (clock w) = Inr (t, ck)"
      "unmarshalPing cd buf = Some rx" "ps_Magic rx = 11181" "ps_Type rx = 104"
      "handleInboundHandshake cd waiting buf ua c (w\<lparr>clock := ck\<rparr>) = Inr (out, w')"
  | (ping) t ck rx where "timeNowCorrected env now (clock w) = Inr (t, ck)"
      "unmarshalPing cd buf = Some rx" "ps_Magic rx = 11181" "ps_Type rx = 116"
      "handlePing t rx ua c (w\<lparr>clock := ck\<rparr>) = Inr (out, w')"
proof -
  from assms obtain t ck where ck: "timeNowCorrected env now (clock w) = Inr (t, ck)"
    by (auto simp: handlePacket_def bind_go_Inr_iff)
  show ?thesis
  proof (cases "unmarshalPing cd buf")
    case None
    then show ?thesis using rejected ck assms by (auto simp: handlePacket_def)
  next
    case (Some rx)
    then show ?thesis using rejected handshake ping ck assms
      by (auto simp: handlePacket_def Let_def split: if_split_asm)
  qed
qed

lemma handlePacket_no_panic:
  assumes "world_ok w" and g: "globalReplyWith w \<noteq> None"
  shows "no_panic (handlePacket cd env now waiting buf ua c w)"
proof -
  have clock: "no_panic (timeNowCorrected env now (clock w))"
    by (auto simp: timeNowCorrected_def getTimeOffset_def split_def Let_def no_panic_iff bind_go_Inl_iff)
  have ping: "no_panic (handlePing t rx ua c w1)" if "world_ok w1" for t rx w1
    using world_ok_session [OF that]
    by (auto simp: handlePing_def Let_def session_ok_def recordAck_Inr split: option.split)
  have hs: "no_panic (handleInboundHandshake cd waiting buf ua c w1)" if "globalReplyWith w1 \<noteq> None" for w1
    using that by (auto simp: handleInboundHandshake_def Let_def split: option.splits)
  show "no_panic (handlePacket cd env now waiting buf ua c w)"
    unfolding handlePacket_def
    using g by (intro no_panic_bind clock)
      (auto simp: Let_def hs ping handlePacket_clock [OF assms(1)] split: option.split)
qed

text \<open>
  C6. Every packet, whatever its contents and whoever sends it, leaves the process in a
  well-formed state with the same set of sessions, and can only be answered by a panic if the UDP
  socket has not been opened yet.
\<close>

theorem handlePacket_world_ok:
  assumes "world_ok w"
  shows "(\<forall>out w'. handlePacket cd env now waiting buf ua c w = Inr (out, w') \<longrightarrow>
           world_ok w' \<and> sessionMap w' = sessionMap w)
       \<and> (globalReplyWith w \<noteq> None \<longrightarrow> no_panic (handlePacket cd env now waiting buf ua c w))"
proof (intro conjI allI impI)
  fix out w' assume run: "handlePacket cd env now waiting buf ua c w = Inr (out, w')"
  then show "world_ok w'" "sessionMap w' = sessionMap w"
    using handlePing_world_ok [OF handlePacket_clock [OF assms]]
      handleInboundHandshake_world_ok [OF handlePacket_clock [OF assms]]
    by (cases rule: handlePacket_cases; auto simp: handlePacket_clock [OF assms])+
qed (use assms handlePacket_no_panic in blast)

definition demo_session :: "u32 \<Rightarrow> session" where
  "demo_session sid = zero_session\<lparr>TCPActivated := True, UDPHandshake := Some 0, SessionID := sid\<rparr>"

definition demo_world :: world where
  "demo_world = \<lparr>heap = [demo_session 7], sessionMap = [7 \<mapsto> 0], globalReplyWith = Some 1, wire = [],
     clock = \<lparr>timeOffset = 1, lastSync = unixEpoch\<rparr>\<rparr>"

definition demo_env :: clock_env where
  "demo_env = \<lparr>ce_perfect = True, ce_answers = \<lambda>_ _. None, ce_arrived = [],
     ce_since = unixEpoch, ce_sync = unixEpoch\<rparr>"

definition demo_codec :: "pingStruct option \<Rightarrow> handshakeStruct option \<Rightarrow> codec" where
  "demo_codec p h = \<lparr>marshalPing = \<lambda>_. Some [1], unmarshalPing = \<lambda>_. p,
     marshalHandshake = \<lambda>_. Some [2], unmarshalHandshake = \<lambda>_. h\<rparr>"

definition demo_peer :: UDPAddr where
  "demo_peer = \<lparr>ua_IP = Some [198, 16, 109, 36], ua_Port = 6924\<rparr>"

lemma demo_clock: "timeNowCorrected demo_env unixEpoch (clock demo_world) =
    Inr (unixEpoch + 1, \<lparr>timeOffset = 1, lastSync = unixEpoch\<rparr>)"
  by (simp add: timeNowCorrected_def getTimeOffset_def demo_world_def demo_env_def time_simps)

lemma demo_session_ok: "session_ok (demo_session sid)"
  by (simp add: session_ok_def demo_session_def zero_session_def ring_ok_def)

lemma demo_world_ok: "world_ok demo_world"
  using demo_session_ok by (simp add: world_ok_def demo_world_def table_ok_def demo_session_def Second_def)

definition active_world :: world where
  "active_world = setSession 0
     ((demo_session 7)\<lparr>UDPActivated := True, ReplyTo := Some demo_peer, ReplyWith := Some 1\<rparr>) demo_world"

lemma active_world_session:
  "sessionMap active_world 7 = Some 0" "UDPActivated (heap active_world ! 0)"
  by (simp_all add: active_world_def demo_world_def)

lemma active_world_clock: "timeNowCorrected demo_env unixEpoch (clock active_world) =
    Inr (unixEpoch + 1, \<lparr>timeOffset = 1, lastSync = unixEpoch\<rparr>)"
  using demo_clock by (simp add: active_world_def)

lemma active_world_ok: "world_ok active_world"
  unfolding active_world_def
proof (rule world_ok_setSession [OF demo_world_ok])
  show "sessionMap demo_world 7 = Some 0" by (simp add: demo_world_def)
qed (use demo_session_ok [of 7] in \<open>simp_all add: session_ok_def ring_ok_def demo_session_def\<close>)

theorem handlePacket_world_ok_witness:
  "world_ok demo_world \<and>
   no_panic (handlePacket (demo_codec (Some zero_pingStruct) None) demo_env unixEpoch True [1, 2, 3] demo_peer 1 demo_world)"
  using handlePacket_world_ok [OF demo_world_ok] demo_world_ok by (simp add: demo_world_def)

text \<open>
  C18. A packet that is not accepted (not decodable, wrong magic or version, unknown type or
  session, a ping before the UDP handshake, a handshake after it) changes nothing but possibly the
  cached clock offset: no session, no table entry, and nothing is sent in reply.
\<close>

theorem handlePacket_rejected_unchanged:
  assumes "handlePacket cd env now waiting buf ua c w = Inr (out, w')"
    and "\<And>a. out \<noteq> PingRecorded a" and "\<And>a b. out \<noteq> HandshakeAccepted a b"
  shows "heap w' = heap w \<and> sessionMap w' = sessionMap w \<and> wire w' = wire w \<and>
    globalReplyWith w' = globalReplyWith w"
  using assms(1)
proof (cases rule: handlePacket_cases)
  case (rejected t ck)
  then show ?thesis by simp
next
  case (handshake t ck rx)
  from handshake(5) assms(2,3) show ?thesis by (cases rule: handleInboundHandshake_cases) auto
next
  case (ping t ck rx)
  with assms(2) show ?thesis
    by (auto simp: handlePing_def Let_def bind_go_Inr_iff split: option.splits if_split_asm)
qed

theorem handlePacket_rejected_unchanged_witness:
  "\<exists>w'. handlePacket (demo_codec None None) demo_env unixEpoch True [1, 2, 3] demo_peer 1 demo_world = Inr (ParseFailed, w')
     \<and> heap w' = heap demo_world"
proof -
  have run: "handlePacket (demo_codec None None) demo_env unixEpoch True [1, 2, 3] demo_peer 1 demo_world =
      Inr (ParseFailed, demo_world\<lparr>clock := \<lparr>timeOffset = 1, lastSync = unixEpoch\<rparr>\<rparr>)"
    by (simp add: handlePacket_def demo_clock demo_codec_def)
  from handlePacket_rejected_unchanged [OF run] run show ?thesis by simp
qed

text \<open>The session after a recorded ping.\<close>

definition pinged :: "Time \<Rightarrow> pingStruct \<Rightarrow> UDPAddr \<Rightarrow> conn \<Rightarrow> session \<Rightarrow> session" where
  "pinged t rx ua c s =
     (projr (recordAck \<lparr>pi_ID = ps_ID rx, pi_TX = ps_TXTime rx, pi_RX = t\<rparr> s))
       \<lparr>ReplyWith := Some c, ReplyTo := Some ua, LastRX := t, LastRXPing := rx\<rparr>"

lemma pinged_simps:
  assumes "session_ok s"
  shows "ackHistory (pinged t rx ua c s) =
      tl (ackHistory s) @ [\<lparr>pi_ID = ps_ID rx, pi_TX = ps_TXTime rx, pi_RX = t\<rparr>]"
    "LastRX (pinged t rx ua c s) = t" "LastRXPing (pinged t rx ua c s) = rx"
    "ReplyTo (pinged t rx ua c s) = Some ua" "ReplyWith (pinged t rx ua c s) = Some c"
proof -
  let ?p = "\<lparr>pi_ID = ps_ID rx, pi_TX = ps_TXTime rx, pi_RX = t\<rparr>"
  have "ackHistory (pinged t rx ua c s) = ackHistory (projr (recordAck ?p s))"
    by (simp add: pinged_def ackHistory_def)
  then show "ackHistory (pinged t rx ua c s) = tl (ackHistory s) @ [?p]"
    using assms ackHistory_recordAck [of s ?p] by (simp add: session_ok_def)
qed (simp_all add: pinged_def)

lemma handlePacket_ping_run:
  assumes "world_ok w" and "timeNowCorrected env now (clock w) = Inr (t, ck)"
    and "unmarshalPing cd buf = Some rx" and "ps_Magic rx = 11181" and "ps_Type rx = 116"
    and "sessionMap w (ps_Session rx) = Some a" and "UDPActivated (heap w ! a)"
  shows "handlePacket cd env now waiting buf ua c w =
    Inr (PingRecorded a, setSession a (pinged t rx ua c (heap w ! a)) (w\<lparr>clock := ck\<rparr>))"
proof -
  have "ring_ok (heap w ! a)" using world_ok_session [OF assms(1,6)] by (simp add: session_ok_def)
  then show ?thesis
    using assms by (simp add: handlePacket_def handlePing_def Let_def recordAck_Inr pinged_def)
qed

text \<open>
  C17. A ping for an activated session is always accepted; it becomes the newest entry of that
  session's ring with the sender's time stamp and the corrected arrival time, replies go to where it
  came from, and no other session changes.
\<close>

theorem handlePacket_ping:
  assumes "world_ok w" and "timeNowCorrected env now (clock w) = Inr (t, ck)"
    and "unmarshalPing cd buf = Some rx" and "ps_Magic rx = 11181" and "ps_Type rx = 116"
    and "sessionMap w (ps_Session rx) = Some a" and "UDPActivated (heap w ! a)"
  shows "\<exists>w' s'. handlePacket cd env now waiting buf ua c w = Inr (PingRecorded a, w') \<and>
    sessionOf w' (ps_Session rx) = Some s' \<and>
    ackHistory s' = tl (ackHistory (heap w ! a)) @ [\<lparr>pi_ID = ps_ID rx, pi_TX = ps_TXTime rx, pi_RX = t\<rparr>] \<and>
    LastRX s' = t \<and> LastRXPing s' = rx \<and> ReplyTo s' = Some ua \<and> ReplyWith s' = Some c \<and>
    (\<forall>sid. sid \<noteq> ps_Session rx \<longrightarrow> sessionOf w' sid = sessionOf w sid) \<and> wire w' = wire w"
proof -
  let ?s' = "pinged t rx ua c (heap w ! a)"
  let ?w' = "setSession a ?s' (w\<lparr>clock := ck\<rparr>)"
  have tab: "table_ok (w\<lparr>clock := ck\<rparr>)" using assms(1) by (simp add: world_ok_def)
  have ok: "session_ok (heap w ! a)" using world_ok_session [OF assms(1,6)] .
  have look: "sessionOf ?w' sid = (if sid = ps_Session rx then Some ?s' else sessionOf w sid)" for sid
    using sessions.look_upd [OF tab, of "ps_Session rx" a ?s' sid] assms(6) by simp
  show ?thesis using handlePacket_ping_run [OF assms] look pinged_simps [OF ok]
    by (intro exI [of _ ?w'] exI [of _ ?s']) simp
qed

theorem handlePacket_ping_witness:
  "\<exists>w' s'. handlePacket (demo_codec (Some (zero_pingStruct\<lparr>ps_Magic := 11181, ps_Type := 116, ps_Session := 7, ps_ID := 5\<rparr>)) None)
       demo_env unixEpoch True [0] demo_peer 1 active_world
       = Inr (PingRecorded 0, w') \<and> sessionOf w' 7 = Some s' \<and> LastRX s' = unixEpoch + 1"
proof -
  let ?rx = "zero_pingStruct\<lparr>ps_Magic := 11181, ps_Type := 116, ps_Session := 7, ps_ID := 5\<rparr>"
  have "unmarshalPing (demo_codec (Some ?rx) None) [0] = Some ?rx" by (simp add: demo_codec_def)
  from handlePacket_ping [OF active_world_ok active_world_clock this, of 0 True demo_peer 1]
  show ?thesis by (auto simp: active_world_session)
qed

text \<open>The session after an accepted handshake.\<close>

definition handshaken :: "UDPAddr \<Rightarrow> conn \<Rightarrow> session \<Rightarrow> session" where
  "handshaken ua g s = s\<lparr>ReplyTo := Some ua, ReplyWith := Some g, UDPActivated := True,
     PeerAddress := (case PeerAddress s of None \<Rightarrow> ua_IP ua | Some ip \<Rightarrow> Some ip)\<rparr>"

lemma handleInboundHandshake_run:
  assumes "session_ok (heap w ! a)" and "unmarshalHandshake cd buf = Some rx" and "hs_Magic rx = 11181" and "hs_Version rx = 3"
    and "sessionMap w (hs_Session rx) = Some a" and "\<not> UDPActivated (heap w ! a)" and "globalReplyWith w = Some g"
  shows "handleInboundHandshake cd waiting buf ua c w =
    Inr (HandshakeAccepted a waiting, writeTo g buf ua (setSession a (handshaken ua g (heap w ! a)) w))"
  using assms by (simp add: handleInboundHandshake_def Let_def session_ok_def trySend_def handshaken_def)

text \<open>
  The first handshake packet for a session activates it, is echoed back unchanged exactly
  once, and fixes the reply address; any later handshake for that session is refused without an
  answer, so two peers never bounce a handshake forever.
\<close>

theorem handshake_echoed_once:
  assumes "world_ok w" and "unmarshalHandshake cd buf = Some rx" and "hs_Magic rx = 11181" and "hs_Version rx = 3"
    and "sessionMap w (hs_Session rx) = Some a" and "\<not> UDPActivated (heap w ! a)" and "globalReplyWith w = Some g"
  shows "\<exists>w'. handleInboundHandshake cd waiting buf ua c w = Inr (HandshakeAccepted a waiting, w') \<and>
    wire w' = wire w @ [(g, buf, ua)] \<and>
    UDPActivated (heap w' ! a) \<and> ReplyTo (heap w' ! a) = Some ua \<and> ReplyWith (heap w' ! a) = Some g \<and>
    (\<forall>cd' waiting' buf' ua' c' rx'. unmarshalHandshake cd' buf' = Some rx' \<and> hs_Session rx' = hs_Session rx \<longrightarrow>
       (\<exists>out. handleInboundHandshake cd' waiting' buf' ua' c' w' = Inr (out, w')))"
proof -
  have ok: "session_ok (heap w ! a)" using world_ok_session [OF assms(1,5)] .
  have a: "a < length (heap w)" using assms(1,5) by (simp add: world_ok_def table_okD)
  let ?s' = "handshaken ua g (heap w ! a)"
  let ?w' = "writeTo g buf ua (setSession a ?s' w)"
  have run: "handleInboundHandshake cd waiting buf ua c w = Inr (HandshakeAccepted a waiting, ?w')"
    by (rule handleInboundHandshake_run [OF ok assms(2-7)])
  have act: "UDPActivated ?s'" "TCPActivated ?s'" "ReplyTo ?s' = Some ua" "ReplyWith ?s' = Some g"
    using ok by (simp_all add: session_ok_def handshaken_def)
  have "\<exists>out. handleInboundHandshake cd' waiting' buf' ua' c' ?w' = Inr (out, ?w')"
    if "unmarshalHandshake cd' buf' = Some rx'" "hs_Session rx' = hs_Session rx" for cd' waiting' buf' ua' c' rx'
    using that a act assms(5) by (simp add: handleInboundHandshake_def Let_def)
  with run a act show ?thesis by (intro exI [of _ ?w']) simp
qed

theorem handshake_echoed_once_witness:
  "\<exists>w'. handleInboundHandshake (demo_codec None (Some \<lparr>hs_Type = 104, hs_Magic = 11181, hs_Version = 3, hs_Session = 7\<rparr>))
     True [9] demo_peer 1 demo_world = Inr (HandshakeAccepted 0 True, w') \<and> wire w' = [(1, [9], demo_peer)]"
proof -
  let ?rx = "\<lparr>hs_Type = 104, hs_Magic = 11181, hs_Version = 3, hs_Session = 7\<rparr>"
  have rx: "unmarshalHandshake (demo_codec None (Some ?rx)) [9] = Some ?rx" by (simp add: demo_codec_def)
  from handshake_echoed_once [OF demo_world_ok rx, of 0 1 True demo_peer 1] show ?thesis
    by (auto simp: demo_world_def demo_session_def zero_session_def)
qed

end
