(* ===== verification/Sping_Handshake.thy ===== *)
theory Sping_Handshake
  imports Sping_Packet
begin

text \<open>
  Session establishment (\<open>sessionhandle.go\<close>) and the sender loop of \<open>main.go\<close>: the TCP invitation on
  both sides, the UDP handshake goroutines, and one turn of \<open>sendPackets\<close>. What a connection
  delivers (dial and write results, bytes read) and what the clock shows are arguments. Printing and
  parsing of the session id (\<open>fmt.Sprint\<close>, \<open>strconv.ParseUint\<close>) are modelled.
\<close>

section \<open>Decimal session ids\<close>

definition ascii :: "string \<Rightarrow> bytes" where
  "ascii s = map of_char s"

fun decimal :: "nat \<Rightarrow> bytes" where
  "decimal n = (if n < 10 then [word_of_nat (48 + n)]
                else decimal (n div 10) @ [word_of_nat (48 + n mod 10)])"

declare decimal.simps [simp del]

fun parseUint_loop :: "nat \<Rightarrow> bytes \<Rightarrow> nat option" where
  "parseUint_loop n [] = Some n"
| "parseUint_loop n (c # cs) =
     (if c < 48 \<or> 57 < c then None
      else let n1 = n * 10 + unat (c - 48)
           in if 2 ^ 32 \<le> n1 then None else parseUint_loop n1 cs)"

definition ParseUint :: "bytes \<Rightarrow> nat option" where
  "ParseUint s = (if s = [] then None else parseUint_loop 0 s)"

section \<open>The TCP invitation\<close>

definition banner :: bytes where
  "banner = ascii ''sping-0.3-https://github.com/benjojo/sping'' @ [10]"

definition inviteRequest :: bytes where
  "inviteRequest = ascii ''INVITE'' @ [13, 10]"

datatype tcp_outcome = TcpWriteFailed | TcpTooBig | TcpNotUnderstood | TcpInvited u32 nat

definition invitedSession :: "u32 \<Rightarrow> Time \<Rightarrow> session" where
  "invitedSession nSes now = zero_session\<lparr>SessionID := nSes, MadeByMe := False, TCPActivated := True,
     SessionMade := now, UDPHandshake := Some 0\<rparr>"

text \<open>
  \<open>wok\<close> tells whether the banner could be written, \<open>rd\<close> is what the single \<open>Read\<close> returns,
  \<open>nSes\<close> the random session id; the result lists the bytes written to the connection.
\<close>

definition handleTCPconnection ::
  "bool \<Rightarrow> bytes \<Rightarrow> u32 \<Rightarrow> Time \<Rightarrow> world \<Rightarrow> tcp_outcome \<times> bytes list \<times> world" where
  "handleTCPconnection wok rd nSes now w =
     (if \<not> wok then (TcpWriteFailed, [], w)
      else let buf = take 10000 rd in
        if length buf > 9000 then (TcpTooBig, [banner], w)
        else if buf \<noteq> inviteRequest then (TcpNotUnderstood, [banner, ascii ''I_DONT_UNDERSTAND''], w)
        else (TcpInvited nSes (length (heap w)), [banner, decimal (unat nSes)],
              putSession nSes (invitedSession nSes now) w))"

text \<open>
  The random session id: four bytes in network order; when the random source fails the variable keeps
  its zero. The accept loop starts a handler for each connection and goes on after a failure.
\<close>

definition newSessionID :: "(byte \<times> byte \<times> byte \<times> byte) option \<Rightarrow> u32" where
  "newSessionID rnd = (case rnd of None \<Rightarrow> 0 | Some (b0, b1, b2, b3) \<Rightarrow> uint32_of b0 b1 b2 b3)"

lemma newSessionID_onto: "\<exists>rnd. newSessionID (Some rnd) = n"
  by (intro exI [of _ "(ucast (drop_bit 24 n), ucast (drop_bit 16 n), ucast (drop_bit 8 n), ucast n)"])
    (simp add: newSessionID_def)

datatype accept_result = AcceptFailed | Accepted bool bytes "(byte \<times> byte \<times> byte \<times> byte) option" Time

definition listenOnTCP_turn :: "accept_result \<Rightarrow> world \<Rightarrow> tcp_outcome option \<times> bytes list \<times> world" where
  "listenOnTCP_turn acc w =
     (case acc of
        AcceptFailed \<Rightarrow> (None, [], w)
      | Accepted wok rd rnd now \<Rightarrow>
          let (out, ws, w') = handleTCPconnection wok rd (newSessionID rnd) now w in (Some out, ws, w'))"

datatype start_outcome =
    DialFailed | BannerTooBig | BannerNotSping | InviteWriteFailed | InviteWrongSize | InviteBad
  | SessionStarted u32 nat

definition startedSession :: "IP \<Rightarrow> u32 \<Rightarrow> Time \<Rightarrow> session" where
  "startedSession ip invite now = zero_session\<lparr>PeerAddress := ip, SessionID := invite, TCPActivated := True,
     MadeByMe := True, SessionMade := now, UDPHandshake := Some 0\<rparr>"

text \<open>One attempt of \<open>startSession\<close>, from the dial to the new table entry.\<close>

definition startSession_attempt ::
  "IP \<Rightarrow> bool \<Rightarrow> bytes \<Rightarrow> bool \<Rightarrow> bytes \<Rightarrow> Time \<Rightarrow> world \<Rightarrow> start_outcome \<times> bytes list \<times> world" where
  "startSession_attempt ip dialok bannerRd wok inviteRd now w =
     (if \<not> dialok then (DialFailed, [], w)
      else let bannerBuf = take 10000 bannerRd in
        if length bannerBuf > 9000 then (BannerTooBig, [], w)
        else if \<not> (take 10 bannerBuf = ascii ''sping-0.3-'') then (BannerNotSping, [], w)
        else if \<not> wok then (InviteWriteFailed, [], w)
        else let inviteBuf = take 10 inviteRd in
          if length inviteBuf > 31 \<or> length inviteBuf = 0 then (InviteWrongSize, [inviteRequest], w)
          else case ParseUint inviteBuf of
                 None \<Rightarrow> (InviteBad, [inviteRequest], w)
               | Some n \<Rightarrow>
                   let invite = word_of_nat n in
                   (SessionStarted invite (length (heap w)), [inviteRequest],
                    putSession invite (startedSession ip invite now) w))"

text \<open>The monitor loop polls the table and lets \<open>startSession\<close> begin again once the session is gone.\<close>

definition startSession_monitor :: "u32 \<Rightarrow> world \<Rightarrow> bool" where
  "startSession_monitor invite w = (sessionMap w invite \<noteq> None)"

section \<open>The UDP handshake goroutines\<close>

definition sendUDPHandshake_init :: "nat \<Rightarrow> world \<Rightarrow> (sping_exit, world) go" where
  "sendUDPHandshake_init a w =
     (case globalReplyWith w of
        None \<Rightarrow> Inl (Panic NilDereference)
      | Some g \<Rightarrow> Inr (setSession a ((heap w ! a)\<lparr>ReplyWith := Some g\<rparr>) w))"

text \<open>A tick of the initiator; the result tells whether the goroutine goes on.\<close>

definition sendUDPHandshake_tick :: "codec \<Rightarrow> Time \<Rightarrow> nat \<Rightarrow> world \<Rightarrow> (sping_exit, bool \<times> world) go" where
  "sendUDPHandshake_tick cd now a w =
     (let s = heap w ! a in
      if time_Since now (SessionMade s) > Minute \<and> \<not> UDPActivated s then Inr (False, w)
      else
        let hs = \<lparr>hs_Type = 104, hs_Magic = 11181, hs_Version = 3, hs_Session = SessionID s\<rparr> in
        case marshalHandshake cd hs of
          None \<Rightarrow> Inl (Error FatalMarshal)
        | Some b \<Rightarrow>
            (case ReplyWith s of
               None \<Rightarrow> Inl (Panic NilDereference)
             | Some c \<Rightarrow> Inr (True, writeTo c b \<lparr>ua_IP = PeerAddress s, ua_Port = 6924\<rparr> w)))"

definition waitForHandshake_tick :: "Time \<Rightarrow> nat \<Rightarrow> world \<Rightarrow> bool" where
  "waitForHandshake_tick now a w =
     (let s = heap w ! a in \<not> (time_Since now (SessionMade s) > Minute \<and> \<not> UDPActivated s))"

text \<open>What both goroutines do when the notification arrives, before they start \<open>sendPackets\<close>.\<close>

definition handshakeNotified :: "nat \<Rightarrow> world \<Rightarrow> world" where
  "handshakeNotified a w = setSession a ((heap w ! a)\<lparr>UDPActivated := True\<rparr>) w"

section \<open>The sender loop\<close>

text \<open>
  One turn of \<open>sendPackets\<close> after the sleep. The readings are those of the two \<open>time.Since\<close>, of the
  id and of the time stamp, in this order.
\<close>

definition sendPackets_turn ::
  "codec \<Rightarrow> clock_env \<Rightarrow> Time \<Rightarrow> Time \<times> Time \<times> Time \<times> Time \<Rightarrow> nat \<Rightarrow> world \<Rightarrow> (sping_exit, bool \<times> world) go" where
  "sendPackets_turn cd env timeStarted rds a w =
     (let (nowRX, nowSt, nowID, nowTX) = rds; s = heap w ! a in
      if time_Since nowRX (LastRX s) > Second * 60 \<and> time_Since nowSt timeStarted > Second * 10
      then Inr (False, w)
      else
        let s1 = s\<lparr>CurrentID := pingID nowID\<rparr>; w1 = setSession a s1 w in
        bind_go (timeNowCorrected env nowTX (clock w1)) (\<lambda>(t, ck).
          let w2 = w1\<lparr>clock := ck\<rparr>;
              packet = \<lparr>ps_Type = 116, ps_Magic = 11181, ps_Session = SessionID s1, ps_ID = CurrentID s1,
                        ps_TXTime = t, ps_SendersError = 0, ps_LastAcks = LastAcks s1\<rparr>
          in case marshalPing cd packet of
               None \<Rightarrow> Inl (Error FatalMarshal)
             | Some b \<Rightarrow>
                 (case ReplyTo s1 of
                    None \<Rightarrow> Inr (True, w2)
                  | Some ua \<Rightarrow>
                      (case ReplyWith s1 of
                         None \<Rightarrow> Inl (Panic NilDereference)
                       | Some c \<Rightarrow> Inr (True, writeTo c b ua w2)))))"

section \<open>Session ids survive the trip\<close>

lemma unat_digit: "n < 10 \<Longrightarrow> unat (word_of_nat (48 + n) :: byte) = 48 + n"
  by (simp only: unat_of_nat) simp

lemma digit_checks:
  assumes "n < 10"
  shows "\<not> (word_of_nat (48 + n) < (48 :: byte))" "\<not> (57 < (word_of_nat (48 + n) :: byte))"
    "unat ((word_of_nat (48 + n) :: byte) - 48) = n"
proof -
  show "\<not> (word_of_nat (48 + n) < (48 :: byte))" "\<not> (57 < (word_of_nat (48 + n) :: byte))"
    using unat_digit [OF assms] assms by (simp_all add: word_less_nat_alt)
  have "(word_of_nat (48 + n) :: byte) - 48 = word_of_nat n" by simp
  then show "unat ((word_of_nat (48 + n) :: byte) - 48) = n"
    using assms by (simp add: unat_of_nat)
qed

lemma parseUint_loop_append:
  "parseUint_loop n (xs @ ys) = Option.bind (parseUint_loop n xs) (\<lambda>m. parseUint_loop m ys)"
  by (induction n xs rule: parseUint_loop.induct) (auto simp: Let_def)

lemma parseUint_decimal: "n < 2 ^ 32 \<Longrightarrow> parseUint_loop 0 (decimal n) = Some n"
proof (induction n rule: less_induct)
  case (less n)
  show ?case
  proof (cases "n < 10")
    case True
    then show ?thesis using digit_checks [OF True] by (subst decimal.simps) simp
  next
    case False
    then have "parseUint_loop 0 (decimal (n div 10)) = Some (n div 10)"
      using less by (intro less.IH) auto
    moreover have "n mod 10 < 10" by simp
    ultimately show ?thesis using False less.prems digit_checks [of "n mod 10"]
      by (subst decimal.simps) (simp add: parseUint_loop_append)
  qed
qed

lemma decimal_nonempty [simp]: "decimal n \<noteq> []"
  by (subst decimal.simps) simp

lemma length_decimal: "n < 10 ^ k \<Longrightarrow> 0 < k \<Longrightarrow> length (decimal n) \<le> k"
proof (induction k arbitrary: n)
  case 0
  then show ?case by simp
next
  case (Suc k)
  show ?case
  proof (cases "n < 10")
    case True
    then show ?thesis by (subst decimal.simps) simp
  next
    case False
    with Suc.prems have "0 < k" by (cases k) auto
    moreover have "n div 10 < 10 ^ k" using Suc.prems by (simp add: less_mult_imp_div_less mult.commute)
    ultimately show ?thesis using Suc.IH [of "n div 10"] False by (subst decimal.simps) simp
  qed
qed

lemma ParseUint_decimal_word: "ParseUint (take 10 (decimal (unat (n :: u32)))) = Some (unat n)"
proof -
  have n: "unat n < 2 ^ 32" by (rule order_less_le_trans [OF unsigned_less]) simp
  then have "length (decimal (unat n)) \<le> 10" by (intro length_decimal) simp_all
  then show ?thesis using parseUint_decimal [OF n] by (simp add: ParseUint_def)
qed

text \<open>
  C16. The TCP invitation establishes the same session on both sides: when the initiator reads what
  the responder wrote and the other way round, the responder issues its random id, the initiator
  parses exactly that id out of a ten byte read, and both tables then hold a session under it
  that came out of the TCP handshake, is not yet UDP-activated, and is marked as made by the
  initiator.
\<close>

theorem invitation_agreement:
  assumes "world_ok wi" and "world_ok wr"
  shows "\<exists>wi' wr' si sr.
    handleTCPconnection True inviteRequest nSes nowR wr =
      (TcpInvited nSes (length (heap wr)), [banner, decimal (unat nSes)], wr') \<and>
    startSession_attempt ip True banner True (decimal (unat nSes)) nowI wi =
      (SessionStarted nSes (length (heap wi)), [inviteRequest], wi') \<and>
    world_ok wi' \<and> world_ok wr' \<and>
    sessionOf wi' nSes = Some si \<and> sessionOf wr' nSes = Some sr \<and>
    TCPActivated si \<and> TCPActivated sr \<and> \<not> UDPActivated si \<and> \<not> UDPActivated sr \<and>
    MadeByMe si \<and> \<not> MadeByMe sr \<and> SessionID si = nSes \<and> SessionID sr = nSes \<and> PeerAddress si = ip"
proof -
  let ?si = "startedSession ip nSes nowI" and ?sr = "invitedSession nSes nowR"
  let ?wi' = "putSession nSes ?si wi" and ?wr' = "putSession nSes ?sr wr"
  have si: "session_ok ?si" "SessionID ?si = nSes"
    by (simp_all add: startedSession_def session_ok_def ring_ok_def zero_session_def)
  have sr: "session_ok ?sr" "SessionID ?sr = nSes"
    by (simp_all add: invitedSession_def session_ok_def ring_ok_def zero_session_def)
  have "handleTCPconnection True inviteRequest nSes nowR wr =
      (TcpInvited nSes (length (heap wr)), [banner, decimal (unat nSes)], ?wr')"
    by (simp add: handleTCPconnection_def inviteRequest_def ascii_def)
  moreover have "startSession_attempt ip True banner True (decimal (unat nSes)) nowI wi =
      (SessionStarted nSes (length (heap wi)), [inviteRequest], ?wi')"
    using ParseUint_decimal_word [of nSes]
    by (simp add: startSession_attempt_def banner_def ascii_def Let_def)
  moreover have "sessionOf ?wi' nSes = Some ?si" "sessionOf ?wr' nSes = Some ?sr"
    using assms sessions.look_put by (simp_all add: world_ok_def)
  ultimately show ?thesis
    using world_ok_putSession [OF assms(1) si] world_ok_putSession [OF assms(2) sr] si sr
    by (intro exI [of _ ?wi'] exI [of _ ?wr'] exI [of _ ?si] exI [of _ ?sr])
      (simp add: startedSession_def invitedSession_def zero_session_def)
qed

theorem invitation_agreement_witness:
  "\<exists>wi' wr'. handleTCPconnection True inviteRequest 4294967295 unixEpoch demo_world =
      (TcpInvited 4294967295 1, [banner, decimal 4294967295], wr') \<and>
    startSession_attempt (Some [10, 0, 0, 1]) True banner True (decimal 4294967295) unixEpoch demo_world =
      (SessionStarted 4294967295 1, [inviteRequest], wi') \<and> world_ok wi' \<and> world_ok wr'"
proof -
  have "length (heap demo_world) = 1" "unat (4294967295 :: u32) = 4294967295"
    by (simp_all add: demo_world_def)
  then show ?thesis
    using invitation_agreement [OF demo_world_ok demo_world_ok, of 4294967295 unixEpoch "Some [10, 0, 0, 1]" unixEpoch]
    by auto
qed

lemma ParseUint_word:
  assumes "ParseUint b = Some n"
  shows "unat (word_of_nat n :: u32) = n"
proof -
  have "parseUint_loop m b' = Some n \<Longrightarrow> m < 2 ^ 32 \<Longrightarrow> n < 2 ^ 32" for m b'
    by (induction m b' rule: parseUint_loop.induct) (auto simp: Let_def split: if_splits)
  from this [of 0 b] assms have "n < 2 ^ 32" by (auto simp: ParseUint_def split: if_splits)
  then show ?thesis by (simp add: unat_of_nat)
qed

text \<open>The state in which exactly one session has been added, under the given id.\<close>

definition session_added :: "u32 \<Rightarrow> session \<Rightarrow> world \<Rightarrow> world \<Rightarrow> bool" where
  "session_added sid s w w' \<longleftrightarrow> heap w' = heap w @ [s] \<and> sessionMap w' sid = Some (length (heap w)) \<and>
     sessionOf w' = (sessionOf w)(sid \<mapsto> s) \<and> wire w' = wire w \<and> clock w' = clock w \<and> globalReplyWith w' = globalReplyWith w"

lemma session_added_put: "world_ok w \<Longrightarrow> session_added sid s w (putSession sid s w)"
  using sessions.look_put [of w] by (auto simp: session_added_def world_ok_def putSession_def fun_eq_iff)

text \<open>
  C37. Exactly which TCP exchanges create a session. The accepting side answers with an invitation if and only if its banner
  could be written and the peer sent exactly the request; the starting side begins a session if and only if the dial and the write
  succeed, the banner is not too long and has the right prefix, and the first ten bytes of the invitation are a number of 32 bits. In these
  cases exactly one session, with that id, is appended and entered in the table (over an entry of the same id); in all other cases
  the state is unchanged.
\<close>

theorem tcp_exchange_effect:
  assumes "world_ok w"
  shows "(case handleTCPconnection wok rd nSes now w of (out, ws, w') \<Rightarrow> world_ok w' \<and>
      (if wok \<and> rd = inviteRequest
       then out = TcpInvited nSes (length (heap w)) \<and> ws = [banner, decimal (unat nSes)] \<and>
         session_added nSes (invitedSession nSes now) w w'
       else (\<forall>sid a. out \<noteq> TcpInvited sid a) \<and> w' = w)) \<and>
    (case startSession_attempt ip dialok brd wok' ird now w of (out, ws, w') \<Rightarrow> world_ok w' \<and>
      (if dialok \<and> length brd \<le> 9000 \<and> take 10 brd = ascii ''sping-0.3-'' \<and> wok' \<and> ParseUint (take 10 ird) \<noteq> None
       then \<exists>sid. ParseUint (take 10 ird) = Some (unat sid) \<and> out = SessionStarted sid (length (heap w)) \<and>
         ws = [inviteRequest] \<and> session_added sid (startedSession ip sid now) w w'
       else (\<forall>sid a. out \<noteq> SessionStarted sid a) \<and> w' = w))"
proof
  have ok: "world_ok (putSession sid (startedSession ip sid now) w)"
    "world_ok (putSession sid (invitedSession sid now) w)" for sid
    by (intro world_ok_putSession [OF assms];
        simp add: startedSession_def invitedSession_def session_ok_def ring_ok_def zero_session_def)+
  have cut: "9000 < length (take 10000 xs) \<longleftrightarrow> 9000 < length xs" "\<not> 9000 < length xs \<Longrightarrow> take 10000 xs = xs" for xs :: bytes
    by auto
  have "\<not> 9000 < length inviteRequest" by (simp add: inviteRequest_def ascii_def)
  then show "case handleTCPconnection wok rd nSes now w of (out, ws, w') \<Rightarrow> world_ok w' \<and>
      (if wok \<and> rd = inviteRequest
       then out = TcpInvited nSes (length (heap w)) \<and> ws = [banner, decimal (unat nSes)] \<and>
         session_added nSes (invitedSession nSes now) w w'
       else (\<forall>sid a. out \<noteq> TcpInvited sid a) \<and> w' = w)"
    using assms ok(2) session_added_put [OF assms] by (auto simp: handleTCPconnection_def Let_def cut)
  have empty: "ParseUint [] = None" by (simp add: ParseUint_def)
  show "case startSession_attempt ip dialok brd wok' ird now w of (out, ws, w') \<Rightarrow> world_ok w' \<and>
      (if dialok \<and> length brd \<le> 9000 \<and> take 10 brd = ascii ''sping-0.3-'' \<and> wok' \<and> ParseUint (take 10 ird) \<noteq> None
       then \<exists>sid. ParseUint (take 10 ird) = Some (unat sid) \<and> out = SessionStarted sid (length (heap w)) \<and>
         ws = [inviteRequest] \<and> session_added sid (startedSession ip sid now) w w'
       else (\<forall>sid a. out \<noteq> SessionStarted sid a) \<and> w' = w)"
  proof (cases "ParseUint (take 10 ird)")
    case None
    with assms show ?thesis by (auto simp: startSession_attempt_def Let_def cut)
  next
    case (Some n)
    then have "ird \<noteq> []" "unat (word_of_nat n :: u32) = n" using empty ParseUint_word [OF Some] by auto
    with Some assms ok(1) session_added_put [OF assms] show ?thesis
      by (auto simp: startSession_attempt_def Let_def cut)
  qed
qed

theorem tcp_exchange_effect_witness:
  "session_added 9 (invitedSession 9 unixEpoch) demo_world
     (snd (snd (handleTCPconnection True inviteRequest 9 unixEpoch demo_world))) \<and>
   snd (snd (handleTCPconnection True [1, 2, 3] 9 unixEpoch demo_world)) = demo_world"
proof -
  have "[1, 2, 3] \<noteq> inviteRequest" by (simp add: inviteRequest_def ascii_def)
  with tcp_exchange_effect [OF demo_world_ok, of True "[1, 2, 3]" 9 unixEpoch False "[]" False "[]" None]
  have "snd (snd (handleTCPconnection True [1, 2, 3] 9 unixEpoch demo_world)) = demo_world" by (auto split: prod.splits)
  moreover have "session_added 9 (invitedSession 9 unixEpoch) demo_world (snd (snd (handleTCPconnection True inviteRequest 9 unixEpoch demo_world)))"
    using tcp_exchange_effect [OF demo_world_ok, of True inviteRequest 9 unixEpoch False "[]" False "[]" None] by (auto split: prod.splits)
  ultimately show ?thesis by blast
qed

section \<open>Sending pings\<close>

definition outgoingPing :: "Time \<Rightarrow> Time \<Rightarrow> session \<Rightarrow> pingStruct" where
  "outgoingPing nowID t s = \<lparr>ps_Type = 116, ps_Magic = 11181, ps_Session = SessionID s, ps_ID = pingID nowID,
     ps_TXTime = t, ps_SendersError = 0, ps_LastAcks = LastAcks s\<rparr>"

definition senderIdle :: "Time \<Rightarrow> Time \<Rightarrow> Time \<Rightarrow> session \<Rightarrow> bool" where
  "senderIdle timeStarted nowRX nowSt s \<longleftrightarrow>
     time_Since nowRX (LastRX s) > Second * 60 \<and> time_Since nowSt timeStarted > Second * 10"

lemma sendPackets_turn_idle:
  "senderIdle timeStarted nowRX nowSt (heap w ! a) \<Longrightarrow>
   sendPackets_turn cd env timeStarted (nowRX, nowSt, nowID, nowTX) a w = Inr (False, w)"
  by (simp add: sendPackets_turn_def senderIdle_def Let_def)

lemma sendPackets_turn_sends:
  assumes "session_ok (heap w ! a)" and "UDPActivated (heap w ! a)"
    and "\<not> senderIdle timeStarted nowRX nowSt (heap w ! a)"
    and "timeNowCorrected env nowTX (clock w) = Inr (t, ck)"
    and "marshalPing cd (outgoingPing nowID t (heap w ! a)) = Some b"
  shows "\<exists>c ua. ReplyWith (heap w ! a) = Some c \<and> ReplyTo (heap w ! a) = Some ua \<and>
    sendPackets_turn cd env timeStarted (nowRX, nowSt, nowID, nowTX) a w =
      Inr (True, writeTo c b ua ((setSession a ((heap w ! a)\<lparr>CurrentID := pingID nowID\<rparr>) w)\<lparr>clock := ck\<rparr>))"
proof -
  obtain c ua where "ReplyWith (heap w ! a) = Some c" "ReplyTo (heap w ! a) = Some ua"
    using assms(1,2) by (auto simp: session_ok_def)
  with assms(3-5) show ?thesis
    by (simp add: sendPackets_turn_def Let_def outgoingPing_def flip: senderIdle_def)
qed

lemma ping_trip:
  assumes "world_ok wa" and "sessionMap wa sid = Some a" and "UDPActivated (heap wa ! a)"
    and "\<not> senderIdle timeStarted nowRX nowSt (heap wa ! a)"
    and "timeNowCorrected envA nowTX (clock wa) = Inr (t, cka)"
    and "marshalPing cd (outgoingPing nowID t (heap wa ! a)) = Some b"
    and "unmarshalPing cd b = Some (outgoingPing nowID t (heap wa ! a))"
    and "world_ok wb" and "sessionMap wb sid = Some p" and "UDPActivated (heap wb ! p)"
    and "timeNowCorrected envB nowB (clock wb) = Inr (tb, ckb)"
  shows "\<exists>c ua. ReplyTo (heap wa ! a) = Some ua \<and>
    sendPackets_turn cd envA timeStarted (nowRX, nowSt, nowID, nowTX) a wa =
      Inr (True, writeTo c b ua ((setSession a ((heap wa ! a)\<lparr>CurrentID := pingID nowID\<rparr>) wa)\<lparr>clock := cka\<rparr>)) \<and>
    handlePacket cd envB nowB waiting b src sock wb =
      Inr (PingRecorded p, setSession p (pinged tb (outgoingPing nowID t (heap wa ! a)) src sock (heap wb ! p)) (wb\<lparr>clock := ckb\<rparr>))"
proof -
  let ?rx = "outgoingPing nowID t (heap wa ! a)"
  have oka: "session_ok (heap wa ! a)" using world_ok_session [OF assms(1,2)] .
  have rx: "ps_Magic ?rx = 11181" "ps_Type ?rx = 116" "ps_Session ?rx = sid"
    using assms(1,2) by (simp_all add: outgoingPing_def world_ok_def table_okD)
  show ?thesis
    using sendPackets_turn_sends [OF oka assms(3,4,5,6)] handlePacket_ping_run [OF assms(8,11,7) rx(1,2)] assms(9,10) rx(3)
    by auto
qed

text \<open>
  C8. A ping travels end to end: a turn of the sender loop for an activated session writes one
  datagram to the address the peer last used, and when the peer (holding an activated session of the
  same id, with a codec that decodes what was encoded) receives it, it records the sender's id and
  time stamp with its own arrival time as the newest entry of its ring and remembers the sender's
  table of acknowledgements.
\<close>

theorem ping_delivery:
  assumes "world_ok wa" and "sessionMap wa sid = Some a" and "UDPActivated (heap wa ! a)"
    and "\<not> senderIdle timeStarted nowRX nowSt (heap wa ! a)"
    and "timeNowCorrected envA nowTX (clock wa) = Inr (t, cka)"
    and "marshalPing cd (outgoingPing nowID t (heap wa ! a)) = Some b"
    and "unmarshalPing cd b = Some (outgoingPing nowID t (heap wa ! a))"
    and "world_ok wb" and "sessionMap wb sid = Some p" and "UDPActivated (heap wb ! p)"
    and "timeNowCorrected envB nowB (clock wb) = Inr (tb, ckb)"
  shows "\<exists>wa' wb' c ua.
    sendPackets_turn cd envA timeStarted (nowRX, nowSt, nowID, nowTX) a wa = Inr (True, wa') \<and>
    wire wa' = wire wa @ [(c, b, ua)] \<and> ReplyTo (heap wa ! a) = Some ua \<and>
    handlePacket cd envB nowB waiting b src sock wb = Inr (PingRecorded p, wb') \<and>
    last (ackHistory (heap wb' ! p)) = \<lparr>pi_ID = pingID nowID, pi_TX = t, pi_RX = tb\<rparr> \<and>
    ps_LastAcks (LastRXPing (heap wb' ! p)) = LastAcks (heap wa ! a)"
proof -
  have okb: "session_ok (heap wb ! p)" using world_ok_session [OF assms(8,9)] .
  have p: "p < length (heap wb)" using assms(8,9) by (simp add: world_ok_def table_okD)
  show ?thesis
    using ping_trip [OF assms, of waiting src sock] p pinged_simps [OF okb, of tb "outgoingPing nowID t (heap wa ! a)" src sock]
    by (auto simp: outgoingPing_def)
qed

theorem ping_delivery_witness:
  "\<exists>wa' wb' c ua. let cd = demo_codec (Some (outgoingPing unixEpoch (unixEpoch + 1) (heap active_world ! 0))) None in
     sendPackets_turn cd demo_env unixEpoch (unixEpoch, unixEpoch, unixEpoch, unixEpoch) 0 active_world = Inr (True, wa') \<and>
     wire wa' = [(c, [1], ua)] \<and>
     handlePacket cd demo_env unixEpoch True [1] demo_peer 1 active_world = Inr (PingRecorded 0, wb')"
proof -
  let ?rx = "outgoingPing unixEpoch (unixEpoch + 1) (heap active_world ! 0)"
  let ?cd = "demo_codec (Some ?rx) None"
  have idle: "\<not> senderIdle unixEpoch unixEpoch unixEpoch (heap active_world ! 0)"
    by (simp add: senderIdle_def time_simps)
  have cd: "marshalPing ?cd ?rx = Some [1]" "unmarshalPing ?cd [1] = Some ?rx"
    by (simp_all add: demo_codec_def)
  have "wire active_world = []" by (simp add: active_world_def demo_world_def)
  then show ?thesis
    using ping_delivery [OF active_world_ok active_world_session idle active_world_clock cd
        active_world_ok active_world_session active_world_clock, of True demo_peer 1]
    by (auto simp: Let_def)
qed

end
