(* ===== verification/Sping_Tick.thy ===== *)
theory Sping_Tick
  imports Sping_Handshake
begin

text \<open>
  The periodic goroutines of \<open>main.go\<close> (\<open>sessionGC\<close>, \<open>sysClockTicker\<close>, \<open>ppsClockTicker\<close>), the start-up
  code of \<open>main\<close>. Go iterates over a map in random order; where the
  order can matter the enumeration of the table is an argument.
\<close>

section \<open>Garbage collection of sessions\<close>

datatype gc_reason = GcInactivity | GcNoHandshake

text \<open>The two readings are those of the two \<open>time.Since\<close> calls.\<close>

definition gcVerdict :: "Time \<Rightarrow> Time \<Rightarrow> session \<Rightarrow> gc_reason option" where
  "gcVerdict now1 now2 ses =
     (if time_Since now1 (LastRX ses) > Minute then Some GcInactivity
      else if \<not> UDPActivated ses then
        (if time_Since now2 (SessionMade ses) > Second * 20 then Some GcNoHandshake else None)
      else None)"

text \<open>One pass: \<open>rd\<close> gives the readings for each entry; an entry with a verdict is deleted.\<close>

definition sessionGC :: "(u32 \<Rightarrow> Time \<times> Time) \<Rightarrow> world \<Rightarrow> world" where
  "sessionGC rd w = w\<lparr>sessionMap := (\<lambda>sid. case sessionMap w sid of
       None \<Rightarrow> None
     | Some a \<Rightarrow> (case gcVerdict (fst (rd sid)) (snd (rd sid)) (heap w ! a) of
                   None \<Rightarrow> Some a | Some r \<Rightarrow> None))\<rparr>"

lemma sessionGC_table_ok: "table_ok w \<Longrightarrow> table_ok (sessionGC rd w)"
  by (auto simp: table_ok_def sessionGC_def split: option.splits)

lemma sessionGC_world_ok: "world_ok w \<Longrightarrow> world_ok (sessionGC rd w)"
  using sessionGC_table_ok by (auto simp: world_ok_def sessionGC_def)

text \<open>
  C35. In a well-formed state a pass of the collector keeps a session exactly when its last ping is
  at most a minute old; the separate rule for sessions without a handshake never applies, because
  such a session has never received a ping and is already removed by the first rule.
\<close>

theorem sessionGC_keeps_iff:
  assumes "world_ok w" and "sessionMap w sid = Some a" and "unixEpoch \<le> fst (rd sid)"
  shows "(sessionMap (sessionGC rd w) sid = Some a \<longleftrightarrow> time_Since (fst (rd sid)) (LastRX (heap w ! a)) \<le> Minute)
    \<and> gcVerdict (fst (rd sid)) (snd (rd sid)) (heap w ! a) \<noteq> Some GcNoHandshake
    \<and> world_ok (sessionGC rd w)"
proof -
  have ok: "LastRX (heap w ! a) \<noteq> zeroTime \<longrightarrow> UDPActivated (heap w ! a)"
    using world_ok_session [OF assms(1,2)] by (simp add: session_ok_def)
  have "Minute < time_Since (fst (rd sid)) zeroTime"
    using assms(3) by (simp add: time_simps)
  with ok have "gcVerdict (fst (rd sid)) (snd (rd sid)) (heap w ! a) =
      (if time_Since (fst (rd sid)) (LastRX (heap w ! a)) > Minute then Some GcInactivity else None)"
    by (auto simp: gcVerdict_def)
  then show ?thesis using assms(1,2) sessionGC_world_ok by (auto simp: sessionGC_def)
qed

theorem sessionGC_keeps_iff_witness:
  "sessionMap (sessionGC (\<lambda>_. (unixEpoch, unixEpoch)) active_world) 7 = None \<and> world_ok (sessionGC (\<lambda>_. (unixEpoch, unixEpoch)) active_world)"
proof -
  have "LastRX (heap active_world ! 0) = zeroTime"
    by (simp add: active_world_def demo_world_def demo_session_def zero_session_def)
  moreover have "\<not> time_Since unixEpoch zeroTime \<le> Minute" by (simp add: time_simps)
  ultimately have "sessionMap (sessionGC (\<lambda>_. (unixEpoch, unixEpoch)) active_world) 7 \<noteq> Some 0"
    and "world_ok (sessionGC (\<lambda>_. (unixEpoch, unixEpoch)) active_world)"
    using sessionGC_keeps_iff [OF active_world_ok active_world_session(1), of "\<lambda>_. (unixEpoch, unixEpoch)"] by auto
  then show ?thesis using active_world_session(1) by (auto simp: sessionGC_def split: option.splits)
qed

text \<open>
  A session that has not received a ping yet is deleted by the next pass however young it is:
  its time of last reception is the zero time, which is always more than a minute ago. The twenty
  seconds that the code grants to a handshake are therefore not granted.
\<close>

theorem sessionGC_deletes_new_sessions:
  assumes "sessionMap w sid = Some a" and "LastRX (heap w ! a) = zeroTime" and "unixEpoch \<le> fst (rd sid)"
  shows "sessionMap (sessionGC rd w) sid = None \<and> \<not> startSession_monitor sid (sessionGC rd w)"
proof -
  have "Minute < time_Since (fst (rd sid)) zeroTime"
    using assms(3) by (simp add: time_simps)
  with assms show ?thesis by (simp add: sessionGC_def gcVerdict_def startSession_monitor_def)
qed

theorem sessionGC_deletes_new_sessions_witness:
  "sessionMap (sessionGC (\<lambda>_. (unixEpoch, unixEpoch))
     (putSession 3 (startedSession None 3 unixEpoch) demo_world)) 3 = None"
  using sessionGC_deletes_new_sessions [of "putSession 3 (startedSession None 3 unixEpoch) demo_world" 3 1
      "\<lambda>_. (unixEpoch, unixEpoch)"]
  by (simp add: putSession_def demo_world_def startedSession_def zero_session_def)

section \<open>Tickers\<close>

text \<open>
  A tick offers a pulse to every session of the list built at the previous tick and then rebuilds
  the list. \<open>waiting\<close> tells which sessions have a goroutine blocked on their pulse channel.
  \<open>ppsClockTicker\<close> differs from \<open>sysClockTicker\<close> only in what it waits for.
\<close>

definition tickPulses :: "(nat \<Rightarrow> bool) \<Rightarrow> nat list \<Rightarrow> world \<Rightarrow> bool list" where
  "tickPulses waiting sessionList w = map (\<lambda>a. trySend (pulse (heap w ! a)) (waiting a)) sessionList"

definition sysClockTicker_turn ::
  "clock_env \<Rightarrow> Time \<Rightarrow> Time \<Rightarrow> (nat \<Rightarrow> bool) \<Rightarrow> nat list \<Rightarrow> nat list \<Rightarrow> world
     \<Rightarrow> (sping_exit, Duration \<times> bool list \<times> nat list \<times> world) go" where
  "sysClockTicker_turn env now nowU waiting enum sessionList w =
     bind_go (sleepToTick env now nowU (clock w)) (\<lambda>(u, ck).
       Inr (u, tickPulses waiting sessionList w, enum, w\<lparr>clock := ck\<rparr>))"

definition ppsClockTicker_turn :: "(nat \<Rightarrow> bool) \<Rightarrow> nat list \<Rightarrow> nat list \<Rightarrow> world \<Rightarrow> bool list \<times> nat list" where
  "ppsClockTicker_turn waiting enum sessionList w = (tickPulses waiting sessionList w, enum)"

text \<open>
  No pulse is ever delivered: the pulse channel of a session is never made, and a non-blocking
  send on a nil channel always takes the default branch.
\<close>

theorem ticker_never_pulses:
  assumes "world_ok w" and "set sessionList \<subseteq> {..<length (heap w)}"
  shows "tickPulses waiting sessionList w = replicate (length sessionList) False"
proof -
  have "trySend (pulse (heap w ! a)) (waiting a) = False" if "a \<in> set sessionList" for a
  proof -
    have "heap w ! a \<in> set (heap w)" using that assms(2) by auto
    then have "pulse (heap w ! a) = None" using assms(1) by (simp add: world_ok_def session_ok_def)
    then show ?thesis by (simp add: trySend_def)
  qed
  then show ?thesis by (auto simp: tickPulses_def intro: replicate_eqI)
qed

theorem ticker_never_pulses_witness:
  "tickPulses (\<lambda>_. True) [0, 0] active_world = [False, False]"
  using ticker_never_pulses [OF active_world_ok, of "[0, 0]" "\<lambda>_. True"]
  by (simp add: active_world_def demo_world_def numeral_2_eq_2)

section \<open>Start-up\<close>

text \<open>\<open>strings.Split(s, ",")\<close> on a non-empty separator.\<close>

fun splitComma :: "string \<Rightarrow> string list" where
  "splitComma [] = [[]]"
| "splitComma (c # cs) =
     (if c = CHR '','' then [] # splitComma cs
      else (case splitComma cs of [] \<Rightarrow> [[c]] | x # xs \<Rightarrow> (c # x) # xs))"

definition startupPeers :: "(string \<Rightarrow> IP) \<Rightarrow> string \<Rightarrow> bytes list" where
  "startupPeers ParseIP peers =
     (if length peers \<noteq> 0 then List.map_filter ParseIP (splitComma peers) else [])"

record flags =
  fl_usePPS :: bool
  fl_clockIsPerfect :: bool
  fl_udpPPS :: int
  fl_peers :: string

definition effectiveFlags :: "flags \<Rightarrow> flags" where
  "effectiveFlags fl =
     (if fl_usePPS fl \<and> \<not> fl_clockIsPerfect fl then fl\<lparr>fl_clockIsPerfect := True\<rparr> else fl)"

text \<open>
  \<open>rate.Limit(n)\<close> converts an \<open>int\<close> to the nearest \<open>float64\<close> (53 significant bits, ties to even); here its
  value, which is an integer again. The burst \<open>n * 3\<close> is an \<open>int\<close> and wraps at 64 bits.
\<close>

definition excessBits :: "int \<Rightarrow> nat" where
  "excessBits a = length (takeWhile (\<lambda>e. 2 ^ (53 + e) \<le> a) [0..<11])"

definition toFloat64 :: "int \<Rightarrow> int" where
  "toFloat64 n =
     (let a = \<bar>n\<bar>; u = 2 ^ excessBits a; q = a div u; r = a mod u;
          q' = (if 2 * r > u \<or> 2 * r = u \<and> odd q then q + 1 else q)
      in sgn n * q' * u)"

definition limiterConfig :: "flags \<Rightarrow> int \<times> int" where
  "limiterConfig fl = (toFloat64 (fl_udpPPS fl), sint (word_of_int (fl_udpPPS fl * 3) :: u64))"

text \<open>
  The state in which \<open>main\<close> starts the goroutines: the table is made, the limiter configured, the
  first calibration done; the peers with a valid address get a \<open>startSession\<close> goroutine each.
\<close>

definition main_startup ::
  "(string \<Rightarrow> IP) \<Rightarrow> clock_env \<Rightarrow> flags \<Rightarrow> (sping_exit, bytes list \<times> (int \<times> int) \<times> world) go" where
  "main_startup ParseIP env fl0 =
     (let fl = effectiveFlags fl0; env' = env\<lparr>ce_perfect := fl_clockIsPerfect fl\<rparr> in
      bind_go (getTimeOffset env' init_clockst) (\<lambda>(off, ck).
        Inr (startupPeers ParseIP (fl_peers fl), limiterConfig fl,
             \<lparr>heap = [], sessionMap = Map.empty, globalReplyWith = None, wire = [], clock = ck\<rparr>)))"

text \<open>The goroutines \<open>main\<close> starts, in this order, and the loop it then runs itself: it only sleeps.\<close>

datatype task = ListenOnTCP | ListenAndRoute | StartSession bytes | SessionGC | PpsClockTicker | SysClockTicker | HandlePrometheus

definition main_tasks :: "(string \<Rightarrow> IP) \<Rightarrow> flags \<Rightarrow> task list" where
  "main_tasks ParseIP fl =
     [ListenOnTCP, ListenAndRoute] @ map StartSession (startupPeers ParseIP (fl_peers fl)) @
     [SessionGC, if fl_usePPS fl then PpsClockTicker else SysClockTicker, HandlePrometheus]"

definition main_turn :: "clock_env \<Rightarrow> Time \<Rightarrow> Time \<Rightarrow> world \<Rightarrow> (sping_exit, Duration \<times> world) go" where
  "main_turn env now nowU w =
     bind_go (sleepToTick env now nowU (clock w)) (\<lambda>(u, ck). Inr (u, w\<lparr>clock := ck\<rparr>))"

text \<open>Each service runs once, exactly one of the two tickers runs, and each valid peer has its goroutine.\<close>

lemma main_tasks_once:
  "mset (main_tasks ParseIP fl) =
     {#ListenOnTCP, ListenAndRoute, SessionGC, HandlePrometheus#} +
     {#if fl_usePPS fl then PpsClockTicker else SysClockTicker#} + mset (map StartSession (startupPeers ParseIP (fl_peers fl)))"
  by (simp add: main_tasks_def)

lemma main_turn_world_ok:
  "world_ok w \<Longrightarrow> main_turn env now nowU w = Inr (u, w') \<Longrightarrow> world_ok w' \<and> heap w' = heap w \<and> sessionMap w' = sessionMap w"
  by (auto simp: main_turn_def sleepToTick_def bind_go_Inr_iff dest: handlePacket_clock)

lemma splitComma_join:
  "splitComma s \<noteq> [] \<and> concat (map (\<lambda>x. x @ '','') (butlast (splitComma s))) @ last (splitComma s) = s"
  by (induction s) (auto split: list.splits)

lemma splitComma_no_comma: "x \<in> set (splitComma s) \<Longrightarrow> CHR '','' \<notin> set x"
  by (induction s arbitrary: x) (auto split: list.splits if_splits)

lemma toFloat64_exact: "\<bar>n\<bar> < 2 ^ 53 \<Longrightarrow> toFloat64 n = n"
proof -
  assume "\<bar>n\<bar> < 2 ^ 53"
  then have "excessBits \<bar>n\<bar> = 0" by (simp add: excessBits_def upt_conv_Cons)
  then show ?thesis by (simp add: toFloat64_def Let_def sgn_mult_abs)
qed

text \<open>The limiter is configured with the flag's value and three times that, unless the burst overflows.\<close>

lemma limiterConfig_exact:
  assumes "\<bar>fl_udpPPS fl\<bar> < 2 ^ 53"
  shows "limiterConfig fl = (fl_udpPPS fl, 3 * fl_udpPPS fl)"
proof -
  have "sint (word_of_int (fl_udpPPS fl * 3) :: u64) = fl_udpPPS fl * 3"
    using assms by (subst sint_sbintrunc') (auto intro!: signed_take_bit_int_eq_self)
  then show ?thesis using assms by (simp add: limiterConfig_def toFloat64_exact)
qed

text \<open>
  Start-up exactly: the flag for the pulse-per-second source or for a perfect clock fixes the offset at one nanosecond
  without asking any server; otherwise the offset is the one chosen from the servers' answers, and an offset of
  more than a second ends the program. When it goes on, the state is empty and well-formed.
\<close>

theorem main_startup_exact:
  "main_startup ParseIP env fl =
     (let off = (if fl_usePPS fl \<or> fl_clockIsPerfect fl then 1
                 else chooseOffset (ntpAnswers (ce_answers env) (remdups (filter (\<lambda>s. s \<in> set ntpServers) (ce_arrived env)))))
      in if off > Second then Inl (Error FatalTimeOutOfSync)
         else Inr (startupPeers ParseIP (fl_peers fl), limiterConfig fl,
           \<lparr>heap = [], sessionMap = Map.empty, globalReplyWith = None, wire = [],
            clock = \<lparr>timeOffset = off, lastSync = ce_sync env\<rparr>\<rparr>))"
proof -
  have "fl_clockIsPerfect (effectiveFlags fl) = (fl_usePPS fl \<or> fl_clockIsPerfect fl)" "fl_peers (effectiveFlags fl) = fl_peers fl"
    "limiterConfig (effectiveFlags fl) = limiterConfig fl"
    by (auto simp: effectiveFlags_def limiterConfig_def)
  then show ?thesis
    by (auto simp: main_startup_def getTimeOffset_def calibrateAgainstApple_def init_clockst_def Let_def Second_def)
qed

lemma main_startup_world_ok: "main_startup ParseIP env fl = Inr (ips, lim, w) \<Longrightarrow> world_ok w"
  by (auto simp: main_startup_exact Let_def world_ok_def table_ok_def split: if_splits)

text \<open>The peer list is cut at the commas and nowhere else, and a session is started for exactly the parts that parse.\<close>

lemma startupPeers_parts:
  assumes "peers \<noteq> []"
  shows "\<exists>parts. concat (map (\<lambda>x. x @ '','') (butlast parts)) @ last parts = peers \<and>
    (\<forall>x \<in> set parts. CHR '','' \<notin> set x) \<and>
    map Some (startupPeers ParseIP peers) = filter (\<lambda>i. i \<noteq> None) (map ParseIP parts)"
proof -
  have "map Some (List.map_filter ParseIP xs) = filter (\<lambda>i. i \<noteq> None) (map ParseIP xs)" for xs
    by (induction xs) (auto simp: List.map_filter_simps split: option.splits)
  then show ?thesis
    using assms splitComma_join [of peers] splitComma_no_comma [of _ peers]
    by (intro exI [of _ "splitComma peers"]) (simp add: startupPeers_def)
qed

end
