(* ===== verification/Sping_Prom.thy ===== *)
theory Sping_Prom
  imports Sping_Tick
begin

text \<open>
  The metrics of \<open>prom.go\<close>: \<open>measure\<close> recomputes the statistics of every session and sets the gauges
  labelled with direction and peer address. A gauge value is kept symbolic: \<open>Seconds d\<close> stands for
  \<open>float64(d.Seconds())\<close> and \<open>Ratio32 n\<close> for \<open>float64(n) / 32\<close>. The printed form of an address
  (\<open>net.IP.String\<close>) is an argument, as is the random order in which the table is enumerated.
\<close>

datatype gauge_value = Seconds Duration | Ratio32 int

record gauges =
  promLatency :: "string \<times> string \<rightharpoonup> gauge_value"
  promLoss :: "string \<times> string \<rightharpoonup> gauge_value"

record readings =
  rd_stats :: "nat \<Rightarrow> Time"
  rd_loss :: Time

definition measureOne :: "(IP \<Rightarrow> string) \<Rightarrow> readings \<Rightarrow> session \<Rightarrow> gauges \<Rightarrow> gauges option" where
  "measureOne ipString rd v g =
     (case getStats (rd_stats rd) (rd_loss rd) (LastRX v) (LastRXPing v) v of
        None \<Rightarrow> None
      | Some (RXL, TXL, RXLoss, TXLoss, exchanges) \<Rightarrow>
          let PeerAddr = ipString (PeerAddress v);
              g1 = g\<lparr>promLatency := (promLatency g)((''rx'', PeerAddr) \<mapsto> Seconds RXL,
                                                   (''tx'', PeerAddr) \<mapsto> Seconds TXL)\<rparr>
          in Some (if exchanges = 32
                   then g1\<lparr>promLoss := (promLoss g1)((''rx'', PeerAddr) \<mapsto> Ratio32 RXLoss,
                                                    (''tx'', PeerAddr) \<mapsto> Ratio32 TXLoss)\<rparr>
                   else g1))"

text \<open>\<open>enum\<close> lists the sessions in iteration order, each with the clock readings its turn makes.\<close>

fun measure_loop :: "(IP \<Rightarrow> string) \<Rightarrow> (readings \<times> session) list \<Rightarrow> gauges \<Rightarrow> gauges option" where
  "measure_loop ipString [] g = Some g"
| "measure_loop ipString ((rd, v) # vs) g =
     (case measureOne ipString rd v g of None \<Rightarrow> None | Some g' \<Rightarrow> measure_loop ipString vs g')"

definition enumerates :: "(u32 \<times> readings) list \<Rightarrow> world \<Rightarrow> bool" where
  "enumerates enum w \<longleftrightarrow> distinct (map fst enum) \<and> set (map fst enum) = dom (sessionMap w)"

definition collectorMeasure :: "(IP \<Rightarrow> string) \<Rightarrow> (u32 \<times> readings) list \<Rightarrow> world \<Rightarrow> gauges \<Rightarrow> gauges option" where
  "collectorMeasure ipString enum w g =
     measure_loop ipString (map (\<lambda>(sid, rd). (rd, the (sessionOf w sid))) enum) g"

text \<open>
  What a scrape registers and publishes. \<open>measure\<close> has no failing path, so that \<open>Collect\<close> always publishes
  both families of gauges.
\<close>

definition collectorDescribe :: "string list" where
  "collectorDescribe = [''splitping_latency'', ''splitping_loss'']"

definition collectorCollect ::
  "(IP \<Rightarrow> string) \<Rightarrow> (u32 \<times> readings) list \<Rightarrow> world \<Rightarrow> gauges \<Rightarrow> (gauges \<times> (string \<times> (string \<times> string \<rightharpoonup> gauge_value)) list) option" where
  "collectorCollect ipString enum w g =
     (case collectorMeasure ipString enum w g of
        None \<Rightarrow> None
      | Some g' \<Rightarrow> Some (g', [(''splitping_latency'', promLatency g'), (''splitping_loss'', promLoss g')]))"

text \<open>The page served at the root: the metrics path is shown only when it is the default one.\<close>

definition page_line :: "string \<Rightarrow> string" where
  "page_line s = [CHR 0x0A, CHR 0x09, CHR 0x09, CHR 0x09] @ s"

definition rootPage :: "string \<Rightarrow> string" where
  "rootPage metricsPath =
     (if metricsPath = ''/metrics'' then
        ''<html>'' @ page_line ''<head><title>split-ping</title></head>'' @ page_line ''<body>'' @
        page_line ''<h1>split-ping</h1>'' @
        page_line (''<p><a href='' @ [CHR 0x22] @ metricsPath @ [CHR 0x22] @ ''>Metrics</a></p>'') @
        page_line ''</body>'' @ page_line ''</html>''
      else
        ''<html>'' @ page_line ''<head><title>split-ping</title></head>'' @ page_line ''<body>'' @
        page_line ''<h1>split-ping</h1>'' @ page_line ''</body>'' @ page_line ''</html>'')"

text \<open>
  The HTTP side. \<open>http.Handle\<close> and \<open>http.HandleFunc\<close> enter a pattern into the request multiplexer and
  panic on an empty or repeated one. A request goes to the pattern that is its path, otherwise to the longest
  pattern that ends in a slash and is a prefix of it; patterns that do not begin with a slash are
  first matched with the host in front of the path.
\<close>

datatype http_handler = MetricsHandler | RootHandler

type_synonym mux = "(string \<times> http_handler) list"

definition mux_Handle :: "string \<Rightarrow> http_handler \<Rightarrow> mux \<Rightarrow> (sping_exit, mux) go" where
  "mux_Handle pattern h m =
     (if pattern = '''' then Inl (Panic (Raised ''http: invalid pattern''))
      else if pattern \<in> set (map fst m) then Inl (Panic (Raised (''http: multiple registrations for '' @ pattern)))
      else Inr ((pattern, h) # m))"

definition mux_prefixes :: "mux \<Rightarrow> string \<Rightarrow> mux" where
  "mux_prefixes m path = filter (\<lambda>(p, h). last p = CHR ''/'' \<and> take (length p) path = p) m"

fun longest_pattern :: "mux \<Rightarrow> (string \<times> http_handler) option" where
  "longest_pattern [] = None"
| "longest_pattern (x # xs) =
     (case longest_pattern xs of
        None \<Rightarrow> Some x
      | Some y \<Rightarrow> Some (if length (fst x) > length (fst y) then x else y))"

definition mux_match :: "mux \<Rightarrow> string \<Rightarrow> http_handler option" where
  "mux_match m path =
     (case map_of m path of
        Some h \<Rightarrow> Some h
      | None \<Rightarrow> map_option snd (longest_pattern (mux_prefixes m path)))"

definition mux_handler :: "mux \<Rightarrow> string \<Rightarrow> string \<Rightarrow> http_handler option" where
  "mux_handler m host path =
     (if list_ex (\<lambda>(p, h). hd p \<noteq> CHR ''/'') m
      then (case mux_match m (host @ path) of Some h \<Rightarrow> Some h | None \<Rightarrow> mux_match m path)
      else mux_match m path)"

text \<open>The routes \<open>handlePrometheus\<close> sets up, and what a request gets; \<open>metrics\<close> is the page of the collector.\<close>

definition handlePrometheus_routes :: "string \<Rightarrow> (sping_exit, mux) go" where
  "handlePrometheus_routes metricsPath =
     bind_go (mux_Handle metricsPath MetricsHandler []) (mux_Handle ''/'' RootHandler)"

definition handlePrometheus_get :: "string \<Rightarrow> string \<Rightarrow> mux \<Rightarrow> string \<Rightarrow> string \<Rightarrow> string option" where
  "handlePrometheus_get metricsPath metrics m host path =
     (case mux_handler m host path of
        None \<Rightarrow> None
      | Some MetricsHandler \<Rightarrow> Some metrics
      | Some RootHandler \<Rightarrow> Some (rootPage metricsPath))"

text \<open>
  With a metrics path that starts with a slash and does not end in one, the server starts and
  serves the metrics at that path and nowhere else: every other path gets the root page, which names
  the path only when it is the default one. The root as metrics path makes the program panic at start.
\<close>

lemma prom_serves:
  assumes "metricsPath = CHR ''/'' # rest" and "rest \<noteq> []" and "last rest \<noteq> CHR ''/''" and "path = CHR ''/'' # path'"
  shows "\<exists>m. handlePrometheus_routes metricsPath = Inr m \<and>
    handlePrometheus_get metricsPath metrics m host path =
      Some (if path = metricsPath then metrics else rootPage metricsPath)"
  using assms
  by (auto simp: handlePrometheus_routes_def mux_Handle_def handlePrometheus_get_def mux_handler_def mux_match_def
      mux_prefixes_def)

lemma prom_root_path_panics:
  "handlePrometheus_routes ''/'' = Inl (Panic (Raised ''http: multiple registrations for /''))"
  by (simp add: handlePrometheus_routes_def mux_Handle_def)

lemma getStats_defined:
  assumes "unixEpoch \<le> nowLoss"
  obtains RXL TXL RXLoss TXLoss n where
    "getStats rd nowLoss t rx ses = Some (RXL, TXL, RXLoss, TXLoss, n)"
    "RXL = time_Sub t (ps_TXTime rx)" "n = 0 \<or> n = 32" "0 \<le> RXLoss" "RXLoss \<le> 31" "0 \<le> TXLoss" "TXLoss \<le> 31"
proof (cases "0 \<in> pi_ID ` set (LastAcks ses)")
  case True
  then show ?thesis using that by (simp add: getStats_def getLoss_def Let_def)
next
  case False
  show ?thesis
    using that getLoss_card [OF assms False, of rx]
      window_card_le [of "time_Unix nowLoss" "\<lambda>s. secondID s \<notin> pi_ID ` set (LastAcks ses)"]
      window_card_le [of "time_Unix nowLoss" "\<lambda>s. secondID s \<notin> pi_ID ` set (ps_LastAcks rx)"]
    by (simp add: getStats_def Let_def)
qed

definition loss_ratio :: "gauge_value \<Rightarrow> bool" where
  "loss_ratio v \<longleftrightarrow> (\<exists>n. v = Ratio32 n \<and> 0 \<le> n \<and> n \<le> 31)"

lemma measureOne_effect:
  assumes "unixEpoch \<le> rd_loss rd" and "\<forall>v \<in> ran (promLoss g). loss_ratio v"
  shows "\<exists>g'. measureOne ipString rd v g = Some g' \<and>
    promLatency g' (''rx'', ipString (PeerAddress v)) = Some (Seconds (time_Sub (LastRX v) (ps_TXTime (LastRXPing v)))) \<and>
    (\<forall>d h. h \<noteq> ipString (PeerAddress v) \<longrightarrow> promLatency g' (d, h) = promLatency g (d, h) \<and> promLoss g' (d, h) = promLoss g (d, h)) \<and>
    dom (promLatency g) \<subseteq> dom (promLatency g') \<and> dom (promLoss g) \<subseteq> dom (promLoss g') \<and>
    (\<forall>v \<in> ran (promLoss g'). loss_ratio v)"
proof -
  obtain RXL TXL RXLoss TXLoss n where st:
    "getStats (rd_stats rd) (rd_loss rd) (LastRX v) (LastRXPing v) v = Some (RXL, TXL, RXLoss, TXLoss, n)"
    "RXL = time_Sub (LastRX v) (ps_TXTime (LastRXPing v))"
    "0 \<le> RXLoss" "RXLoss \<le> 31" "0 \<le> TXLoss" "TXLoss \<le> 31"
    using getStats_defined [OF assms(1)] by metis
  have upd: "x \<in> ran (m(k1 \<mapsto> a, k2 \<mapsto> b)) \<Longrightarrow> x = a \<or> x = b \<or> x \<in> ran m"
    for m :: "string \<times> string \<rightharpoonup> gauge_value" and k1 k2 a b x
    by (auto simp: ran_def split: if_splits)
  have "loss_ratio (Ratio32 RXLoss)" "loss_ratio (Ratio32 TXLoss)" using st by (simp_all add: loss_ratio_def)
  then show ?thesis
    using assms(2) st by (auto simp: measureOne_def Let_def dest!: upd)
qed

lemma measure_loop_append:
  "measure_loop ipString (xs @ ys) g = Option.bind (measure_loop ipString xs g) (measure_loop ipString ys)"
  by (induction ipString xs g rule: measure_loop.induct) (auto split: option.splits)

definition peersOf :: "(IP \<Rightarrow> string) \<Rightarrow> (readings \<times> session) list \<Rightarrow> string set" where
  "peersOf ipString vs = (\<lambda>(rd, v). ipString (PeerAddress v)) ` set vs"

lemma measure_loop_effect:
  assumes "\<forall>(rd, v) \<in> set vs. unixEpoch \<le> rd_loss rd" and "\<forall>v \<in> ran (promLoss g). loss_ratio v"
  shows "\<exists>g'. measure_loop ipString vs g = Some g' \<and>
    dom (promLatency g) \<subseteq> dom (promLatency g') \<and> dom (promLoss g) \<subseteq> dom (promLoss g') \<and>
    (\<forall>v \<in> ran (promLoss g'). loss_ratio v) \<and>
    (\<forall>h d. h \<notin> peersOf ipString vs \<longrightarrow> promLatency g' (d, h) = promLatency g (d, h))"
  using assms
proof (induction vs arbitrary: g)
  case Nil
  then show ?case by simp
next
  case (Cons x xs)
  obtain rd v where x: "x = (rd, v)" by (cases x)
  then obtain g1 where g1: "measureOne ipString rd v g = Some g1"
    "\<forall>d h. h \<noteq> ipString (PeerAddress v) \<longrightarrow> promLatency g1 (d, h) = promLatency g (d, h)"
    "dom (promLatency g) \<subseteq> dom (promLatency g1)" "dom (promLoss g) \<subseteq> dom (promLoss g1)"
    "\<forall>v \<in> ran (promLoss g1). loss_ratio v"
    using measureOne_effect [of rd g ipString v] Cons.prems by auto
  then obtain g2 where g2: "measure_loop ipString xs g1 = Some g2"
    "dom (promLatency g1) \<subseteq> dom (promLatency g2)" "dom (promLoss g1) \<subseteq> dom (promLoss g2)"
    "\<forall>v \<in> ran (promLoss g2). loss_ratio v"
    "\<forall>h d. h \<notin> peersOf ipString xs \<longrightarrow> promLatency g2 (d, h) = promLatency g1 (d, h)"
    using Cons.IH [of g1] Cons.prems by auto
  have "promLatency g2 (d, h) = promLatency g (d, h)" if "h \<notin> peersOf ipString (x # xs)" for h d
    using that g1(2) g2(5) x by (simp add: peersOf_def)
  moreover have "measure_loop ipString (x # xs) g = Some g2" using g1(1) g2(1) x by simp
  ultimately show ?case
    using order_trans [OF g1(3) g2(2)] order_trans [OF g1(4) g2(3)] g2(4) by (intro exI [of _ g2]) blast
qed

text \<open>The session measured last under a peer address is the one whose latency is shown.\<close>

lemma measure_loop_shown:
  assumes "\<forall>(rd, v) \<in> set (ys @ (rdg, s) # zs). unixEpoch \<le> rd_loss rd" and "\<forall>v \<in> ran (promLoss g). loss_ratio v"
    and "ipString (PeerAddress s) \<notin> peersOf ipString zs"
    and "measure_loop ipString (ys @ (rdg, s) # zs) g = Some g'"
  shows "promLatency g' (''rx'', ipString (PeerAddress s)) =
    Some (Seconds (time_Sub (LastRX s) (ps_TXTime (LastRXPing s))))"
proof -
  obtain g1 where g1: "measure_loop ipString ys g = Some g1" "\<forall>v \<in> ran (promLoss g1). loss_ratio v"
    using measure_loop_effect [of ys g ipString] assms(1,2) by auto
  obtain g2 where g2: "measureOne ipString rdg s g1 = Some g2" "\<forall>v \<in> ran (promLoss g2). loss_ratio v"
    "promLatency g2 (''rx'', ipString (PeerAddress s)) =
      Some (Seconds (time_Sub (LastRX s) (ps_TXTime (LastRXPing s))))"
    using measureOne_effect [of rdg g1 ipString s] assms(1) g1(2) by auto
  obtain g3 where "measure_loop ipString zs g2 = Some g3"
    "\<forall>h d. h \<notin> peersOf ipString zs \<longrightarrow> promLatency g3 (d, h) = promLatency g2 (d, h)"
    using measure_loop_effect [of zs g2 ipString] assms(1) g2(2) by auto
  then show ?thesis using assms(3,4) g1(1) g2 by (simp add: measure_loop_append)
qed

text \<open>
  C36. A scrape always terminates, whatever the peers have sent, publishes both families of gauges it
  describes, and never removes a gauge; every
  loss it publishes is at most 31/32. After a scrape, the receive latency shown for a peer is that
  of its session, provided no other session prints the same peer address.
\<close>

theorem measure_publishes:
  assumes "enumerates enum w" and "\<forall>(sid, rd) \<in> set enum. unixEpoch \<le> rd_loss rd"
    and "\<forall>v \<in> ran (promLoss g). loss_ratio v"
  shows "\<exists>g' families. collectorCollect ipString enum w g = Some (g', families) \<and> map fst families = collectorDescribe \<and>
    families = [(''splitping_latency'', promLatency g'), (''splitping_loss'', promLoss g')] \<and>
    dom (promLatency g) \<subseteq> dom (promLatency g') \<and> dom (promLoss g) \<subseteq> dom (promLoss g') \<and>
    (\<forall>v \<in> ran (promLoss g'). loss_ratio v) \<and>
    (\<forall>sid s. sessionOf w sid = Some s \<and>
       (\<forall>sid' s'. sessionOf w sid' = Some s' \<and> sid' \<noteq> sid \<longrightarrow> ipString (PeerAddress s') \<noteq> ipString (PeerAddress s)) \<longrightarrow>
       promLatency g' (''rx'', ipString (PeerAddress s)) = Some (Seconds (time_Sub (LastRX s) (ps_TXTime (LastRXPing s)))))"
proof -
  let ?vs = "map (\<lambda>(sid, rd). (rd, the (sessionOf w sid))) enum"
  have rds: "\<forall>(rd, v) \<in> set ?vs. unixEpoch \<le> rd_loss rd" using assms(2) by auto
  obtain g' where g': "measure_loop ipString ?vs g = Some g'"
    "dom (promLatency g) \<subseteq> dom (promLatency g')" "dom (promLoss g) \<subseteq> dom (promLoss g')"
    "\<forall>v \<in> ran (promLoss g'). loss_ratio v"
    using measure_loop_effect [OF rds assms(3)] by blast
  have "promLatency g' (''rx'', ipString (PeerAddress s)) = Some (Seconds (time_Sub (LastRX s) (ps_TXTime (LastRXPing s))))"
    if s: "sessionOf w sid = Some s"
      and uniq: "\<forall>sid' s'. sessionOf w sid' = Some s' \<and> sid' \<noteq> sid \<longrightarrow> ipString (PeerAddress s') \<noteq> ipString (PeerAddress s)"
    for sid s
  proof -
    have dom: "dom (sessionMap w) = dom (sessionOf w)" by (auto simp: sessionOf_def dom_def)
    then have "sid \<in> set (map fst enum)" using assms(1) s by (auto simp: enumerates_def)
    then obtain ys rd zs where enum: "enum = ys @ (sid, rd) # zs" by (auto simp: in_set_conv_decomp)
    have "\<exists>s'. sessionOf w sid' = Some s' \<and> sid' \<noteq> sid" if "sid' \<in> set (map fst zs)" for sid'
      using that assms(1) dom unfolding enumerates_def enum by auto
    then have "ipString (PeerAddress s) \<notin> peersOf ipString (map (\<lambda>(sid, rd). (rd, the (sessionOf w sid))) zs)"
      using uniq by (fastforce simp: peersOf_def)
    with g'(1) rds assms(3) show ?thesis
      using s measure_loop_shown [where ys = "map (\<lambda>(sid, rd). (rd, the (sessionOf w sid))) ys"
          and zs = "map (\<lambda>(sid, rd). (rd, the (sessionOf w sid))) zs" and rdg = rd and s = s]
      by (simp add: enum)
  qed
  with g' show ?thesis by (auto simp: collectorCollect_def collectorMeasure_def collectorDescribe_def)
qed

theorem measure_publishes_witness:
  "\<exists>g' families. collectorCollect (\<lambda>_. ''peer'') [(7, \<lparr>rd_stats = \<lambda>_. unixEpoch, rd_loss = unixEpoch\<rparr>)] active_world
      \<lparr>promLatency = Map.empty, promLoss = Map.empty\<rparr> = Some (g', families) \<and>
    promLatency g' (''rx'', ''peer'') = Some (Seconds (time_Sub zeroTime zeroTime))"
proof -
  let ?enum = "[(7, \<lparr>rd_stats = \<lambda>_. unixEpoch, rd_loss = unixEpoch\<rparr>)]"
  let ?s = "heap active_world ! 0"
  have "dom (sessionMap active_world) = {7}" by (simp add: active_world_def demo_world_def)
  then have enum: "enumerates ?enum active_world" by (simp add: enumerates_def)
  have s: "sessionOf active_world sid = (if sid = 7 then Some ?s else None)" for sid
    by (simp add: sessionOf_def active_world_def demo_world_def)
  have t: "LastRX ?s = zeroTime" "ps_TXTime (LastRXPing ?s) = zeroTime"
    by (simp_all add: active_world_def demo_world_def demo_session_def zero_session_def zero_pingStruct_def)
  obtain g' families where g': "collectorCollect (\<lambda>_. ''peer'') ?enum active_world \<lparr>promLatency = Map.empty, promLoss = Map.empty\<rparr> = Some (g', families)"
    "\<forall>sid s. sessionOf active_world sid = Some s \<and>
       (\<forall>sid' s'. sessionOf active_world sid' = Some s' \<and> sid' \<noteq> sid \<longrightarrow> ''peer'' \<noteq> ''peer'') \<longrightarrow>
       promLatency g' (''rx'', ''peer'') = Some (Seconds (time_Sub (LastRX s) (ps_TXTime (LastRXPing s))))"
    using measure_publishes [OF enum, of "\<lparr>promLatency = Map.empty, promLoss = Map.empty\<rparr>" "\<lambda>_. ''peer''"]
    by auto
  have "promLatency g' (''rx'', ''peer'') = Some (Seconds (time_Sub (LastRX ?s) (ps_TXTime (LastRXPing ?s))))"
    by (rule g'(2) [rule_format, of 7]) (auto simp: s)
  with g'(1) t show ?thesis by auto
qed

end
