(* ===== verification/Sping_Pps.thy ===== *)
theory Sping_Pps
  imports Sping_Tick
begin

text \<open>
  The pulse-per-second input (\<open>pps.go\<close>, \<open>pps_linux.go\<close>, \<open>pps_other.go\<close>) and the loop of \<open>main.go\<close> that it
  drives. The device is an argument: a record with the outcome of each call on it. The state is the
  global \<open>ppsFD\<close> and the calls made on the device so far.
\<close>

record pps_params =
  pp_Mode :: int
  pp_AssertSec :: int
  pp_AssertNsec :: int

datatype pps_call = OpenDevice string | GetParams nat | SetParams nat pps_params | FetchPulse nat int

record pps_state =
  ppsFD :: "nat option"
  pps_calls :: "pps_call list"

record pps_device =
  pd_open :: "string \<Rightarrow> nat option"
  pd_getparams :: "nat \<Rightarrow> pps_params"
  pd_setparams :: "nat \<Rightarrow> pps_params \<Rightarrow> int"
  pd_fetch :: "nat \<Rightarrow> nat \<Rightarrow> int \<times> int \<times> int"

record pps_flags =
  ppsPath :: string
  usePPS :: bool

definition default_pps_flags :: pps_flags where
  "default_pps_flags = \<lparr>ppsPath = ''/dev/pps0'', usePPS = False\<rparr>"

definition called :: "pps_call \<Rightarrow> pps_state \<Rightarrow> pps_state" where
  "called c st = st\<lparr>pps_calls := pps_calls st @ [c]\<rparr>"

text \<open>Reading the parameters may fail; its result is not looked at.\<close>

definition setupPPS :: "pps_flags \<Rightarrow> pps_device \<Rightarrow> pps_state \<Rightarrow> (sping_exit, pps_state) go" where
  "setupPPS fl dev st =
     (let st = called (OpenDevice (ppsPath fl)) st in
      case pd_open dev (ppsPath fl) of
        None \<Rightarrow> Inl (Error FatalPPS)
      | Some fd \<Rightarrow>
          let st = called (GetParams fd) (st\<lparr>ppsFD := Some fd\<rparr>);
              PP = (pd_getparams dev fd)\<lparr>pp_Mode := 0x01\<rparr>;
              PP = PP\<lparr>pp_Mode := pp_Mode PP OR 0x10, pp_AssertNsec := 0, pp_AssertSec := 0\<rparr>;
              st = called (SetParams fd PP) st
          in if pd_setparams dev fd PP \<noteq> 0 then Inl (Error FatalPPS) else Inr st)"

text \<open>
  \<open>n\<close> numbers the pulses waited for. A fetch that fails is only logged; the time is then made of what
  the call has left in the structure.
\<close>

definition waitForPPSPulse :: "pps_flags \<Rightarrow> pps_device \<Rightarrow> nat \<Rightarrow> pps_state \<Rightarrow> (sping_exit, Time \<times> pps_state) go" where
  "waitForPPSPulse fl dev n st =
     bind_go (if ppsFD st = None then setupPPS fl dev st else Inr st) (\<lambda>st.
       case ppsFD st of
         None \<Rightarrow> Inl (Panic NilDereference)
       | Some fd \<Rightarrow> let (err, sec, nsec) = pd_fetch dev fd n in Inr (unix_Time sec nsec, called (FetchPulse fd 3) st))"

text \<open>Where the platform has no PPS, both functions end the program.\<close>

definition setupPPS_other :: "pps_state \<Rightarrow> (sping_exit, pps_state) go" where
  "setupPPS_other st = Inl (Error FatalPPS)"

definition waitForPPSPulse_other :: "pps_state \<Rightarrow> (sping_exit, Time \<times> pps_state) go" where
  "waitForPPSPulse_other st = Inl (Error FatalPPS)"

text \<open>
  The loop of \<open>ppsClockTicker\<close> for a number of turns: after the setup, each turn waits for a pulse, sends to
  the sessions collected in the turn before and collects the sessions of the table. \<open>waits\<close> and \<open>enums\<close>
  give, per turn, which sessions are receiving and in which order the table is enumerated.
\<close>

fun ppsTicker_turns :: "pps_flags \<Rightarrow> pps_device \<Rightarrow> (nat \<Rightarrow> nat \<Rightarrow> bool) \<Rightarrow> (nat \<Rightarrow> nat list) \<Rightarrow> world \<Rightarrow> nat
    \<Rightarrow> (sping_exit, pps_state \<times> nat list \<times> bool list list) go \<Rightarrow> (sping_exit, pps_state \<times> nat list \<times> bool list list) go" where
  "ppsTicker_turns fl dev waits enums w 0 r = r"
| "ppsTicker_turns fl dev waits enums w (Suc n) r =
     bind_go (ppsTicker_turns fl dev waits enums w n r) (\<lambda>(st, sessionList, sent).
     bind_go (waitForPPSPulse fl dev n st) (\<lambda>(t, st).
       let (pulses, sessionList) = ppsClockTicker_turn (waits n) (enums n) sessionList w
       in Inr (st, sessionList, sent @ [pulses])))"

definition ppsClockTicker :: "pps_flags \<Rightarrow> pps_device \<Rightarrow> (nat \<Rightarrow> nat \<Rightarrow> bool) \<Rightarrow> (nat \<Rightarrow> nat list) \<Rightarrow> world \<Rightarrow> nat \<Rightarrow> pps_state
    \<Rightarrow> (sping_exit, pps_state \<times> nat list \<times> bool list list) go" where
  "ppsClockTicker fl dev waits enums w n st =
     ppsTicker_turns fl dev waits enums w n (bind_go (setupPPS fl dev st) (\<lambda>st. Inr (st, [], [])))"

section \<open>The device is set up once\<close>

definition captureAssert :: "pps_params \<Rightarrow> pps_params" where
  "captureAssert PP = PP\<lparr>pp_Mode := 0x11, pp_AssertNsec := 0, pp_AssertSec := 0\<rparr>"

lemma setupPPS_cases:
  "setupPPS fl dev st =
     (case pd_open dev (ppsPath fl) of
        None \<Rightarrow> Inl (Error FatalPPS)
      | Some fd \<Rightarrow>
          let PP = captureAssert (pd_getparams dev fd) in
          if pd_setparams dev fd PP \<noteq> 0 then Inl (Error FatalPPS)
          else Inr \<lparr>ppsFD = Some fd, pps_calls = pps_calls st @ [OpenDevice (ppsPath fl), GetParams fd, SetParams fd PP]\<rparr>)"
  by (auto simp: setupPPS_def called_def captureAssert_def Let_def split: option.split)

lemma ppsTicker_turns_stop: "ppsTicker_turns fl dev waits enums w n (Inl e) = Inl e"
  by (induction n) auto

lemma ppsTicker_turns_run:
  assumes "ppsFD st = Some fd"
  shows "\<exists>l sent. ppsTicker_turns fl dev waits enums w n (Inr (st, sessions, [])) =
      Inr (st\<lparr>pps_calls := pps_calls st @ replicate n (FetchPulse fd 3)\<rparr>, l, sent) \<and> length sent = n"
proof (induction n)
  case (Suc n)
  then show ?case
    using assms by (auto simp: waitForPPSPulse_def called_def ppsClockTicker_turn_def split_def Let_def simp flip: replicate_append_same)
qed simp

text \<open>
  C38. The PPS loop opens and configures the device once: started on a device that can be opened and
  accepts its parameters, \<open>n\<close> turns of \<open>ppsClockTicker\<close> never panic and make exactly the calls open, read
  the parameters, set them to capture the assert edge (mode 0x11) with a zero offset, and then one
  fetch with a timeout of three seconds per turn. On any other device the program ends before the
  first turn.
\<close>

theorem pps_setup_once:
  "case pd_open dev (ppsPath fl) of
      None \<Rightarrow> ppsClockTicker fl dev waits enums w n st = Inl (Error FatalPPS)
    | Some fd \<Rightarrow>
        let PP = captureAssert (pd_getparams dev fd) in
        if pd_setparams dev fd PP \<noteq> 0 then ppsClockTicker fl dev waits enums w n st = Inl (Error FatalPPS)
        else \<exists>l sent. length sent = n \<and> ppsClockTicker fl dev waits enums w n st =
          Inr (\<lparr>ppsFD = Some fd, pps_calls = pps_calls st @ [OpenDevice (ppsPath fl), GetParams fd, SetParams fd PP] @
            replicate n (FetchPulse fd 3)\<rparr>, l, sent)"
proof (cases "pd_open dev (ppsPath fl)")
  case None
  then show ?thesis by (simp add: ppsClockTicker_def setupPPS_cases ppsTicker_turns_stop)
next
  case (Some fd)
  let ?PP = "captureAssert (pd_getparams dev fd)"
  let ?st = "\<lparr>ppsFD = Some fd, pps_calls = pps_calls st @ [OpenDevice (ppsPath fl), GetParams fd, SetParams fd ?PP]\<rparr>"
  obtain l sent where "length sent = n" "ppsTicker_turns fl dev waits enums w n (Inr (?st, [], [])) =
      Inr (?st\<lparr>pps_calls := pps_calls ?st @ replicate n (FetchPulse fd 3)\<rparr>, l, sent)"
    using ppsTicker_turns_run [of ?st fd fl dev waits enums w n "[]"] by auto
  with Some show ?thesis by (auto simp: ppsClockTicker_def setupPPS_cases ppsTicker_turns_stop Let_def)
qed

end
