(* ===== verification/Sping_Split.thy ===== *)
theory Sping_Split
  imports Sping_Prom Sping_Pps
begin

text \<open>
  The two ends together: what one peer publishes about the direction it cannot see is what the
  other peer measures, and the pings that the whole sender loop emits, delivered in part, are
  reported by the receiver as exactly the loss that happened.
\<close>

section \<open>Both ends publish the same loss\<close>

text \<open>\<open>full s\<close>: every slot of the ring has been filled, so that loss is reported at all.\<close>

definition full :: "session \<Rightarrow> bool" where
  "full s \<longleftrightarrow> 0 \<notin> pi_ID ` set (LastAcks s)"

lemma measureOne_loss:
  assumes "unixEpoch \<le> rd_loss rd" and "full v"
  shows "\<exists>g'. measureOne ipString rd v g = Some g' \<and>
    promLoss g' (''rx'', ipString (PeerAddress v)) =
      Some (Ratio32 (missing (LastAcks v) (lossWindow 32 (pingID (rd_loss rd))))) \<and>
    promLoss g' (''tx'', ipString (PeerAddress v)) =
      Some (Ratio32 (missing (ps_LastAcks (LastRXPing v)) (lossWindow 32 (pingID (rd_loss rd)))))"
  using getLoss_eq [OF assms(1), of v "LastRXPing v"] assms(2)
  by (simp add: measureOne_def getStats_def full_def Let_def)

text \<open>
  C4. Split view: when a ping travels from one peer to the other, the transmit loss that the receiver then
  publishes for the sender is the receive loss that the sender publishes itself, measured in the
  same second. The receiver learns it from the table the ping carries.
\<close>

theorem split_view_agrees:
  assumes "world_ok wa" and "sessionMap wa sid = Some a" and "UDPActivated (heap wa ! a)"
    and "\<not> senderIdle timeStarted nowRX nowSt (heap wa ! a)"
    and "timeNowCorrected envA nowTX (clock wa) = Inr (t, cka)"
    and "marshalPing cd (outgoingPing nowID t (heap wa ! a)) = Some b"
    and "unmarshalPing cd b = Some (outgoingPing nowID t (heap wa ! a))"
    and "world_ok wb" and "sessionMap wb sid = Some p" and "UDPActivated (heap wb ! p)"
    and "timeNowCorrected envB nowB (clock wb) = Inr (tb, ckb)"
    and "handlePacket cd envB nowB waiting b src sock wb = Inr (out, wb')"
    and "full (heap wa ! a)" and "full (heap wb' ! p)"
    and "unixEpoch \<le> rd_loss rdA" and "unixEpoch \<le> rd_loss rdB" and "pingID (rd_loss rdA) = pingID (rd_loss rdB)"
  shows "\<exists>c ua wa' gA gB.
    sendPackets_turn cd envA timeStarted (nowRX, nowSt, nowID, nowTX) a wa = Inr (True, wa') \<and>
    wire wa' = wire wa @ [(c, b, ua)] \<and>
    measureOne ipString rdA (heap wa' ! a) gA0 = Some gA \<and>
    measureOne ipString rdB (heap wb' ! p) gB0 = Some gB \<and>
    promLoss gB (''tx'', ipString (PeerAddress (heap wb' ! p))) =
      promLoss gA (''rx'', ipString (PeerAddress (heap wa' ! a))) \<and>
    promLoss gA (''rx'', ipString (PeerAddress (heap wa' ! a))) \<noteq> None"
proof -
  let ?rx = "outgoingPing nowID t (heap wa ! a)" and ?sa = "(heap wa ! a)\<lparr>CurrentID := pingID nowID\<rparr>"
  have a: "a < length (heap wa)" and p: "p < length (heap wb)"
    using assms(1,2,8,9) by (simp_all add: world_ok_def table_okD)
  have okb: "session_ok (heap wb ! p)" using world_ok_session [OF assms(8,9)] .
  obtain c ua where trip: "sendPackets_turn cd envA timeStarted (nowRX, nowSt, nowID, nowTX) a wa =
      Inr (True, writeTo c b ua ((setSession a ?sa wa)\<lparr>clock := cka\<rparr>))"
    "wb' = setSession p (pinged tb ?rx src sock (heap wb ! p)) (wb\<lparr>clock := ckb\<rparr>)"
    using ping_trip [OF assms(1-11), of waiting src sock] assms(12) by auto
  have sb: "ps_LastAcks (LastRXPing (heap wb' ! p)) = LastAcks ?sa"
    using trip(2) p pinged_simps [OF okb] by (simp add: outgoingPing_def)
  have "full ?sa" using assms(13) by (simp add: full_def)
  then show ?thesis
    using trip(1) a sb assms(17) measureOne_loss [OF assms(15), of ?sa ipString gA0]
      measureOne_loss [OF assms(16,14), of ipString gB0]
    by auto
qed

lemma full_pinged:
  assumes "session_ok s" and "full s" and "ps_ID rx \<noteq> 0"
  shows "full (pinged t rx ua c s)"
proof -
  have hist: "full u \<longleftrightarrow> (\<forall>x \<in> set (ackHistory u). pi_ID x \<noteq> 0)" for u by (auto simp: full_def)
  have "set (tl (ackHistory s)) \<subseteq> set (ackHistory s)" by (cases "ackHistory s") auto
  with assms show ?thesis unfolding hist pinged_simps [OF assms(1)] by auto
qed

definition full_session :: session where
  "full_session = (heap active_world ! 0)\<lparr>LastAcks := replicate 32 (zero_pingInfo\<lparr>pi_ID := 9\<rparr>)\<rparr>"

definition full_world :: world where
  "full_world = setSession 0 full_session active_world"

lemma full_world_simps:
  "world_ok full_world" "sessionMap full_world 7 = Some 0" "heap full_world ! 0 = full_session"
  "UDPActivated full_session" "full full_session" "wire full_world = []" "LastRX full_session = zeroTime"
  "SessionID full_session = 7"
proof -
  have len: "heap active_world \<noteq> []" by (simp add: active_world_def demo_world_def)
  have ok: "session_ok (heap active_world ! 0)" "SessionID (heap active_world ! 0) = 7"
    using world_ok_session [OF active_world_ok active_world_session(1)] active_world_ok active_world_session(1)
    by (simp_all add: world_ok_def table_okD)
  then have "session_ok full_session" "SessionID full_session = 7"
    by (simp_all add: full_session_def session_ok_def ring_ok_def)
  then show "world_ok full_world" "SessionID full_session = 7"
    unfolding full_world_def by (simp_all add: world_ok_setSession [OF active_world_ok active_world_session(1)])
  show "sessionMap full_world 7 = Some 0" "UDPActivated full_session"
    using active_world_session by (simp_all add: full_world_def full_session_def)
  show "heap full_world ! 0 = full_session" using len by (simp add: full_world_def)
  show "full full_session" by (simp add: full_def full_session_def)
  show "wire full_world = []" "LastRX full_session = zeroTime"
    by (simp_all add: full_world_def full_session_def active_world_def demo_world_def demo_session_def zero_session_def)
qed

theorem split_view_agrees_witness:
  "\<exists>wa' wb' gA gB.
     let cd = demo_codec (Some (outgoingPing unixEpoch (unixEpoch + 1) full_session)) None;
         rd = \<lparr>rd_stats = \<lambda>_. unixEpoch, rd_loss = unixEpoch\<rparr>; g0 = \<lparr>promLatency = Map.empty, promLoss = Map.empty\<rparr> in
     sendPackets_turn cd demo_env unixEpoch (unixEpoch, unixEpoch, unixEpoch, unixEpoch) 0 full_world = Inr (True, wa') \<and>
     handlePacket cd demo_env unixEpoch True [1] demo_peer 1 full_world = Inr (PingRecorded 0, wb') \<and>
     measureOne (\<lambda>_. ''peer'') rd (heap wa' ! 0) g0 = Some gA \<and>
     measureOne (\<lambda>_. ''peer'') rd (heap wb' ! 0) g0 = Some gB \<and>
     promLoss gB (''tx'', ''peer'') = promLoss gA (''rx'', ''peer'')"
proof -
  let ?rx = "outgoingPing unixEpoch (unixEpoch + 1) full_session" and ?rd = "\<lparr>rd_stats = \<lambda>_. unixEpoch, rd_loss = unixEpoch\<rparr>"
  let ?cd = "demo_codec (Some ?rx) None" and ?g0 = "\<lparr>promLatency = Map.empty, promLoss = Map.empty\<rparr>"
  let ?wb' = "setSession 0 (pinged (unixEpoch + 1) ?rx demo_peer 1 full_session) (full_world\<lparr>clock := \<lparr>timeOffset = 1, lastSync = unixEpoch\<rparr>\<rparr>)"
  note w = full_world_simps(1,2)
  have act: "UDPActivated (heap full_world ! 0)" by (simp add: full_world_simps)
  have clk: "timeNowCorrected demo_env unixEpoch (clock full_world) = Inr (unixEpoch + 1, \<lparr>timeOffset = 1, lastSync = unixEpoch\<rparr>)"
    using active_world_clock by (simp add: full_world_def)
  have idle: "\<not> senderIdle unixEpoch unixEpoch unixEpoch (heap full_world ! 0)"
    by (simp add: senderIdle_def time_simps)
  have cd: "marshalPing ?cd (outgoingPing unixEpoch (unixEpoch + 1) (heap full_world ! 0)) = Some [1]"
    "unmarshalPing ?cd [1] = Some (outgoingPing unixEpoch (unixEpoch + 1) (heap full_world ! 0))"
    by (simp_all add: demo_codec_def full_world_simps)
  have recv: "handlePacket ?cd demo_env unixEpoch True [1] demo_peer 1 full_world = Inr (PingRecorded 0, ?wb')"
    using handlePacket_ping_run [OF w(1) clk cd(2)] act
    by (simp add: full_world_simps outgoingPing_def)
  have ok: "session_ok full_session" using world_ok_session [OF w] by (simp add: full_world_simps)
  have "0 < length (heap full_world)" by (simp add: full_world_def active_world_def demo_world_def)
  then have full: "full (heap ?wb' ! 0)"
    using full_pinged [OF ok full_world_simps(5)] by (simp add: outgoingPing_def pingID_secondID)
  have ids: "unixEpoch \<le> rd_loss ?rd" by simp
  show ?thesis
    using split_view_agrees [OF w act idle clk cd w act clk recv _ full ids ids refl, of "\<lambda>_. ''peer''" ?g0 ?g0] recv
    by (auto simp: full_world_simps Let_def)
qed

section \<open>The sender loop\<close>

text \<open>
  What the clocks show in one turn of \<open>sendPackets\<close>: the NTP side, the two readings of the sleep and
  the four readings of the turn itself.
\<close>

record turn_reading =
  tr_env :: clock_env
  tr_now :: Time
  tr_until :: Time
  tr_env' :: clock_env
  tr_turn :: "Time \<times> Time \<times> Time \<times> Time"

text \<open>The wait at the head of the loop: a pulse of the device or the sleep to the next whole second.\<close>

definition sendPackets_wait ::
  "pps_flags \<Rightarrow> pps_device \<Rightarrow> nat \<Rightarrow> turn_reading \<Rightarrow> world \<Rightarrow> pps_state \<Rightarrow> (sping_exit, world \<times> pps_state) go" where
  "sendPackets_wait fl dev k rd w st =
     (if usePPS fl then bind_go (waitForPPSPulse fl dev k st) (\<lambda>(t, st'). Inr (w, st'))
      else bind_go (sleepToTick (tr_env rd) (tr_now rd) (tr_until rd) (clock w)) (\<lambda>(u, ck). Inr (w\<lparr>clock := ck\<rparr>, st)))"

text \<open>\<open>n\<close> turns of the loop from turn \<open>k\<close> on; the flag tells whether the goroutine is still running.\<close>

fun sendPackets ::
  "codec \<Rightarrow> pps_flags \<Rightarrow> pps_device \<Rightarrow> Time \<Rightarrow> (nat \<Rightarrow> turn_reading) \<Rightarrow> nat \<Rightarrow> nat \<Rightarrow> nat \<Rightarrow> world \<Rightarrow> pps_state
     \<Rightarrow> (sping_exit, bool \<times> world \<times> pps_state) go" where
  "sendPackets cd fl dev timeStarted rds a k 0 w st = Inr (True, w, st)"
| "sendPackets cd fl dev timeStarted rds a k (Suc n) w st =
     bind_go (sendPackets_wait fl dev k (rds k) w st) (\<lambda>(w1, st1).
     bind_go (sendPackets_turn cd (tr_env' (rds k)) timeStarted (tr_turn (rds k)) a w1) (\<lambda>(goesOn, w2).
       if goesOn then sendPackets cd fl dev timeStarted rds a (Suc k) n w2 st1 else Inr (False, w2, st1)))"

text \<open>Clock readings never end the program: the NTP side stays within the accepted offset.\<close>

definition clock_usable :: "clock_env \<Rightarrow> bool" where
  "clock_usable env \<longleftrightarrow> (\<forall>ck. \<exists>off ck'. getTimeOffset env ck = Inr (off, ck'))"

lemma clock_usable_now: "clock_usable env \<Longrightarrow> \<exists>t ck'. timeNowCorrected env now ck = Inr (t, ck')"
  unfolding clock_usable_def timeNowCorrected_def by (metis (no_types, lifting) bind_go_simps(1) case_prod_conv)

lemma sendPackets_wait_runs:
  assumes "clock_usable (tr_env rd)" and "usePPS fl \<longrightarrow> ppsFD st \<noteq> None" and "world_ok w"
  shows "\<exists>ck st'. sendPackets_wait fl dev k rd w st = Inr (w\<lparr>clock := ck\<rparr>, st') \<and>
    (usePPS fl \<longrightarrow> ppsFD st' \<noteq> None) \<and> timeOffset ck \<le> Second"
proof (cases "usePPS fl")
  case True
  then obtain fd where "ppsFD st = Some fd" using assms(2) by auto
  with True show ?thesis using assms(3)
    by (intro exI [of _ "clock w"])
      (auto simp: sendPackets_wait_def waitForPPSPulse_def called_def split_def Let_def world_ok_def)
next
  case False
  obtain t ck where ck: "timeNowCorrected (tr_env rd) (tr_now rd) (clock w) = Inr (t, ck)"
    using clock_usable_now [OF assms(1)] by blast
  have "timeOffset ck \<le> Second"
    using handlePacket_clock [OF assms(3) ck] by (simp add: world_ok_def)
  with ck False show ?thesis by (auto simp: sendPackets_wait_def sleepToTick_def Let_def)
qed

text \<open>The codec decodes the pings of a session as they were encoded.\<close>

definition codec_keeps :: "codec \<Rightarrow> session \<Rightarrow> bool" where
  "codec_keeps cd s \<longleftrightarrow> (\<forall>nowID t. \<exists>b. marshalPing cd (outgoingPing nowID t s) = Some b \<and>
     unmarshalPing cd b = Some (outgoingPing nowID t s))"

definition turn_sends :: "Time \<Rightarrow> session \<Rightarrow> turn_reading \<Rightarrow> bool" where
  "turn_sends timeStarted s rd \<longleftrightarrow> clock_usable (tr_env rd) \<and> clock_usable (tr_env' rd) \<and>
     (case tr_turn rd of (nowRX, nowSt, nowID, nowTX) \<Rightarrow> \<not> senderIdle timeStarted nowRX nowSt s)"

definition turn_second :: "turn_reading \<Rightarrow> int" where
  "turn_second rd = (case tr_turn rd of (nowRX, nowSt, nowID, nowTX) \<Rightarrow> time_Unix nowID)"

definition pings_of :: "session \<Rightarrow> int \<Rightarrow> pingStruct set" where
  "pings_of s u = {outgoingPing nowID t s | nowID t. time_Unix nowID = u}"

lemma CurrentID_irrelevant [simp]:
  "outgoingPing nowID t (s\<lparr>CurrentID := i\<rparr>) = outgoingPing nowID t s"
  "senderIdle ts x y (s\<lparr>CurrentID := i\<rparr>) = senderIdle ts x y s"
  "codec_keeps cd (s\<lparr>CurrentID := i\<rparr>) = codec_keeps cd s"
  "turn_sends ts (s\<lparr>CurrentID := i\<rparr>) rd = turn_sends ts s rd"
  "pings_of (s\<lparr>CurrentID := i\<rparr>) u = pings_of s u"
  "session_ok (s\<lparr>CurrentID := i\<rparr>) = session_ok s"
  by (simp_all add: outgoingPing_def senderIdle_def codec_keeps_def turn_sends_def pings_of_def session_ok_def ring_ok_def)

lemma sendPackets_turn_run:
  assumes "world_ok w" and "sessionMap w sid = Some a" and "UDPActivated (heap w ! a)"
    and "codec_keeps cd (heap w ! a)" and "turn_sends timeStarted (heap w ! a) rd"
  shows "\<exists>w' c b ua rx i. sendPackets_turn cd (tr_env' rd) timeStarted (tr_turn rd) a w = Inr (True, w') \<and>
    wire w' = wire w @ [(c, b, ua)] \<and> unmarshalPing cd b = Some rx \<and> rx \<in> pings_of (heap w ! a) (turn_second rd) \<and>
    world_ok w' \<and> sessionMap w' = sessionMap w \<and> heap w' ! a = (heap w ! a)\<lparr>CurrentID := i\<rparr>"
proof -
  obtain nowRX nowSt nowID nowTX where rd: "tr_turn rd = (nowRX, nowSt, nowID, nowTX)" by (cases "tr_turn rd")
  have ok: "session_ok (heap w ! a)" and a: "a < length (heap w)" "SessionID (heap w ! a) = sid"
    using assms(1,2) world_ok_session by (simp_all add: world_ok_def table_okD)
  have idle: "\<not> senderIdle timeStarted nowRX nowSt (heap w ! a)" using assms(5) by (simp add: turn_sends_def rd)
  obtain t ck where ck: "timeNowCorrected (tr_env' rd) nowTX (clock w) = Inr (t, ck)"
    using clock_usable_now assms(5) by (force simp: turn_sends_def)
  obtain b where b: "marshalPing cd (outgoingPing nowID t (heap w ! a)) = Some b"
    "unmarshalPing cd b = Some (outgoingPing nowID t (heap w ! a))"
    using assms(4) by (auto simp: codec_keeps_def)
  obtain c ua where run: "sendPackets_turn cd (tr_env' rd) timeStarted (tr_turn rd) a w =
      Inr (True, writeTo c b ua ((setSession a ((heap w ! a)\<lparr>CurrentID := pingID nowID\<rparr>) w)\<lparr>clock := ck\<rparr>))"
    using sendPackets_turn_sends [OF ok assms(3) idle ck b(1)] by (auto simp: rd)
  let ?w1 = "setSession a ((heap w ! a)\<lparr>CurrentID := pingID nowID\<rparr>) w"
  have "world_ok ?w1" using world_ok_setSession [OF assms(1,2)] ok a by simp
  then have "world_ok (?w1\<lparr>clock := ck\<rparr>)"
    using handlePacket_clock [of ?w1 "tr_env' rd" nowTX t ck] ck by simp
  then show ?thesis using run b(2) a by (auto simp: pings_of_def turn_second_def rd)
qed

lemma sendPackets_runs:
  assumes "world_ok w" and "sessionMap w sid = Some a" and "UDPActivated (heap w ! a)"
    and "codec_keeps cd (heap w ! a)" and "\<forall>j < n. turn_sends timeStarted (heap w ! a) (rds (k + j))"
    and "usePPS fl \<longrightarrow> ppsFD st \<noteq> None"
  shows "\<exists>w' st' sent. sendPackets cd fl dev timeStarted rds a k n w st = Inr (True, w', st') \<and>
    wire w' = wire w @ sent \<and> length sent = n \<and>
    (\<forall>j < n. \<exists>rx \<in> pings_of (heap w ! a) (turn_second (rds (k + j))). unmarshalPing cd (fst (snd (sent ! j))) = Some rx)"
  using assms
proof (induction n arbitrary: k w st)
  case 0
  then show ?case by simp
next
  case (Suc n)
  have now: "turn_sends timeStarted (heap w ! a) (rds k)" using Suc.prems(5) by force
  then have "clock_usable (tr_env (rds k))" by (simp add: turn_sends_def)
  then obtain ck st1 where wait: "sendPackets_wait fl dev k (rds k) w st = Inr (w\<lparr>clock := ck\<rparr>, st1)"
    "usePPS fl \<longrightarrow> ppsFD st1 \<noteq> None" "timeOffset ck \<le> Second"
    using sendPackets_wait_runs [OF _ Suc.prems(6,1)] by blast
  let ?w1 = "w\<lparr>clock := ck\<rparr>"
  have w1: "world_ok ?w1" using Suc.prems(1) wait(3) by (simp add: world_ok_def)
  obtain w2 c b ua rx i where turn: "sendPackets_turn cd (tr_env' (rds k)) timeStarted (tr_turn (rds k)) a ?w1 = Inr (True, w2)"
    "wire w2 = wire w @ [(c, b, ua)]" "unmarshalPing cd b = Some rx" "rx \<in> pings_of (heap w ! a) (turn_second (rds k))"
    "world_ok w2" "sessionMap w2 = sessionMap w" "heap w2 ! a = (heap w ! a)\<lparr>CurrentID := i\<rparr>"
    using sendPackets_turn_run [OF w1, of sid a cd timeStarted "rds k"] Suc.prems(2-4) now by auto
  have "\<forall>j < n. turn_sends timeStarted (heap w2 ! a) (rds (Suc k + j))" using Suc.prems(5) turn(7) by force
  then obtain w' st' sent where "sendPackets cd fl dev timeStarted rds a (Suc k) n w2 st1 = Inr (True, w', st')"
    "wire w' = wire w2 @ sent" "length sent = n"
    "\<forall>j < n. \<exists>rx \<in> pings_of (heap w ! a) (turn_second (rds (Suc k + j))). unmarshalPing cd (fst (snd (sent ! j))) = Some rx"
    using Suc.IH [of w2 "Suc k" st1] Suc.prems(2-4) turn wait(2) by auto
  with wait(1) turn show ?case
    by (intro exI [of _ w'] exI [of _ st'] exI [of _ "(c, b, ua) # sent"]) (auto simp: less_Suc_eq_0_disj)
qed

section \<open>The receiver\<close>

text \<open>A packet handed to \<open>handlePacket\<close>, with the clock of its handler.\<close>

record arrival =
  ar_env :: clock_env
  ar_now :: Time
  ar_waiting :: bool
  ar_from :: UDPAddr

fun receiveAll :: "codec \<Rightarrow> conn \<Rightarrow> (arrival \<times> bytes) list \<Rightarrow> world \<Rightarrow> (sping_exit, world) go" where
  "receiveAll cd c [] w = Inr w"
| "receiveAll cd c ((ar, buf) # ds) w =
     bind_go (handlePacket cd (ar_env ar) (ar_now ar) (ar_waiting ar) buf (ar_from ar) c w)
       (\<lambda>(out, w'). receiveAll cd c ds w')"

lemma pinged_ok:
  assumes "session_ok s" and "UDPActivated s"
  shows "session_ok (pinged t rx ua c s)" "SessionID (pinged t rx ua c s) = SessionID s"
    "UDPActivated (pinged t rx ua c s)"
proof -
  let ?p = "\<lparr>pi_ID = ps_ID rx, pi_TX = ps_TXTime rx, pi_RX = t\<rparr>"
  obtain s1 where s1: "recordAck ?p s = Inr s1" using assms(1) recordAck_Inr by (auto simp: session_ok_def)
  show "session_ok (pinged t rx ua c s)" "SessionID (pinged t rx ua c s) = SessionID s"
    using recordAck_session_ok [OF assms s1] by (simp_all add: pinged_def s1)
  have "UDPActivated s1 = UDPActivated s" by (subst recordAck_frame [OF s1]) simp
  then show "UDPActivated (pinged t rx ua c s)" using assms(2) by (simp add: pinged_def s1)
qed

definition ping_for :: "u32 \<Rightarrow> pingStruct \<Rightarrow> bool" where
  "ping_for sid rx \<longleftrightarrow> ps_Magic rx = 11181 \<and> ps_Type rx = 116 \<and> ps_Session rx = sid"

lemma receiveAll_pings:
  assumes "world_ok w" and "sessionMap w sid = Some p" and "UDPActivated (heap w ! p)"
    and "\<forall>(ar, buf) \<in> set ds. clock_usable (ar_env ar)"
    and "map (\<lambda>(ar, buf). unmarshalPing cd buf) ds = map Some rxs" and "\<forall>rx \<in> set rxs. ping_for sid rx"
  shows "\<exists>w'. receiveAll cd c ds w = Inr w' \<and>
    map pi_ID (ackHistory (heap w' ! p)) = drop (length ds) (map pi_ID (ackHistory (heap w ! p)) @ map ps_ID rxs)"
  using assms
proof (induction ds arbitrary: w rxs)
  case Nil
  then show ?case by simp
next
  case (Cons d ds)
  obtain ar buf where d: "d = (ar, buf)" by (cases d)
  obtain rx rest where rxs: "rxs = rx # rest" using Cons.prems(5) by (cases rxs) auto
  have ok: "session_ok (heap w ! p)" and p: "p < length (heap w)" "SessionID (heap w ! p) = sid"
    using Cons.prems(1,2) world_ok_session by (simp_all add: world_ok_def table_okD)
  obtain t ck where ck: "timeNowCorrected (ar_env ar) (ar_now ar) (clock w) = Inr (t, ck)"
    using clock_usable_now Cons.prems(4) d by fastforce
  let ?s = "pinged t rx (ar_from ar) c (heap w ! p)" and ?w1 = "w\<lparr>clock := ck\<rparr>"
  have run: "handlePacket cd (ar_env ar) (ar_now ar) (ar_waiting ar) buf (ar_from ar) c w = Inr (PingRecorded p, setSession p ?s ?w1)"
    using handlePacket_ping_run [OF Cons.prems(1) ck, of cd buf rx] Cons.prems d rxs by (simp add: ping_for_def)
  have "world_ok (setSession p ?s ?w1)"
    using world_ok_setSession [OF handlePacket_clock [OF Cons.prems(1) ck]] Cons.prems(2)
      pinged_ok [OF ok Cons.prems(3)] p by simp
  then obtain w' where "receiveAll cd c ds (setSession p ?s ?w1) = Inr w'"
    "map pi_ID (ackHistory (heap w' ! p)) = drop (length ds) (map pi_ID (ackHistory ?s) @ map ps_ID rest)"
    using Cons.IH [of "setSession p ?s ?w1" rest] Cons.prems pinged_ok(3) [OF ok Cons.prems(3)] p d rxs by auto
  moreover have "ackHistory (heap w ! p) \<noteq> []" using ok by (auto simp: session_ok_def ring_ok_def simp flip: length_0_conv)
  ultimately show ?case
    using run d rxs by (cases "ackHistory (heap w ! p)") (auto simp: pinged_simps [OF ok])
qed

section \<open>From end to end\<close>

lemma time_Unix_nonneg_iff: "0 \<le> time_Unix t \<longleftrightarrow> unixEpoch \<le> t"
  by (simp add: time_Unix_def Second_def pos_imp_zdiv_nonneg_iff)

lemma pings_of_fields:
  assumes "rx \<in> pings_of s u" and "0 \<le> u"
  shows "ps_ID rx = secondID u" and "ping_for (SessionID s) rx"
  using assms by (auto simp: pings_of_def outgoingPing_def ping_for_def pingID_secondID time_Unix_nonneg_iff)

lemma seconds_image: "(\<lambda>k. u + int k) ` set [0..<n] = {u..<u + int n}"
proof (intro equalityI subsetI)
  fix x assume "x \<in> {u..<u + int n}"
  then have "x = u + int (nat (x - u))" "nat (x - u) \<in> set [0..<n]" by auto
  then show "x \<in> (\<lambda>k. u + int k) ` set [0..<n]" by (rule image_eqI)
qed auto

lemma delivered_loss:
  assumes "world_ok wa" and "sessionMap wa sid = Some a" and "UDPActivated (heap wa ! a)"
    and "codec_keeps cd (heap wa ! a)" and "\<forall>j < n. turn_sends timeStarted (heap wa ! a) (rds j)"
    and "usePPS fl \<longrightarrow> ppsFD st \<noteq> None"
    and secs: "\<forall>j < n. turn_second (rds j) = u + int j" and "0 \<le> u"
    and "world_ok wb" and "sessionMap wb sid = Some p" and "UDPActivated (heap wb ! p)"
    and "\<forall>k. clock_usable (ar_env (ars k))"
    and ks: "sorted_wrt (<) ks" "set ks \<subseteq> {..<n}" "32 \<le> length ks"
    and "u + int n \<le> time_Unix now" and "time_Unix now \<le> u + 200"
  shows "\<exists>wa' st' sent wb' txl. sendPackets cd fl dev timeStarted rds a 0 n wa st = Inr (True, wa', st') \<and>
    wire wa' = wire wa @ sent \<and> length sent = n \<and>
    receiveAll cd sock (map (\<lambda>k. (ars k, fst (snd (sent ! k)))) ks) wb = Inr wb' \<and>
    getLoss now rx (heap wb' ! p) = Some (int (card
      ({time_Unix now - (if time_Unix now mod 255 < 31 then 30 else 31)..time_Unix now - 1} - (\<lambda>k. u + int k) ` set ks)),
      txl, 32)"
proof -
  have sid: "SessionID (heap wa ! a) = sid" using assms(1,2) by (simp add: world_ok_def table_okD)
  obtain wa' st' sent where send: "sendPackets cd fl dev timeStarted rds a 0 n wa st = Inr (True, wa', st')"
    "wire wa' = wire wa @ sent" "length sent = n"
    and dec: "\<forall>j < n. \<exists>rx \<in> pings_of (heap wa ! a) (turn_second (rds j)). unmarshalPing cd (fst (snd (sent ! j))) = Some rx"
    using sendPackets_runs [where dev = dev and n = n and timeStarted = timeStarted and rds = rds and k = 0,
        OF assms(1-4) _ assms(6)] assms(5) by auto
  then obtain rx' where rx': "\<forall>j < n. rx' j \<in> pings_of (heap wa ! a) (u + int j) \<and> unmarshalPing cd (fst (snd (sent ! j))) = Some (rx' j)"
    using secs by (metis (no_types, lifting))
  have fields: "ps_ID (rx' j) = secondID (u + int j) \<and> ping_for sid (rx' j)" if "j < n" for j
    using rx' that pings_of_fields [of "rx' j" "heap wa ! a" "u + int j"] assms(8) sid by simp
  let ?ds = "map (\<lambda>k. (ars k, fst (snd (sent ! k)))) ks" and ?ss = "map (\<lambda>k. u + int k) ks"
  have "\<forall>(ar, buf) \<in> set ?ds. clock_usable (ar_env ar)" using assms(12) by auto
  moreover have "map (\<lambda>(ar, buf). unmarshalPing cd buf) ?ds = map Some (map rx' ks)" using rx' ks(2) by auto
  moreover have "\<forall>rx \<in> set (map rx' ks). ping_for sid rx" using fields ks(2) by auto
  ultimately obtain wb' where recv: "receiveAll cd sock ?ds wb = Inr wb'"
    "map pi_ID (ackHistory (heap wb' ! p)) = drop (length ks) (map pi_ID (ackHistory (heap wb ! p)) @ map ps_ID (map rx' ks))"
    using receiveAll_pings [OF assms(9-11)] by (metis (no_types, lifting) length_map)
  have "length (ackHistory (heap wb ! p)) = 32"
    using world_ok_session [OF assms(9,10)] by (simp add: session_ok_def ring_ok_def)
  moreover have "map ps_ID (map rx' ks) = map secondID ?ss" using fields ks(2) by auto
  ultimately have hist: "map pi_ID (ackHistory (heap wb' ! p)) = map secondID (drop (length ?ss - 32) ?ss)"
    using recv(2) ks(3) by (auto simp: drop_map dest: in_set_dropD)
  have "sorted_wrt (<) ?ss" using ks(1) by (simp add: sorted_wrt_map)
  moreover have "set ?ss \<subseteq> {time_Unix now - 200..<time_Unix now}" using ks(2) assms(16,17) by auto
  moreover have "unixEpoch \<le> now" using assms(8,16) by (simp flip: time_Unix_nonneg_iff)
  ultimately show ?thesis
    using history_loss_exact [OF hist, of now rx] ks(3) send recv(1) by auto
qed

text \<open>
  C2. Loss is measured exactly, from end to end: the sender loop of one peer runs for \<open>n\<close> consecutive
  seconds and puts one datagram per turn on the wire; the network delivers any subsequence of at
  least 32 of them, and the other peer handles each. No turn and no handler fails, and the receive
  loss that the receiver then computes is the number of seconds of its window whose datagram was not
  delivered.
\<close>

theorem end_to_end_loss:
  assumes "world_ok wa" and "sessionMap wa sid = Some a" and "UDPActivated (heap wa ! a)"
    and "codec_keeps cd (heap wa ! a)" and "\<forall>j < n. turn_sends timeStarted (heap wa ! a) (rds j)"
    and "usePPS fl \<longrightarrow> ppsFD st \<noteq> None"
    and "\<forall>j < n. turn_second (rds j) = u + int j" and "0 \<le> u"
    and "world_ok wb" and "sessionMap wb sid = Some p" and "UDPActivated (heap wb ! p)"
    and "\<forall>k. clock_usable (ar_env (ars k))"
    and "sorted_wrt (<) ks" and "set ks \<subseteq> {..<n}" and "32 \<le> length ks"
    and "u + int n \<le> time_Unix now" and "time_Unix now \<le> u + 200"
  shows "\<exists>wa' st' sent wb' txl. sendPackets cd fl dev timeStarted rds a 0 n wa st = Inr (True, wa', st') \<and>
    wire wa' = wire wa @ sent \<and> length sent = n \<and>
    receiveAll cd sock (map (\<lambda>k. (ars k, fst (snd (sent ! k)))) ks) wb = Inr wb' \<and>
    getLoss now rx (heap wb' ! p) = Some (int (card
      ({time_Unix now - (if time_Unix now mod 255 < 31 then 30 else 31)..time_Unix now - 1} - (\<lambda>k. u + int k) ` set ks)),
      txl, 32)"
  using assms by (rule delivered_loss)

text \<open>A codec for the pings of one session: the id, the sign of the time stamp and its length in unary.\<close>

definition unary_codec :: "session \<Rightarrow> codec" where
  "unary_codec s = \<lparr>
     marshalPing = \<lambda>p. Some (ps_ID p # (if ps_TXTime p < 0 then 1 else 0) # replicate (nat \<bar>ps_TXTime p\<bar>) 0),
     unmarshalPing = \<lambda>b. (case b of
         i # sg # r \<Rightarrow> Some (outgoingPing unixEpoch (if sg = 1 then - int (length r) else int (length r)) s\<lparr>ps_ID := i\<rparr>)
       | _ \<Rightarrow> None),
     marshalHandshake = \<lambda>_. None, unmarshalHandshake = \<lambda>_. None\<rparr>"

lemma unary_codec_keeps: "codec_keeps (unary_codec s) s"
  by (auto simp: codec_keeps_def unary_codec_def outgoingPing_def)

lemma demo_env_usable: "clock_usable demo_env"
  by (auto simp: clock_usable_def getTimeOffset_def calibrateAgainstApple_def demo_env_def Second_def)

definition demo_turn :: "int \<Rightarrow> turn_reading" where
  "demo_turn s = \<lparr>tr_env = demo_env, tr_now = unixEpoch, tr_until = unixEpoch, tr_env' = demo_env,
     tr_turn = (unixEpoch, unixEpoch, unix_Time s 0, unixEpoch)\<rparr>"

lemma demo_turn_simps: "turn_second (demo_turn s) = s" "turn_sends unixEpoch ses (demo_turn s)"
  by (simp_all add: turn_second_def turn_sends_def demo_turn_def demo_env_usable senderIdle_def time_simps)

definition demo_arrival :: arrival where
  "demo_arrival = \<lparr>ar_env = demo_env, ar_now = unixEpoch, ar_waiting = False, ar_from = demo_peer\<rparr>"

definition demo_pps :: pps_device where
  "demo_pps = \<lparr>pd_open = \<lambda>_. None, pd_getparams = \<lambda>_. \<lparr>pp_Mode = 0, pp_AssertSec = 0, pp_AssertNsec = 0\<rparr>,
     pd_setparams = \<lambda>_ _. 0, pd_fetch = \<lambda>_ _. (0, 0, 0)\<rparr>"

lemma demo_arrival_usable: "\<forall>k :: nat. clock_usable (ar_env demo_arrival)"
  by (simp add: demo_arrival_def demo_env_usable)

text \<open>Forty turns of a sender with a full ring, one per second from second 100 on.\<close>

lemma demo_run:
  "world_ok full_world" "sessionMap full_world 7 = Some 0" "UDPActivated (heap full_world ! 0)"
  "codec_keeps (unary_codec full_session) (heap full_world ! 0)"
  "\<forall>j < 40. turn_sends unixEpoch (heap full_world ! 0) (demo_turn (100 + int j))"
  "usePPS default_pps_flags \<longrightarrow> ppsFD \<lparr>ppsFD = None, pps_calls = []\<rparr> \<noteq> None"
  "\<forall>j < 40. turn_second (demo_turn (100 + int j)) = 100 + int j" "0 \<le> (100 :: int)"
  "world_ok full_world" "sessionMap full_world 7 = Some 0" "UDPActivated (heap full_world ! 0)"
  by (simp_all add: full_world_simps unary_codec_keeps demo_turn_simps default_pps_flags_def)

theorem end_to_end_loss_witness:
  "\<exists>wa' st' sent wb' txl. sendPackets (unary_codec full_session) default_pps_flags demo_pps unixEpoch (\<lambda>j. demo_turn (100 + int j)) 0 0 40
        full_world \<lparr>ppsFD = None, pps_calls = []\<rparr> = Inr (True, wa', st') \<and> wire wa' = sent \<and>
     receiveAll (unary_codec full_session) 1 (map (\<lambda>k. (demo_arrival, fst (snd (sent ! k)))) [0..<35]) full_world = Inr wb' \<and>
     getLoss (unix_Time 140 0) zero_pingStruct (heap wb' ! 0) = Some (5, txl, 32)"
proof -
  have u: "time_Unix (unix_Time 140 0) = 140" by (simp add: Second_def)
  have "{109..139} - (\<lambda>k. 100 + int k) ` set [0..<35] = {135..139}" unfolding seconds_image by auto
  then have "card ({109..139} - (\<lambda>k. 100 + int k) ` set [0..<35]) = 5" by simp
  moreover have "140 - (if 140 mod 255 < (31 :: int) then 30 else 31) = (109 :: int)" "140 - 1 = (139 :: int)" by simp_all
  moreover have "sorted_wrt (<) [0..<35]" "set [0..<35] \<subseteq> {..<40}" "32 \<le> length [0..<35]"
    "100 + int 40 \<le> time_Unix (unix_Time 140 0)" "time_Unix (unix_Time 140 0) \<le> 100 + 200"
    by (auto simp: Second_def)
  ultimately show ?thesis
    using end_to_end_loss [OF demo_run, where ks = "[0..<35]" and now = "unix_Time 140 0" and ars = "\<lambda>_. demo_arrival"
        and dev = demo_pps and sock = 1 and rx = zero_pingStruct, OF demo_arrival_usable, unfolded u]
    by (simp only: of_nat_numeral full_world_simps(6) append_Nil) auto
qed

text \<open>
  The ids of pings come from the uncorrected system clock, at the sender and at the receiver.
  When every datagram arrives but the sender's clock is \<open>d\<close> seconds behind the receiver's, \<open>d\<close> lost pings are
  reported; none is reported when the clocks agree.
\<close>

theorem clock_skew_counted_as_loss:
  assumes "world_ok wa" and "sessionMap wa sid = Some a" and "UDPActivated (heap wa ! a)"
    and "codec_keeps cd (heap wa ! a)" and "\<forall>j < n. turn_sends timeStarted (heap wa ! a) (rds j)"
    and "usePPS fl \<longrightarrow> ppsFD st \<noteq> None"
    and "\<forall>j < n. turn_second (rds j) = u + int j" and "0 \<le> u"
    and "world_ok wb" and "sessionMap wb sid = Some p" and "UDPActivated (heap wb ! p)"
    and "\<forall>k. clock_usable (ar_env (ars k))"
    and "32 \<le> n" and "n + d \<le> 200" and "d \<le> 30" and "time_Unix now = u + int n + int d"
  shows "\<exists>wa' st' sent wb' txl. sendPackets cd fl dev timeStarted rds a 0 n wa st = Inr (True, wa', st') \<and>
    wire wa' = wire wa @ sent \<and> length sent = n \<and>
    receiveAll cd sock (map (\<lambda>k. (ars k, fst (snd (sent ! k)))) [0..<n]) wb = Inr wb' \<and>
    getLoss now rx (heap wb' ! p) = Some (int d, txl, 32)"
proof -
  let ?U = "time_Unix now"
  have "{?U - (if ?U mod 255 < 31 then 30 else 31)..?U - 1} - {u..<u + int n} = {u + int n..?U - 1}"
    using assms(13,15,16) by auto
  then have "card ({?U - (if ?U mod 255 < 31 then 30 else 31)..?U - 1} - (\<lambda>k. u + int k) ` set [0..<n]) = d"
    unfolding seconds_image using assms(16) by simp
  moreover have "sorted_wrt (<) [0..<n]" "set [0..<n] \<subseteq> {..<n}" "32 \<le> length [0..<n]"
    "u + int n \<le> ?U" "?U \<le> u + 200"
    using assms(13,14,16) by auto
  ultimately show ?thesis
    using delivered_loss [OF assms(1-12), of "[0..<n]" now dev sock rx] by simp
qed

theorem clock_skew_counted_as_loss_witness:
  "\<exists>wa' st' sent wb' txl. sendPackets (unary_codec full_session) default_pps_flags demo_pps unixEpoch (\<lambda>j. demo_turn (100 + int j)) 0 0 40
        full_world \<lparr>ppsFD = None, pps_calls = []\<rparr> = Inr (True, wa', st') \<and> wire wa' = sent \<and>
     receiveAll (unary_codec full_session) 1 (map (\<lambda>k. (demo_arrival, fst (snd (sent ! k)))) [0..<40]) full_world = Inr wb' \<and>
     getLoss (unix_Time 142 0) zero_pingStruct (heap wb' ! 0) = Some (2, txl, 32)"
proof -
  have h: "32 \<le> (40 :: nat)" "40 + 2 \<le> (200 :: nat)" "2 \<le> (30 :: nat)"
    "time_Unix (unix_Time 142 0) = 100 + int 40 + int 2"
    by (simp_all add: Second_def)
  show ?thesis
    using clock_skew_counted_as_loss [OF demo_run, where d = 2 and now = "unix_Time 142 0" and ars = "\<lambda>_. demo_arrival"
        and dev = demo_pps and sock = 1 and rx = zero_pingStruct, OF demo_arrival_usable h]
    unfolding of_nat_numeral full_world_simps(6) append_Nil by blast
qed

end
