(* ===== verification/Sping_Ring_Race.thy ===== *)
theory Sping_Ring_Race
  imports Sping_Packet
begin

text \<open>
  \<open>listenAndRoute\<close> starts a goroutine for every packet, so two pings of one session can be handled at
  the same time, and \<open>ses.LastAcks[ses.getNextAckSlot()] = pI\<close> runs without a lock. Here that
  statement is cut into its reads and writes of the shared session, and the handlers of several
  pings interleave in every order. The theorems tell when the ring position can leave the array.
\<close>

section \<open>The statement as a sequence of memory accesses\<close>

datatype ring_point =
    RingCheck         \<comment> \<open>\<open>s.nextAckSlot != 31\<close>\<close>
  | RingLoad          \<comment> \<open>reading \<open>s.nextAckSlot\<close> in \<open>s.nextAckSlot + 1\<close>\<close>
  | RingStore nat     \<comment> \<open>assigning the sum\<close>
  | RingReset         \<comment> \<open>\<open>s.nextAckSlot = 0\<close>\<close>
  | RingReturn        \<comment> \<open>\<open>return s.nextAckSlot\<close>\<close>
  | RingIndex nat     \<comment> \<open>the store into \<open>LastAcks\<close>\<close>
  | RingDone
  | RingPanic

fun ring_micro :: "pingInfo \<Rightarrow> ring_point \<Rightarrow> session \<Rightarrow> (ring_point \<times> session) option" where
  "ring_micro p RingCheck s = Some (if nextAckSlot s \<noteq> 31 then RingLoad else RingReset, s)"
| "ring_micro p RingLoad s = Some (RingStore (nextAckSlot s + 1), s)"
| "ring_micro p (RingStore n) s = Some (RingReturn, s\<lparr>nextAckSlot := n\<rparr>)"
| "ring_micro p RingReset s = Some (RingReturn, s\<lparr>nextAckSlot := 0\<rparr>)"
| "ring_micro p RingReturn s = Some (RingIndex (nextAckSlot s), s)"
| "ring_micro p (RingIndex k) s =
     Some (if k < length (LastAcks s) then (RingDone, s\<lparr>LastAcks := (LastAcks s)[k := p]\<rparr>) else (RingPanic, s))"
| "ring_micro p RingDone s = None"
| "ring_micro p RingPanic s = None"

record ring_sys =
  rs_ses :: session
  rs_threads :: "(pingInfo \<times> ring_point) list"

definition ring_panicked :: "ring_sys \<Rightarrow> bool" where
  "ring_panicked r = list_ex (\<lambda>x. snd x = RingPanic) (rs_threads r)"

text \<open>One access of the goroutine with index \<open>i\<close>; a panic ends the process.\<close>

definition ring_advance :: "nat \<Rightarrow> ring_sys \<Rightarrow> ring_sys option" where
  "ring_advance i r =
     (if ring_panicked r \<or> length (rs_threads r) \<le> i then None
      else let (p, pt) = rs_threads r ! i in
        map_option (\<lambda>(pt', s'). \<lparr>rs_ses = s', rs_threads = (rs_threads r)[i := (p, pt')]\<rparr>)
          (ring_micro p pt (rs_ses r)))"

inductive ring_step :: "ring_sys \<Rightarrow> ring_sys \<Rightarrow> bool" where
  ring_stepI: "ring_advance i r = Some r' \<Longrightarrow> ring_step r r'"

fun ring_schedule :: "nat list \<Rightarrow> ring_sys \<Rightarrow> ring_sys option" where
  "ring_schedule [] r = Some r"
| "ring_schedule (i # is) r = (case ring_advance i r of None \<Rightarrow> None | Some r' \<Rightarrow> ring_schedule is r')"

definition ring_start :: "session \<Rightarrow> pingInfo list \<Rightarrow> ring_sys" where
  "ring_start s ps = \<lparr>rs_ses = s, rs_threads = map (\<lambda>p. (p, RingCheck)) ps\<rparr>"

lemma ring_schedule_steps: "ring_schedule is r = Some r' \<Longrightarrow> steps_to ring_step r r'"
proof (induction "is" arbitrary: r)
  case Nil
  then show ?case by (simp add: steps_to.here)
next
  case (Cons i "is")
  then obtain q where "ring_advance i r = Some q" "steps_to ring_step q r'"
    by (auto split: option.splits)
  then show ?case by (blast intro: steps_to_first ring_stepI)
qed

section \<open>One handler at a time\<close>

text \<open>
  A handler that is not disturbed performs \<open>recordAck\<close>: the handlers of the other theories, which
  record a ping in one step, are this machine with a single goroutine.
\<close>

lemma ring_alone:
  assumes "recordAck p s = Inr s'"
  shows "steps_to ring_step (ring_start s [p]) \<lparr>rs_ses = s', rs_threads = [(p, RingDone)]\<rparr>"
proof -
  have "ring_schedule (if nextAckSlot s \<noteq> 31 then [0, 0, 0, 0, 0] else [0, 0, 0, 0]) (ring_start s [p]) =
      Some \<lparr>rs_ses = s', rs_threads = [(p, RingDone)]\<rparr>"
    using assms
    by (auto simp: recordAck_def getNextAckSlot_def store_def ring_start_def ring_advance_def ring_panicked_def
        Let_def split: if_splits)
  then show ?thesis by (rule ring_schedule_steps)
qed

section \<open>Several handlers\<close>

text \<open>
  The handlers that have not assigned the position yet; each of them can still raise it by one.
\<close>

fun undecided :: "ring_point \<Rightarrow> bool" where
  "undecided RingCheck = True"
| "undecided RingLoad = True"
| "undecided (RingStore n) = True"
| "undecided RingReset = True"
| "undecided pt = False"

definition pending :: "ring_sys \<Rightarrow> nat" where
  "pending r = length (filter (\<lambda>x. undecided (snd x)) (rs_threads r))"

fun point_below :: "nat \<Rightarrow> ring_point \<Rightarrow> bool" where
  "point_below m (RingStore n) = (n \<le> m + 1)"
| "point_below m (RingIndex k) = (k \<le> m)"
| "point_below m RingPanic = False"
| "point_below m pt = True"

text \<open>
  With a budget \<open>b\<close>, the position and every position a handler carries stay below it, less one for
  each handler that may still raise it.
\<close>

definition ring_inv :: "nat \<Rightarrow> ring_sys \<Rightarrow> bool" where
  "ring_inv b r \<longleftrightarrow> length (LastAcks (rs_ses r)) = 32 \<and> nextAckSlot (rs_ses r) + pending r \<le> b \<and>
     (\<forall>x \<in> set (rs_threads r). point_below (b - pending r) (snd x))"

lemma point_below_mono: "point_below m pt \<Longrightarrow> m \<le> m' \<Longrightarrow> point_below m' pt"
  by (cases pt) auto

lemma pending_update:
  assumes "i < length (rs_threads r)" and "rs_threads r ! i = (p, pt)"
  shows "pending \<lparr>rs_ses = s, rs_threads = (rs_threads r)[i := (p, pt')]\<rparr> + (if undecided pt then 1 else 0) =
    pending r + (if undecided pt' then 1 else 0)"
proof -
  obtain xs ys where "rs_threads r = xs @ (p, pt) # ys" "length xs = i"
    using assms id_take_nth_drop [of i "rs_threads r"] by force
  then show ?thesis by (auto simp: pending_def)
qed

lemma ring_advance_cases:
  assumes "ring_advance i r = Some r'"
  obtains p pt pt' s' where "i < length (rs_threads r)" "rs_threads r ! i = (p, pt)"
    "ring_micro p pt (rs_ses r) = Some (pt', s')"
    "r' = \<lparr>rs_ses = s', rs_threads = (rs_threads r)[i := (p, pt')]\<rparr>" "\<not> ring_panicked r"
  using assms by (cases "rs_threads r ! i") (auto simp: ring_advance_def split: if_splits)

lemma ring_inv_advance:
  assumes adv: "ring_advance i r = Some r'" and inv: "ring_inv b r" and b: "b < 32"
  shows "ring_inv b r'"
  using adv
proof (cases rule: ring_advance_cases)
  case (1 p pt pt' s')
  let ?c = "pending r" and ?c' = "pending r'"
  have upd: "?c' + (if undecided pt then 1 else 0) = ?c + (if undecided pt' then 1 else 0)"
    using pending_update [OF 1(1,2)] 1(4) by simp
  have pt: "point_below (b - ?c) pt"
    using inv 1(1,2) nth_mem [of i "rs_threads r"] by (auto simp: ring_inv_def)
  have slot: "nextAckSlot (rs_ses r) + ?c \<le> b" "length (LastAcks (rs_ses r)) = 32"
    using inv by (simp_all add: ring_inv_def)
  have "undecided pt \<Longrightarrow> 0 < ?c"
    using 1(1,2) nth_mem [of i "rs_threads r"] by (auto simp: pending_def filter_empty_conv intro!: bexI [of _ "(p, pt)"])
  then have "length (LastAcks s') = 32 \<and> nextAckSlot s' + ?c' \<le> b \<and> point_below (b - ?c') pt' \<and> ?c' \<le> ?c"
    using upd pt slot b 1(3) by (cases pt) (auto split: if_splits)
  moreover have "\<forall>x \<in> set (rs_threads r). point_below (b - ?c') (snd x)"
    if "?c' \<le> ?c" using inv point_below_mono that by (fastforce simp: ring_inv_def)
  ultimately show ?thesis
    using 1(4) by (auto simp: ring_inv_def dest!: set_update_subset_insert [THEN subsetD])
qed

interpretation ring_bounded: inductive_invariant ring_step "\<lambda>r. ring_inv b r \<and> b < 32" for b
  by unfold_locales (auto elim!: ring_step.cases intro: ring_inv_advance)

lemma ring_inv_no_panic: "ring_inv b r \<Longrightarrow> \<not> ring_panicked r"
  by (auto simp: ring_inv_def ring_panicked_def list_ex_iff)

lemma ring_inv_start:
  "ring_ok s \<Longrightarrow> nextAckSlot s + length ps \<le> b \<Longrightarrow> ring_inv b (ring_start s ps)"
  by (auto simp: ring_inv_def ring_start_def ring_ok_def pending_def comp_def filter_map)

lemma ring_race:
  assumes "ring_ok s" and "nextAckSlot s = 30"
  shows "\<exists>r. ring_schedule [0, 1, 0, 0, 1, 1, 1, 1] (ring_start s (p # q # ps)) = Some r \<and> ring_panicked r"
  using assms
  by (simp add: ring_start_def ring_advance_def ring_panicked_def ring_ok_def list_ex_iff)

text \<open>
  C7. Pings of one session that are handled at the same time: as long as the ring position plus
  the number of handlers stays within the array, no interleaving of their memory accesses panics.
  But from position 30 two handlers are enough to crash the process: both see a position
  other than 31, both add one, and the second one indexes the array of 32 at 32.
\<close>

theorem concurrent_pings:
  assumes "ring_ok s"
  shows "(nextAckSlot s + length ps < 32 \<longrightarrow>
      (\<forall>r. steps_to ring_step (ring_start s ps) r \<longrightarrow> \<not> ring_panicked r)) \<and>
    (nextAckSlot s = 30 \<and> 2 \<le> length ps \<longrightarrow>
      (\<exists>r. steps_to ring_step (ring_start s ps) r \<and> ring_panicked r))"
proof (intro conjI impI allI)
  fix r assume "nextAckSlot s + length ps < 32" "steps_to ring_step (ring_start s ps) r"
  then show "\<not> ring_panicked r"
    using ring_bounded.inv_steps [where b = 31] ring_inv_start [OF assms, of ps 31] ring_inv_no_panic by auto
next
  assume two: "nextAckSlot s = 30 \<and> 2 \<le> length ps"
  then obtain p q qs where "ps = p # q # qs" by (cases ps; cases "tl ps") auto
  then show "\<exists>r. steps_to ring_step (ring_start s ps) r \<and> ring_panicked r"
    using ring_race [OF assms] two ring_schedule_steps by metis
qed

theorem concurrent_pings_witness:
  "\<exists>r. steps_to ring_step (ring_start (zero_session\<lparr>nextAckSlot := 30\<rparr>) [zero_pingInfo, zero_pingInfo]) r \<and> ring_panicked r"
  using concurrent_pings [of "zero_session\<lparr>nextAckSlot := 30\<rparr>" "[zero_pingInfo, zero_pingInfo]"]
  by (simp add: ring_ok_def zero_session_def)

text \<open>
  Short of a crash, two handlers can use the same slot: both answer for a recorded ping, but the ring
  has moved by one and keeps only the second, so the first counts as lost.
\<close>

lemma concurrent_pings_lose_ack:
  assumes "ring_ok s" and "nextAckSlot s < 31"
  shows "steps_to ring_step (ring_start s [p, q])
    \<lparr>rs_ses = s\<lparr>nextAckSlot := nextAckSlot s + 1, LastAcks := (LastAcks s)[nextAckSlot s + 1 := q]\<rparr>,
     rs_threads = [(p, RingDone), (q, RingDone)]\<rparr>"
  by (rule ring_schedule_steps [of "[0, 1, 0, 1, 0, 1, 0, 1, 0, 1]"])
    (use assms in \<open>simp add: ring_start_def ring_advance_def ring_panicked_def ring_ok_def\<close>)

end
