(* ===== verification/Sping_System.thy ===== *)
theory Sping_System
  imports Sping_Prom Sping_Ring_Race
begin

text \<open>
  The running process: the world together with all goroutines that \<open>main.go\<close> and \<open>sessionhandle.go\<close> start,
  interleaved between their accesses to shared memory. Every packet has a goroutine of its own, as
  \<open>go handlePacket\<close> starts it, which runs without a lock and can be interrupted before each read or
  write of a session, of the table or of a channel; the two sides of the TCP invitation release the table's lock
  between the insertion of a session and \<open>go sessionMap[id].f()\<close>; a sender, a handshake goroutine and the collector are cut at their
  accesses as well. A panic or a fatal error of any goroutine ends the process. One access each are: a
  reading of the corrected clock, the copy of the array \<open>LastAcks\<close>, the insertion of a session under
  the lock and a turn of the tickers. The sleep of a sender has the effect of a turn of \<open>main\<close>'s loop, which may happen at any time.
  The theory also shows that the uninterrupted goroutines are the handlers of the other theories.
\<close>

section \<open>Goroutines of a session\<close>

datatype role = Initiator | Responder

text \<open>Where a turn of \<open>sendPackets\<close> is; from \<open>SendReply\<close> on it carries the marshalled packet.\<close>

datatype send_point = SendCheck | SendID | SendBuild | SendReply bytes | SendWrite bytes

datatype goroutine =
    HandshakeInit role nat | HandshakeSelect role nat | HandshakeTick role nat | HandshakeSend nat
  | Activating nat | Sending Time nat send_point

primrec gAddr :: "goroutine \<Rightarrow> nat" where
  "gAddr (HandshakeInit r a) = a"
| "gAddr (HandshakeSelect r a) = a"
| "gAddr (HandshakeTick r a) = a"
| "gAddr (HandshakeSend a) = a"
| "gAddr (Activating a) = a"
| "gAddr (Sending t a pt) = a"

fun selectsOn :: "nat \<Rightarrow> goroutine \<Rightarrow> bool" where
  "selectsOn a (HandshakeSelect r b) = (b = a)"
| "selectsOn a g = False"

text \<open>
  One access of \<open>sendPackets\<close>: the check for a silent peer, the new id, the packet with the clock
  reading and the copied table, the check of \<open>ReplyTo\<close>, and the datagram (which reads \<open>ReplyWith\<close> and \<open>ReplyTo\<close>
  again). \<open>None\<close> is the end of the goroutine.
\<close>

fun send_micro ::
  "codec \<Rightarrow> clock_env \<Rightarrow> Time \<Rightarrow> Time \<Rightarrow> Time \<Rightarrow> nat \<Rightarrow> send_point \<Rightarrow> world \<Rightarrow> (sping_exit, send_point option \<times> world) go" where
  "send_micro cd env now now2 timeStarted a SendCheck w =
     Inr (if time_Since now (LastRX (heap w ! a)) > Second * 60 \<and> time_Since now2 timeStarted > Second * 10
          then None else Some SendID, w)"
| "send_micro cd env now now2 timeStarted a SendID w =
     Inr (Some SendBuild, setSession a ((heap w ! a)\<lparr>CurrentID := pingID now\<rparr>) w)"
| "send_micro cd env now now2 timeStarted a SendBuild w =
     bind_go (timeNowCorrected env now (clock w)) (\<lambda>(t, ck).
       let s = heap w ! a;
           packet = \<lparr>ps_Type = 116, ps_Magic = 11181, ps_Session = SessionID s, ps_ID = CurrentID s,
                     ps_TXTime = t, ps_SendersError = 0, ps_LastAcks = LastAcks s\<rparr>
       in case marshalPing cd packet of
            None \<Rightarrow> Inl (Error FatalMarshal)
          | Some b \<Rightarrow> Inr (Some (SendReply b), w\<lparr>clock := ck\<rparr>))"
| "send_micro cd env now now2 timeStarted a (SendReply b) w =
     Inr (if ReplyTo (heap w ! a) \<noteq> None then Some (SendWrite b) else Some SendCheck, w)"
| "send_micro cd env now now2 timeStarted a (SendWrite b) w =
     (case ReplyWith (heap w ! a) of
        None \<Rightarrow> Inl (Panic NilDereference)
      | Some c \<Rightarrow> Inr (Some SendCheck, case ReplyTo (heap w ! a) of None \<Rightarrow> w | Some ua \<Rightarrow> writeTo c b ua w))"

text \<open>
  One access of a goroutine of a session. In the select only the ticker is an access of its own; the
  other branch is taken together with the goroutine that sends on the channel.
\<close>

fun proc_micro ::
  "codec \<Rightarrow> clock_env \<Rightarrow> Time \<Rightarrow> Time \<Rightarrow> goroutine \<Rightarrow> world \<Rightarrow> (sping_exit, goroutine option \<times> world) go" where
  "proc_micro cd env now now2 (HandshakeInit Responder a) w = Inr (Some (HandshakeSelect Responder a), w)"
| "proc_micro cd env now now2 (HandshakeInit Initiator a) w =
     bind_go (sendUDPHandshake_init a w) (\<lambda>w'. Inr (Some (HandshakeSelect Initiator a), w'))"
| "proc_micro cd env now now2 (HandshakeSelect r a) w = Inr (Some (HandshakeTick r a), w)"
| "proc_micro cd env now now2 (HandshakeTick r a) w =
     Inr (if waitForHandshake_tick now a w
          then Some (case r of Initiator \<Rightarrow> HandshakeSend a | Responder \<Rightarrow> HandshakeSelect Responder a) else None, w)"
| "proc_micro cd env now now2 (HandshakeSend a) w =
     (let s = heap w ! a;
          hs = \<lparr>hs_Type = 104, hs_Magic = 11181, hs_Version = 3, hs_Session = SessionID s\<rparr> in
      case marshalHandshake cd hs of
        None \<Rightarrow> Inl (Error FatalMarshal)
      | Some b \<Rightarrow>
          (case ReplyWith s of
             None \<Rightarrow> Inl (Panic NilDereference)
           | Some c \<Rightarrow> Inr (Some (HandshakeSelect Initiator a), writeTo c b \<lparr>ua_IP = PeerAddress s, ua_Port = 6924\<rparr> w)))"
| "proc_micro cd env now now2 (Activating a) w = Inr (Some (Sending now a SendCheck), handshakeNotified a w)"
| "proc_micro cd env now now2 (Sending started a pt) w =
     bind_go (send_micro cd env now now2 started a pt w) (\<lambda>(q, w'). Inr (map_option (Sending started a) q, w'))"

section \<open>Goroutines of a packet\<close>

datatype pkt_point =
    PktStart
  | PingLookup Time pingStruct                    \<comment> \<open>\<open>sessionMap[rx.Session]\<close>\<close>
  | PingCheck Time pingStruct nat                 \<comment> \<open>the activation flags\<close>
  | PingRing Time pingStruct nat ring_point       \<comment> \<open>\<open>ses.LastAcks[ses.getNextAckSlot()] = pI\<close>\<close>
  | PingReplyWith Time pingStruct nat | PingReplyTo Time pingStruct nat
  | PingLastRX Time pingStruct nat | PingLastRXPing Time pingStruct nat
  | HsLookup handshakeStruct                      \<comment> \<open>\<open>sessionMap[rx.Session]\<close>\<close>
  | HsCheck nat | HsWas nat                       \<comment> \<open>the activation flags, \<open>wasAlreadyActivated\<close>\<close>
  | HsReplyTo nat bool | HsReplyWith nat bool | HsActivate nat bool | HsPeer nat bool
  | HsNotify nat bool                             \<comment> \<open>the select with a default branch\<close>
  | HsEcho nat bool bool
  | PktEnd pkt_outcome

record pkt =
  pkt_buf :: bytes
  pkt_from :: UDPAddr
  pkt_sock :: conn
  pkt_at :: pkt_point

text \<open>The part of both handlers that looks at the packet only.\<close>

definition pkt_decode :: "codec \<Rightarrow> bytes \<Rightarrow> Time \<Rightarrow> pkt_point" where
  "pkt_decode cd buf timeRX =
     (case unmarshalPing cd buf of
        None \<Rightarrow> PktEnd ParseFailed
      | Some rx \<Rightarrow>
          if ps_Magic rx \<noteq> 11181 then PktEnd InvalidMagic
          else if ps_Type rx = 104 then
            (case unmarshalHandshake cd buf of
               None \<Rightarrow> PktEnd HandshakeParseFailed
             | Some hs \<Rightarrow>
                 if hs_Magic hs \<noteq> 11181 then PktEnd HandshakeInvalidMagic
                 else if hs_Version hs \<noteq> 3 then PktEnd HandshakeInvalidVersion
                 else HsLookup hs)
          else if ps_Type rx \<noteq> 116 then PktEnd NotTimeType
          else PingLookup timeRX rx)"

text \<open>
  One access of \<open>handlePacket\<close> or \<open>handleInboundHandshake\<close>. \<open>waiting\<close> tells whether a goroutine is blocked on the
  session's channel at the moment of the select.
\<close>

fun pkt_micro ::
  "codec \<Rightarrow> clock_env \<Rightarrow> Time \<Rightarrow> bool \<Rightarrow> bytes \<Rightarrow> UDPAddr \<Rightarrow> conn \<Rightarrow> pkt_point \<Rightarrow> world
     \<Rightarrow> (sping_exit, pkt_point \<times> world) go" where
  "pkt_micro cd env now waiting buf rxAddr lSocket PktStart w =
     bind_go (timeNowCorrected env now (clock w)) (\<lambda>(timeRX, ck). Inr (pkt_decode cd buf timeRX, w\<lparr>clock := ck\<rparr>))"
| "pkt_micro cd env now waiting buf rxAddr lSocket (PingLookup timeRX rx) w =
     Inr (case sessionMap w (ps_Session rx) of None \<Rightarrow> PktEnd NoActiveSession | Some a \<Rightarrow> PingCheck timeRX rx a, w)"
| "pkt_micro cd env now waiting buf rxAddr lSocket (PingCheck timeRX rx a) w =
     Inr (if UDPActivated (heap w ! a) = False \<and> TCPActivated (heap w ! a) then PktEnd NotDoubleActivated
          else PingRing timeRX rx a RingCheck, w)"
| "pkt_micro cd env now waiting buf rxAddr lSocket (PingRing timeRX rx a r) w =
     (case ring_micro \<lparr>pi_ID = ps_ID rx, pi_TX = ps_TXTime rx, pi_RX = timeRX\<rparr> r (heap w ! a) of
        None \<Rightarrow> Inr (PingReplyWith timeRX rx a, w)
      | Some (r', s) \<Rightarrow>
          if r' = RingPanic then Inl (Panic IndexOutOfRange)
          else Inr (if r' = RingDone then PingReplyWith timeRX rx a else PingRing timeRX rx a r', setSession a s w))"
| "pkt_micro cd env now waiting buf rxAddr lSocket (PingReplyWith timeRX rx a) w =
     Inr (PingReplyTo timeRX rx a, setSession a ((heap w ! a)\<lparr>ReplyWith := Some lSocket\<rparr>) w)"
| "pkt_micro cd env now waiting buf rxAddr lSocket (PingReplyTo timeRX rx a) w =
     Inr (PingLastRX timeRX rx a, setSession a ((heap w ! a)\<lparr>ReplyTo := Some rxAddr\<rparr>) w)"
| "pkt_micro cd env now waiting buf rxAddr lSocket (PingLastRX timeRX rx a) w =
     Inr (PingLastRXPing timeRX rx a, setSession a ((heap w ! a)\<lparr>LastRX := timeRX\<rparr>) w)"
| "pkt_micro cd env now waiting buf rxAddr lSocket (PingLastRXPing timeRX rx a) w =
     Inr (PktEnd (PingRecorded a), setSession a ((heap w ! a)\<lparr>LastRXPing := rx\<rparr>) w)"
| "pkt_micro cd env now waiting buf rxAddr lSocket (HsLookup rx) w =
     Inr (case sessionMap w (hs_Session rx) of None \<Rightarrow> PktEnd HandshakeNoSession | Some a \<Rightarrow> HsCheck a, w)"
| "pkt_micro cd env now waiting buf rxAddr lSocket (HsCheck a) w =
     Inr (if UDPActivated (heap w ! a) \<and> TCPActivated (heap w ! a) then PktEnd HandshakeAlreadyActive else HsWas a, w)"
| "pkt_micro cd env now waiting buf rxAddr lSocket (HsWas a) w = Inr (HsReplyTo a (UDPActivated (heap w ! a)), w)"
| "pkt_micro cd env now waiting buf rxAddr lSocket (HsReplyTo a was) w =
     Inr (HsReplyWith a was, setSession a ((heap w ! a)\<lparr>ReplyTo := Some rxAddr\<rparr>) w)"
| "pkt_micro cd env now waiting buf rxAddr lSocket (HsReplyWith a was) w =
     (case globalReplyWith w of
        None \<Rightarrow> Inl (Panic NilDereference)
      | Some g \<Rightarrow> Inr (HsActivate a was, setSession a ((heap w ! a)\<lparr>ReplyWith := Some g\<rparr>) w))"
| "pkt_micro cd env now waiting buf rxAddr lSocket (HsActivate a was) w =
     Inr (HsPeer a was, setSession a ((heap w ! a)\<lparr>UDPActivated := True\<rparr>) w)"
| "pkt_micro cd env now waiting buf rxAddr lSocket (HsPeer a was) w =
     Inr (HsNotify a was, setSession a ((heap w ! a)\<lparr>PeerAddress :=
        (case PeerAddress (heap w ! a) of None \<Rightarrow> ua_IP rxAddr | Some ip \<Rightarrow> Some ip)\<rparr>) w)"
| "pkt_micro cd env now waiting buf rxAddr lSocket (HsNotify a was) w =
     Inr (HsEcho a was (trySend (UDPHandshake (heap w ! a)) waiting), w)"
| "pkt_micro cd env now waiting buf rxAddr lSocket (HsEcho a was notified) w =
     (if was then Inr (PktEnd (HandshakeAccepted a notified), w)
      else case ReplyWith (heap w ! a) of
        None \<Rightarrow> Inl (Panic NilDereference)
      | Some g \<Rightarrow> Inr (PktEnd (HandshakeAccepted a notified),
          case ReplyTo (heap w ! a) of None \<Rightarrow> w | Some ua \<Rightarrow> writeTo g buf ua w))"
| "pkt_micro cd env now waiting buf rxAddr lSocket (PktEnd out) w = Inr (PktEnd out, w)"

definition newPkt :: "bytes \<Rightarrow> UDPAddr \<Rightarrow> conn \<Rightarrow> pkt" where
  "newPkt buf ua c = \<lparr>pkt_buf = take 10000 buf, pkt_from = ua, pkt_sock = c, pkt_at = PktStart\<rparr>"

definition keepPkt :: "pkt \<Rightarrow> pkt_point \<Rightarrow> pkt list" where
  "keepPkt p pt = (case pt of PktEnd out \<Rightarrow> [] | _ \<Rightarrow> [p\<lparr>pkt_at := pt\<rparr>])"

text \<open>Whether a goroutine is blocked on the channel a handler is about to send on, and whose notification got through.\<close>

fun waitedFor :: "pkt_point \<Rightarrow> goroutine list \<Rightarrow> bool" where
  "waitedFor (HsNotify a was) gs = list_ex (selectsOn a) gs"
| "waitedFor pt gs = False"

fun notified :: "pkt_point \<Rightarrow> pkt_point \<Rightarrow> nat option" where
  "notified (HsNotify a was) (HsEcho b was' True) = Some a"
| "notified pt pt' = None"

section \<open>The process\<close>

text \<open>One entry of the collector's loop.\<close>

definition collectEntry :: "Time \<Rightarrow> Time \<Rightarrow> u32 \<Rightarrow> world \<Rightarrow> world" where
  "collectEntry now1 now2 sid w =
     (case sessionMap w sid of
        None \<Rightarrow> w
      | Some a \<Rightarrow> (case gcVerdict now1 now2 (heap w ! a) of
                    None \<Rightarrow> w | Some r \<Rightarrow> w\<lparr>sessionMap := (sessionMap w)(sid := None)\<rparr>))"

text \<open>The \<open>go\<close> statements still to be run after a session has been inserted.\<close>

definition pendResponder :: "tcp_outcome \<Rightarrow> (role \<times> u32) list" where
  "pendResponder out = (case out of TcpInvited sid a \<Rightarrow> [(Responder, sid)] | _ \<Rightarrow> [])"

definition pendInitiator :: "start_outcome \<Rightarrow> (role \<times> u32) list" where
  "pendInitiator out = (case out of SessionStarted sid a \<Rightarrow> [(Initiator, sid)] | _ \<Rightarrow> [])"

text \<open>
  \<open>gcTodo\<close> lists the entries the running pass of the collector still has to look at; the pass holds the
  table's lock until it is empty. \<open>dead\<close> is what ended the process.
\<close>

record sys =
  wd :: world
  procs :: "goroutine list"
  pkts :: "pkt list"
  spawns :: "(role \<times> u32) list"
  gcTodo :: "u32 list"
  dead :: "sping_exit fault option"

inductive sys_step :: "codec \<Rightarrow> sys \<Rightarrow> sys \<Rightarrow> bool" for cd where
  listen: "dead s = None \<Longrightarrow> globalReplyWith (wd s) = None \<Longrightarrow> listenUDP l (wd s) = Inr (c, w') \<Longrightarrow>
    sys_step cd s (s\<lparr>wd := w'\<rparr>)"
| listen_dies: "dead s = None \<Longrightarrow> globalReplyWith (wd s) = None \<Longrightarrow> listenUDP l (wd s) = Inl e \<Longrightarrow>
    sys_step cd s (s\<lparr>dead := Some e\<rparr>)"
| arrive: "dead s = None \<Longrightarrow> globalReplyWith (wd s) = Some c \<Longrightarrow>
    sys_step cd s (s\<lparr>pkts := pkts s @ [newPkt buf ua c]\<rparr>)"
| read_dies: "dead s = None \<Longrightarrow> globalReplyWith (wd s) = Some c \<Longrightarrow>
    sys_step cd s (s\<lparr>dead := Some (Error FatalListen)\<rparr>)"
| packet: "dead s = None \<Longrightarrow> pkts s = xs @ p # ys \<Longrightarrow>
    pkt_micro cd env now (waitedFor (pkt_at p) (procs s)) (pkt_buf p) (pkt_from p) (pkt_sock p) (pkt_at p) (wd s) = Inr (pt, w') \<Longrightarrow>
    notified (pkt_at p) pt = None \<Longrightarrow>
    sys_step cd s (s\<lparr>wd := w', pkts := xs @ keepPkt p pt @ ys\<rparr>)"
| packet_notifies: "dead s = None \<Longrightarrow> pkts s = xs @ p # ys \<Longrightarrow>
    pkt_micro cd env now (waitedFor (pkt_at p) (procs s)) (pkt_buf p) (pkt_from p) (pkt_sock p) (pkt_at p) (wd s) = Inr (pt, w') \<Longrightarrow>
    notified (pkt_at p) pt = Some a \<Longrightarrow> procs s = gs @ HandshakeSelect r a # hs \<Longrightarrow>
    sys_step cd s (s\<lparr>wd := w', procs := gs @ Activating a # hs, pkts := xs @ keepPkt p pt @ ys\<rparr>)"
| packet_dies: "dead s = None \<Longrightarrow> pkts s = xs @ p # ys \<Longrightarrow>
    pkt_micro cd env now (waitedFor (pkt_at p) (procs s)) (pkt_buf p) (pkt_from p) (pkt_sock p) (pkt_at p) (wd s) = Inl e \<Longrightarrow>
    sys_step cd s (s\<lparr>dead := Some e\<rparr>)"
| accept: "dead s = None \<Longrightarrow> gcTodo s = [] \<Longrightarrow> handleTCPconnection wok rd nSes now (wd s) = (tout, ws, w') \<Longrightarrow>
    sys_step cd s (s\<lparr>wd := w', spawns := pendResponder tout @ spawns s\<rparr>)"
| invite: "dead s = None \<Longrightarrow> gcTodo s = [] \<Longrightarrow>
    startSession_attempt ip dialok bannerRd wok inviteRd now (wd s) = (sout, ws, w') \<Longrightarrow>
    sys_step cd s (s\<lparr>wd := w', spawns := pendInitiator sout @ spawns s\<rparr>)"
| spawn: "dead s = None \<Longrightarrow> spawns s = xs @ (r, sid) # ys \<Longrightarrow> sessionMap (wd s) sid = Some a \<Longrightarrow>
    sys_step cd s (s\<lparr>procs := HandshakeInit r a # procs s, spawns := xs @ ys\<rparr>)"
| spawn_dies: "dead s = None \<Longrightarrow> spawns s = xs @ (r, sid) # ys \<Longrightarrow> sessionMap (wd s) sid = None \<Longrightarrow>
    sys_step cd s (s\<lparr>dead := Some (Panic NilDereference)\<rparr>)"
| proc: "dead s = None \<Longrightarrow> procs s = xs @ g # ys \<Longrightarrow> proc_micro cd env now now2 g (wd s) = Inr (q, w') \<Longrightarrow>
    sys_step cd s (s\<lparr>wd := w', procs := xs @ (case q of None \<Rightarrow> [] | Some g' \<Rightarrow> [g']) @ ys\<rparr>)"
| proc_dies: "dead s = None \<Longrightarrow> procs s = xs @ g # ys \<Longrightarrow> proc_micro cd env now now2 g (wd s) = Inl e \<Longrightarrow>
    sys_step cd s (s\<lparr>dead := Some e\<rparr>)"
| collect_starts: "dead s = None \<Longrightarrow> gcTodo s = [] \<Longrightarrow> set ids = dom (sessionMap (wd s)) \<Longrightarrow> distinct ids \<Longrightarrow>
    sys_step cd s (s\<lparr>gcTodo := ids\<rparr>)"
| collect_entry: "dead s = None \<Longrightarrow> gcTodo s = sid # ids \<Longrightarrow>
    sys_step cd s (s\<lparr>wd := collectEntry now1 now2 sid (wd s), gcTodo := ids\<rparr>)"
| clock_tick: "dead s = None \<Longrightarrow> sysClockTicker_turn env now nowU wt enum sl (wd s) = Inr (u, pulses, enum', w') \<Longrightarrow>
    sys_step cd s (s\<lparr>wd := w'\<rparr>)"
| clock_dies: "dead s = None \<Longrightarrow> sysClockTicker_turn env now nowU wt enum sl (wd s) = Inl e \<Longrightarrow>
    sys_step cd s (s\<lparr>dead := Some e\<rparr>)"
| main_sleeps: "dead s = None \<Longrightarrow> main_turn env now nowU (wd s) = Inr (u, w') \<Longrightarrow> sys_step cd s (s\<lparr>wd := w'\<rparr>)"
| main_dies: "dead s = None \<Longrightarrow> main_turn env now nowU (wd s) = Inl e \<Longrightarrow> sys_step cd s (s\<lparr>dead := Some e\<rparr>)"

definition sys_init :: "sys \<Rightarrow> bool" where
  "sys_init s \<longleftrightarrow> (\<exists>ParseIP env fl ips lim w. main_startup ParseIP env fl = Inr (ips, lim, w) \<and>
     s = \<lparr>wd = w, procs = [], pkts = [], spawns = [], gcTodo = [], dead = None\<rparr>)"

definition reachable :: "codec \<Rightarrow> sys \<Rightarrow> bool" where
  "reachable cd s \<longleftrightarrow> (\<exists>s0. sys_init s0 \<and> steps_to (sys_step cd) s0 s)"

lemma reachable_step: "reachable cd s \<Longrightarrow> sys_step cd s t \<Longrightarrow> reachable cd t"
  unfolding reachable_def by (blast intro: onward)

end
