(* ===== verification/Sping_Safety.thy ===== *)
theory Sping_Safety
  imports Sping_System
begin

text \<open>
  Safety of the interleaved process: an invariant that every access of every goroutine keeps, the exact list of
  ways in which the process can panic, and the absence of all of them in runs without interference.
\<close>

section \<open>What every access keeps\<close>

text \<open>
  \<open>session_sane\<close> is what holds of a session between any two accesses; of the ring it keeps only the
  size of the array, since concurrent handlers can move the position out of it.
\<close>

definition session_sane :: "session \<Rightarrow> bool" where
  "session_sane s \<longleftrightarrow> length (LastAcks s) = 32 \<and> TCPActivated s \<and> UDPHandshake s = Some 0 \<and> pulse s = None \<and>
     (UDPActivated s \<longrightarrow> ReplyTo s \<noteq> None \<and> ReplyWith s \<noteq> None) \<and> (LastRX s \<noteq> zeroTime \<longrightarrow> UDPActivated s)"

lemma session_ok_sane: "session_ok s \<longleftrightarrow> session_sane s \<and> nextAckSlot s < 32"
  by (auto simp: session_ok_def session_sane_def ring_ok_def)

definition world_sane :: "world \<Rightarrow> bool" where
  "world_sane w \<longleftrightarrow> table_ok w \<and> (\<forall>s \<in> set (heap w). session_sane s) \<and> timeOffset (clock w) \<le> Second"

lemma world_ok_sane: "world_ok w \<longleftrightarrow> world_sane w \<and> (\<forall>s \<in> set (heap w). nextAckSlot s < 32)"
  by (auto simp: world_ok_def world_sane_def session_ok_sane)

text \<open>Sessions are never deallocated, activation is never undone and a reply address or socket is never taken back.\<close>

definition grows :: "session list \<Rightarrow> session list \<Rightarrow> bool" where
  "grows h h' \<longleftrightarrow> length h \<le> length h' \<and>
     (\<forall>a < length h. (UDPActivated (h ! a) \<longrightarrow> UDPActivated (h' ! a)) \<and>
        (ReplyWith (h ! a) \<noteq> None \<longrightarrow> ReplyWith (h' ! a) \<noteq> None) \<and> (ReplyTo (h ! a) \<noteq> None \<longrightarrow> ReplyTo (h' ! a) \<noteq> None))"

lemma grows_refl [simp]: "grows h h"
  by (simp add: grows_def)

lemma grows_append [simp]: "grows h (h @ xs)"
  by (simp add: grows_def nth_append)

lemma grows_update:
  "(UDPActivated (h ! a) \<longrightarrow> UDPActivated s) \<Longrightarrow> (ReplyWith (h ! a) \<noteq> None \<longrightarrow> ReplyWith s \<noteq> None) \<Longrightarrow>
   (ReplyTo (h ! a) \<noteq> None \<longrightarrow> ReplyTo s \<noteq> None) \<Longrightarrow> grows h (h[a := s])"
  by (cases "a < length h") (auto simp: grows_def nth_list_update)

lemma world_sane_update:
  assumes "world_sane w" and "a < length (heap w)" and "session_sane s" and "SessionID s = SessionID (heap w ! a)"
  shows "world_sane (setSession a s w)"
  using assms
  by (auto simp: world_sane_def table_ok_def nth_list_update dest: set_update_subset_insert [THEN subsetD])

lemma world_sane_session: "world_sane w \<Longrightarrow> a < length (heap w) \<Longrightarrow> session_sane (heap w ! a)"
  by (simp add: world_sane_def)

lemma world_sane_clock:
  assumes "world_sane w" and "timeNowCorrected env now (clock w) = Inr (t, ck)"
  shows "world_sane (w\<lparr>clock := ck\<rparr>)"
  using assms timeNowCorrected_Inr [OF _ assms(2)] by (simp add: world_sane_def)

lemma world_sane_frame [simp]: "world_sane (writeTo c b ua w) = world_sane w"
  by (simp add: world_sane_def)

text \<open>What a goroutine relies on at each point.\<close>

fun goroutine_ok :: "session list \<Rightarrow> goroutine \<Rightarrow> bool" where
  "goroutine_ok h (HandshakeInit r a) = (a < length h)"
| "goroutine_ok h (HandshakeSelect r a) = (a < length h \<and> (r = Initiator \<longrightarrow> ReplyWith (h ! a) \<noteq> None))"
| "goroutine_ok h (HandshakeTick r a) = (a < length h \<and> (r = Initiator \<longrightarrow> ReplyWith (h ! a) \<noteq> None))"
| "goroutine_ok h (HandshakeSend a) = (a < length h \<and> ReplyWith (h ! a) \<noteq> None)"
| "goroutine_ok h (Activating a) = (a < length h \<and> UDPActivated (h ! a))"
| "goroutine_ok h (Sending t a pt) = (a < length h \<and> UDPActivated (h ! a))"

fun point_ok :: "session list \<Rightarrow> pkt_point \<Rightarrow> bool" where
  "point_ok h (PingCheck t rx a) = (a < length h)"
| "point_ok h (PingRing t rx a r) = (a < length h \<and> UDPActivated (h ! a) \<and> r \<noteq> RingDone \<and> r \<noteq> RingPanic)"
| "point_ok h (PingReplyWith t rx a) = (a < length h \<and> UDPActivated (h ! a))"
| "point_ok h (PingReplyTo t rx a) = (a < length h \<and> UDPActivated (h ! a))"
| "point_ok h (PingLastRX t rx a) = (a < length h \<and> UDPActivated (h ! a))"
| "point_ok h (PingLastRXPing t rx a) = (a < length h \<and> UDPActivated (h ! a))"
| "point_ok h (HsCheck a) = (a < length h)"
| "point_ok h (HsWas a) = (a < length h)"
| "point_ok h (HsReplyTo a was) = (a < length h)"
| "point_ok h (HsReplyWith a was) = (a < length h \<and> ReplyTo (h ! a) \<noteq> None)"
| "point_ok h (HsActivate a was) = (a < length h \<and> ReplyTo (h ! a) \<noteq> None \<and> ReplyWith (h ! a) \<noteq> None)"
| "point_ok h (HsPeer a was) = (a < length h \<and> UDPActivated (h ! a))"
| "point_ok h (HsNotify a was) = (a < length h \<and> UDPActivated (h ! a))"
| "point_ok h (HsEcho a was b) = (a < length h \<and> UDPActivated (h ! a))"
| "point_ok h pt = True"

lemma goroutine_ok_grows: "goroutine_ok h g \<Longrightarrow> grows h h' \<Longrightarrow> goroutine_ok h' g"
  by (cases g) (auto simp: grows_def)

lemma point_ok_grows: "point_ok h pt \<Longrightarrow> grows h h' \<Longrightarrow> point_ok h' pt"
  by (cases pt) (auto simp: grows_def)

lemma gAddr_bound: "goroutine_ok h g \<Longrightarrow> gAddr g < length h"
  by (cases g) auto

section \<open>One access of a packet's goroutine\<close>

text \<open>An assignment to a field of the session at \<open>a\<close>.\<close>

lemma field_write:
  assumes "world_sane w" and "a < length (heap w)" and "session_sane s" and "SessionID s = SessionID (heap w ! a)"
    and "UDPActivated (heap w ! a) \<longrightarrow> UDPActivated s" and "ReplyWith (heap w ! a) \<noteq> None \<longrightarrow> ReplyWith s \<noteq> None"
    and "ReplyTo (heap w ! a) \<noteq> None \<longrightarrow> ReplyTo s \<noteq> None"
  shows "world_sane (setSession a s w) \<and> grows (heap w) (heap (setSession a s w)) \<and> heap (setSession a s w) ! a = s"
  using assms world_sane_update [OF assms(1-4)] by (auto intro: grows_update)

lemma ring_micro_frame:
  assumes "ring_micro p r s = Some (r', s')"
  shows "s' = s\<lparr>nextAckSlot := nextAckSlot s', LastAcks := LastAcks s'\<rparr> \<and> length (LastAcks s') = length (LastAcks s)"
  using assms by (cases r) (auto split: if_split_asm)

lemma ring_write:
  assumes "world_sane w" and "a < length (heap w)" and "ring_micro p r (heap w ! a) = Some (r', s')"
  shows "world_sane (setSession a s' w) \<and> grows (heap w) (heap (setSession a s' w)) \<and>
    UDPActivated s' = UDPActivated (heap w ! a)"
proof -
  let ?s = "heap w ! a"
  have f: "s' = ?s\<lparr>nextAckSlot := nextAckSlot s', LastAcks := LastAcks s'\<rparr>" "length (LastAcks s') = length (LastAcks ?s)"
    using ring_micro_frame [OF assms(3)] by simp_all
  have "TCPActivated s' = TCPActivated ?s" "UDPHandshake s' = UDPHandshake ?s" "pulse s' = pulse ?s" "LastRX s' = LastRX ?s"
    "SessionID s' = SessionID ?s" "ReplyTo s' = ReplyTo ?s" "ReplyWith s' = ReplyWith ?s" and u: "UDPActivated s' = UDPActivated ?s"
    by (subst f(1), simp)+
  then have "session_sane s'" and eq: "SessionID s' = SessionID ?s" "ReplyTo s' = ReplyTo ?s" "ReplyWith s' = ReplyWith ?s"
    using world_sane_session [OF assms(1,2)] f(2) by (simp_all add: session_sane_def)
  then show ?thesis using field_write [OF assms(1,2), of s'] u eq by simp
qed

definition world_step :: "world \<Rightarrow> world \<Rightarrow> bool" where
  "world_step w w' \<longleftrightarrow> world_sane w' \<and> grows (heap w) (heap w') \<and> (globalReplyWith w \<noteq> None \<longrightarrow> globalReplyWith w' \<noteq> None)"

lemma world_step_refl: "world_sane w \<Longrightarrow> world_step w w"
  by (simp add: world_step_def)

lemma world_step_clock:
  "world_sane w \<Longrightarrow> timeNowCorrected env now (clock w) = Inr (t, ck) \<Longrightarrow> world_step w (w\<lparr>clock := ck\<rparr>)"
  by (simp add: world_step_def world_sane_clock)

lemma world_step_field:
  assumes "world_sane w" and "a < length (heap w)" and "session_sane s" and "SessionID s = SessionID (heap w ! a)"
    and "UDPActivated (heap w ! a) \<longrightarrow> UDPActivated s" and "ReplyWith (heap w ! a) \<noteq> None \<longrightarrow> ReplyWith s \<noteq> None"
    and "ReplyTo (heap w ! a) \<noteq> None \<longrightarrow> ReplyTo s \<noteq> None"
  shows "world_step w (setSession a s w)"
  using field_write [OF assms] by (simp add: world_step_def)

lemma pkt_decode_ok: "point_ok h (pkt_decode cd buf t)"
  by (auto simp: pkt_decode_def split: option.split)

lemma pkt_micro_effect:
  assumes w: "world_sane w" and pt: "point_ok (heap w) pt"
    and run: "pkt_micro cd env now waiting buf ua c pt w = Inr (pt', w')"
  shows "world_step w w' \<and> point_ok (heap w') pt'"
proof (cases pt)
  case PktStart
  with run w show ?thesis by (auto simp: bind_go_Inr_iff world_step_clock pkt_decode_ok)
next
  case (PingLookup t rx)
  with run w show ?thesis by (auto simp: world_step_refl world_sane_def table_okD split: option.splits)
next
  case (PingCheck t rx a)
  with run w pt world_sane_session [OF w, of a] show ?thesis by (auto simp: world_step_refl session_sane_def split: if_split_asm)
next
  case (PingRing t rx a r)
  then have a: "a < length (heap w)" "UDPActivated (heap w ! a)" using pt by simp_all
  obtain r' s where rs: "ring_micro \<lparr>pi_ID = ps_ID rx, pi_TX = ps_TXTime rx, pi_RX = t\<rparr> r (heap w ! a) = Some (r', s)" "r' \<noteq> RingPanic"
    "w' = setSession a s w" "pt' = (if r' = RingDone then PingReplyWith t rx a else PingRing t rx a r')"
    using run pt PingRing by (cases r) (auto split: if_split_asm)
  with ring_write [OF w a(1) rs(1)] a show ?thesis by (auto simp: world_step_def)
next
  case (HsLookup rx)
  with run w show ?thesis by (auto simp: world_step_refl world_sane_def table_okD split: option.splits)
next
  case (HsEcho a was b)
  with run w pt show ?thesis by (auto simp: world_step_def split: if_split_asm option.splits)
next
  case (HsReplyWith a was)
  with run obtain g where "globalReplyWith w = Some g" and w': "w' = setSession a ((heap w ! a)\<lparr>ReplyWith := Some g\<rparr>) w" "pt' = HsActivate a was"
    by (auto split: option.splits)
  moreover have "world_step w w'" unfolding w'
    using w pt HsReplyWith world_sane_session [OF w, of a] by (intro world_step_field) (auto simp: session_sane_def)
  ultimately show ?thesis using pt HsReplyWith by simp
qed (use run w pt world_sane_session [OF w] in \<open>auto intro!: world_step_field world_step_refl simp: session_sane_def split: if_split_asm\<close>)


text \<open>A handler can panic at the ring's index only.\<close>

lemma clock_no_panic: "no_panic (timeNowCorrected env now ck)"
  by (auto simp: timeNowCorrected_def getTimeOffset_def split_def Let_def no_panic_iff bind_go_Inl_iff)

lemma pkt_micro_panic:
  assumes w: "world_sane w" and pt: "point_ok (heap w) pt" and g: "globalReplyWith w \<noteq> None"
    and run: "pkt_micro cd env now waiting buf ua c pt w = Inl (Panic q)"
  obtains t rx a k where "pt = PingRing t rx a (RingIndex k)" "32 \<le> k" "q = IndexOutOfRange"
proof (cases pt)
  case PktStart
  with run clock_no_panic [of env now "clock w"] show ?thesis by (auto simp: no_panic_iff bind_go_Inl_iff)
next
  case (PingRing t rx a r)
  have "length (LastAcks (heap w ! a)) = 32"
    using pt PingRing world_sane_session [OF w, of a] by (simp add: session_sane_def)
  then show ?thesis using run pt PingRing that by (cases r) (auto split: if_split_asm)
next
  case (HsEcho a was b)
  with run pt world_sane_session [OF w, of a] show ?thesis
    by (auto simp: session_sane_def split: if_split_asm option.splits)
qed (use run g in \<open>auto split: option.splits\<close>)

section \<open>One access of a session's goroutine\<close>

lemma send_micro_effect:
  assumes w: "world_sane w" and a: "a < length (heap w)" "UDPActivated (heap w ! a)"
    and run: "send_micro cd env now now2 t a pt w = Inr (q, w')"
  shows "world_step w w'"
proof (cases pt)
  case SendID
  with run a world_sane_session [OF w a(1)] show ?thesis by (auto intro!: world_step_field [OF w] simp: session_sane_def)
next
  case SendBuild
  with run w show ?thesis by (auto simp: bind_go_Inr_iff Let_def split: option.splits intro: world_step_clock)
qed (use run w in \<open>auto simp: world_step_def split: option.splits\<close>)

lemma send_micro_no_panic:
  assumes "world_sane w" and "a < length (heap w)" and "UDPActivated (heap w ! a)"
  shows "no_panic (send_micro cd env now now2 t a pt w)"
proof (cases pt)
  case SendBuild
  then show ?thesis by (auto simp: Let_def intro!: no_panic_bind clock_no_panic split: option.split)
next
  case (SendWrite b)
  then show ?thesis using assms(3) world_sane_session [OF assms(1,2)] by (auto simp: session_sane_def split: option.split)
qed simp_all

lemma proc_micro_effect:
  assumes w: "world_sane w" and g: "goroutine_ok (heap w) g"
    and run: "proc_micro cd env now now2 g w = Inr (q, w')"
  shows "world_step w w' \<and> (\<forall>g'. q = Some g' \<longrightarrow> gAddr g' = gAddr g \<and> goroutine_ok (heap w') g')"
proof (cases g)
  case (HandshakeInit r a)
  have s: "session_sane (heap w ! a)" using g HandshakeInit world_sane_session [OF w] by simp
  show ?thesis
  proof (cases r)
    case Initiator
    then obtain c where w': "w' = setSession a ((heap w ! a)\<lparr>ReplyWith := Some c\<rparr>) w" "q = Some (HandshakeSelect Initiator a)"
      using run HandshakeInit by (auto simp: bind_go_Inr_iff sendUDPHandshake_init_def split: option.splits)
    have "world_step w w'" unfolding w' using g HandshakeInit s
      by (intro world_step_field [OF w]) (auto simp: session_sane_def)
    then show ?thesis using g HandshakeInit w' by simp
  qed (use run g HandshakeInit w in \<open>auto simp: world_step_refl\<close>)
next
  case (HandshakeTick r a)
  then show ?thesis using run g w by (cases r) (auto simp: world_step_refl split: if_split_asm)
next
  case (HandshakeSend a)
  then show ?thesis using run g w by (auto simp: Let_def world_step_def split: option.splits)
next
  case (Activating a)
  then have "session_sane (heap w ! a)" "a < length (heap w)" "UDPActivated (heap w ! a)" using g world_sane_session [OF w] by auto
  then show ?thesis using run Activating
    by (auto simp: handshakeNotified_def session_sane_def intro!: world_step_field [OF w])
next
  case (Sending t a pt)
  then have a: "a < length (heap w)" "UDPActivated (heap w ! a)" using g by auto
  obtain p where p: "send_micro cd env now now2 t a pt w = Inr (p, w')" "q = map_option (Sending t a) p"
    using run Sending by (auto simp: bind_go_Inr_iff)
  have st: "world_step w w'" by (rule send_micro_effect [OF w a p(1)])
  then show ?thesis using a p(2) Sending by (auto simp: world_step_def grows_def)
qed (use run g w in \<open>auto simp: world_step_refl\<close>)

text \<open>Such a goroutine can panic only as an initiator that starts before the socket is open.\<close>

lemma proc_micro_panic:
  assumes w: "world_sane w" and g: "goroutine_ok (heap w) g"
    and run: "proc_micro cd env now now2 g w = Inl (Panic q)"
  shows "\<exists>a. g = HandshakeInit Initiator a \<and> globalReplyWith w = None \<and> q = NilDereference"
proof (cases g)
  case (HandshakeInit r a)
  then show ?thesis using run by (cases r) (auto simp: sendUDPHandshake_init_def split: option.splits)
next
  case (Sending t a pt)
  then show ?thesis using run send_micro_no_panic [OF w, of a cd env now now2 t pt] g by (auto simp: no_panic_iff bind_go_Inl_iff)
qed (use run g in \<open>auto simp: Let_def split: option.splits\<close>)

section \<open>The other accesses\<close>

lemma clock_turn_effect:
  assumes "world_sane w" and "sleepToTick env now nowU (clock w) = Inr (u, ck)"
  shows "world_step w (w\<lparr>clock := ck\<rparr>)"
  using assms by (auto simp: sleepToTick_def bind_go_Inr_iff intro: world_step_clock)

lemma main_turn_effect: "world_sane w \<Longrightarrow> main_turn env now nowU w = Inr (u, w') \<Longrightarrow> world_step w w' \<and> heap w' = heap w \<and> sessionMap w' = sessionMap w"
  by (auto simp: main_turn_def bind_go_Inr_iff clock_turn_effect)

lemma clock_tick_effect:
  "world_sane w \<Longrightarrow> sysClockTicker_turn env now nowU wt enum sl w = Inr (u, pulses, enum', w') \<Longrightarrow>
   world_step w w' \<and> heap w' = heap w \<and> sessionMap w' = sessionMap w"
  by (auto simp: sysClockTicker_turn_def bind_go_Inr_iff clock_turn_effect)

lemma clock_turns_no_panic:
  "no_panic (main_turn env now nowU w)" "no_panic (sysClockTicker_turn env now nowU wt enum sl w)"
  unfolding main_turn_def sysClockTicker_turn_def sleepToTick_def
  by (auto intro!: no_panic_bind clock_no_panic simp: Let_def)

lemma listen_effect: "world_sane w \<Longrightarrow> listenUDP l w = Inr (c, w') \<Longrightarrow> world_step w w' \<and> heap w' = heap w \<and> sessionMap w' = sessionMap w"
  by (auto simp: listenUDP_def world_step_def world_sane_def table_ok_def split: option.splits)

lemma collectEntry_effect:
  assumes "world_sane w"
  shows "world_step w (collectEntry now1 now2 sid w)" and "heap (collectEntry now1 now2 sid w) = heap w"
  using assms by (auto simp: collectEntry_def world_step_def world_sane_def table_ok_def split: option.split)

definition new_session :: "u32 \<Rightarrow> session \<Rightarrow> bool" where
  "new_session sid s \<longleftrightarrow> session_sane s \<and> SessionID s = sid \<and> nextAckSlot s = 0"

lemma new_sessions: "new_session sid (invitedSession sid now)" "new_session sid (startedSession ip sid now)"
  by (simp_all add: new_session_def invitedSession_def startedSession_def session_sane_def zero_session_def)

lemma world_sane_put: "world_sane w \<Longrightarrow> new_session sid s \<Longrightarrow> world_step w (putSession sid s w)"
  by (simp add: new_session_def world_step_def world_sane_def sessions.ok_put) (auto simp: putSession_def)

text \<open>Either side of the invitation leaves the world as it is, or puts in a fresh session whose goroutine is still to be started.\<close>

lemma accept_effect:
  assumes "handleTCPconnection wok rd nSes now w = (tout, ws, w')"
  obtains (refused) "w' = w" "pendResponder tout = []"
  | (inserted) ses where "new_session nSes ses" "w' = putSession nSes ses w" "pendResponder tout = [(Responder, nSes)]"
proof (cases "w' = w \<and> pendResponder tout = []")
  case False
  with assms have "w' = putSession nSes (invitedSession nSes now) w" "pendResponder tout = [(Responder, nSes)]"
    by (auto simp: handleTCPconnection_def Let_def pendResponder_def split: if_split_asm)
  then show ?thesis using inserted new_sessions(1) by blast
qed (use refused in blast)

lemma invite_effect:
  assumes "startSession_attempt ip dialok brd wok ird now w = (sout, ws, w')"
  obtains (refused) "w' = w" "pendInitiator sout = []"
  | (inserted) sid ses where "new_session sid ses" "w' = putSession sid ses w" "pendInitiator sout = [(Initiator, sid)]"
proof (cases "w' = w \<and> pendInitiator sout = []")
  case False
  with assms obtain sid where "w' = putSession sid (startedSession ip sid now) w" "pendInitiator sout = [(Initiator, sid)]"
    by (auto simp: startSession_attempt_def Let_def pendInitiator_def split: if_split_asm option.splits)
  then show ?thesis using inserted new_sessions(2) by blast
qed (use refused in blast)

section \<open>The invariant of the process\<close>

definition sys_sane :: "sys \<Rightarrow> bool" where
  "sys_sane s \<longleftrightarrow> world_sane (wd s) \<and> (\<forall>g \<in> set (procs s). goroutine_ok (heap (wd s)) g) \<and>
     (\<forall>p \<in> set (pkts s). point_ok (heap (wd s)) (pkt_at p)) \<and> (pkts s \<noteq> [] \<longrightarrow> globalReplyWith (wd s) \<noteq> None)"

lemma sys_sane_move:
  assumes "sys_sane s" and "world_step (wd s) w'"
    and "\<forall>g \<in> set gs. g \<in> set (procs s) \<or> goroutine_ok (heap w') g"
    and "\<forall>p \<in> set ps. p \<in> set (pkts s) \<or> point_ok (heap w') (pkt_at p)" and "ps \<noteq> [] \<longrightarrow> globalReplyWith w' \<noteq> None"
  shows "sys_sane (s\<lparr>wd := w', procs := gs, pkts := ps, spawns := sp, gcTodo := ids, dead := d\<rparr>)"
  using assms by (auto simp: sys_sane_def world_step_def intro: goroutine_ok_grows point_ok_grows)

lemma set_keepPkt: "set (keepPkt p pt) \<subseteq> {p\<lparr>pkt_at := pt\<rparr>}"
  by (auto simp: keepPkt_def split: pkt_point.splits)

lemma notified_activated: "point_ok h pt \<Longrightarrow> notified pt pt' = Some a \<Longrightarrow> a < length h \<and> UDPActivated (h ! a)"
  by (cases "(pt, pt')" rule: notified.cases) auto

text \<open>The packet's own access, with the notification it may deliver.\<close>

lemma sys_sane_packet:
  assumes ok: "sys_sane s" and p: "pkts s = xs @ p # ys"
    and run: "pkt_micro cd env now waiting (pkt_buf p) (pkt_from p) (pkt_sock p) (pkt_at p) (wd s) = Inr (pt, w')"
    and gs: "\<forall>g \<in> set gs. g \<in> set (procs s) \<or> (\<exists>a. notified (pkt_at p) pt = Some a \<and> g = Activating a)"
  shows "sys_sane (s\<lparr>wd := w', procs := gs, pkts := xs @ keepPkt p pt @ ys\<rparr>)"
proof -
  have w: "world_sane (wd s)" "point_ok (heap (wd s)) (pkt_at p)" "globalReplyWith (wd s) \<noteq> None" using ok p by (auto simp: sys_sane_def)
  have st: "world_step (wd s) w'" "point_ok (heap w') pt" using pkt_micro_effect [OF w(1,2) run] by auto
  have "goroutine_ok (heap w') (Activating a)" if "notified (pkt_at p) pt = Some a" for a
    using notified_activated [OF w(2) that] st(1) by (auto simp: world_step_def grows_def)
  then have "sys_sane (s\<lparr>wd := w', procs := gs, pkts := xs @ keepPkt p pt @ ys, spawns := spawns s, gcTodo := gcTodo s, dead := dead s\<rparr>)"
    using st gs w(3) p set_keepPkt [of p pt] by (intro sys_sane_move [OF ok st(1)]) (auto simp: world_step_def)
  then show ?thesis by simp
qed

lemma sys_sane_proc:
  assumes ok: "sys_sane s" and g: "procs s = xs @ g # ys" and run: "proc_micro cd env now now2 g (wd s) = Inr (q, w')"
  shows "sys_sane (s\<lparr>wd := w', procs := xs @ (case q of None \<Rightarrow> [] | Some g' \<Rightarrow> [g']) @ ys\<rparr>)"
proof -
  have w: "world_sane (wd s)" "goroutine_ok (heap (wd s)) g" using ok g by (auto simp: sys_sane_def)
  have st: "world_step (wd s) w'" "\<forall>g'. q = Some g' \<longrightarrow> goroutine_ok (heap w') g'" using proc_micro_effect [OF w run] by auto
  then have "sys_sane (s\<lparr>wd := w', procs := xs @ (case q of None \<Rightarrow> [] | Some g' \<Rightarrow> [g']) @ ys, pkts := pkts s,
      spawns := spawns s, gcTodo := gcTodo s, dead := dead s\<rparr>)"
    using g ok by (intro sys_sane_move [OF ok st(1)]) (auto simp: sys_sane_def world_step_def split: option.splits)
  then show ?thesis by simp
qed

lemma sys_sane_world:
  assumes "sys_sane s" and "world_step (wd s) w'"
  shows "sys_sane (s\<lparr>wd := w', spawns := sp, gcTodo := ids\<rparr>)"
  using sys_sane_move [OF assms, where gs = "procs s" and ps = "pkts s" and sp = sp and ids = ids and d = "dead s"] assms by (auto simp: sys_sane_def world_step_def)

lemma sys_sane_step:
  assumes "sys_step cd s t" and ok: "sys_sane s"
  shows "sys_sane t"
proof -
  have w: "world_sane (wd s)" using ok by (simp add: sys_sane_def)
  note world = sys_sane_world [OF ok, where sp = "spawns s" and ids = "gcTodo s", simplified]
  show ?thesis
    using assms(1)
  proof (cases rule: sys_step.cases)
    case (listen l c w')
    then show ?thesis using world listen_effect [OF w listen(4)] by simp
  next
    case (arrive c buf ua)
    then show ?thesis using ok by (auto simp: sys_sane_def newPkt_def)
  next
    case (packet xs p ys env now pt w')
    then show ?thesis using sys_sane_packet [OF ok packet(3,4), of "procs s"] by simp
  next
    case (packet_notifies xs p ys env now pt w' a gs r hs)
    then show ?thesis using sys_sane_packet [OF ok packet_notifies(3,4), of "gs @ Activating a # hs"] by auto
  next
    case (accept wok rd nSes now tout ws w')
    have "world_step (wd s) w'"
      using accept(4) by (cases rule: accept_effect) (auto intro: world_sane_put [OF w] world_step_refl [OF w])
    then show ?thesis using accept(1) sys_sane_world [OF ok, where ids = "gcTodo s", simplified] by simp
  next
    case (invite ip dialok brd wok ird now sout ws w')
    have "world_step (wd s) w'"
      using invite(4) by (cases rule: invite_effect) (auto intro: world_sane_put [OF w] world_step_refl [OF w])
    then show ?thesis using invite(1) sys_sane_world [OF ok, where ids = "gcTodo s", simplified] by simp
  next
    case (spawn xs r sid ys a)
    then show ?thesis using ok w by (auto simp: sys_sane_def world_sane_def table_okD)
  next
    case (proc xs g ys env now now2 q w')
    then show ?thesis using sys_sane_proc [OF ok proc(3,4)] by simp
  next
    case (collect_entry sid ids now1 now2)
    then show ?thesis using sys_sane_world [OF ok collectEntry_effect(1) [OF w], where sp = "spawns s", simplified] by simp
  next
    case (clock_tick env now nowU wt enum sl u pulses enum' w')
    then show ?thesis using world clock_tick_effect [OF w clock_tick(3)] by simp
  next
    case (main_sleeps env now nowU u w')
    then show ?thesis using world main_turn_effect [OF w main_sleeps(3)] by simp
  qed (use ok in \<open>auto simp: sys_sane_def\<close>)
qed

interpretation process: inductive_invariant "sys_step cd" sys_sane for cd
  by unfold_locales (rule sys_sane_step)

lemma sys_init_sane: "sys_init s \<Longrightarrow> sys_sane s"
  using main_startup_world_ok by (fastforce simp: sys_init_def sys_sane_def world_ok_sane)

lemma reachable_sane: "reachable cd s \<Longrightarrow> sys_sane s"
  unfolding reachable_def using sys_init_sane process.inv_steps by blast

section \<open>How the process can panic\<close>

lemma step_alive: "sys_step cd s t \<Longrightarrow> dead s = None"
  by (cases rule: sys_step.cases) auto

text \<open>The three causes: an index behind the ring, a goroutine started on a session that is gone, an initiator without a socket.\<close>

definition ring_overrun :: "sys \<Rightarrow> bool" where
  "ring_overrun s \<longleftrightarrow> (\<exists>p \<in> set (pkts s). \<exists>t rx a k. pkt_at p = PingRing t rx a (RingIndex k) \<and> 32 \<le> k)"

definition session_vanished :: "sys \<Rightarrow> bool" where
  "session_vanished s \<longleftrightarrow> (\<exists>(r, sid) \<in> set (spawns s). sessionMap (wd s) sid = None)"

definition socket_missing :: "sys \<Rightarrow> bool" where
  "socket_missing s \<longleftrightarrow> globalReplyWith (wd s) = None \<and> (\<exists>a. HandshakeInit Initiator a \<in> set (procs s))"

lemma step_panics:
  assumes "sys_step cd s t" and ok: "sys_sane s" and "dead t = Some (Panic q)"
  shows "q = IndexOutOfRange \<and> ring_overrun s \<or> q = NilDereference \<and> (session_vanished s \<or> socket_missing s)"
  using assms(1)
proof (cases rule: sys_step.cases)
  case (packet_dies xs p ys env now e)
  have w: "world_sane (wd s)" "point_ok (heap (wd s)) (pkt_at p)" "globalReplyWith (wd s) \<noteq> None"
    using ok packet_dies(3) by (auto simp: sys_sane_def)
  have "e = Panic q" using packet_dies(1) assms(3) by simp
  then obtain t rx a k where "pkt_at p = PingRing t rx a (RingIndex k)" "32 \<le> k" "q = IndexOutOfRange"
    using pkt_micro_panic [OF w] packet_dies(4) by metis
  then show ?thesis using packet_dies(3) by (auto simp: ring_overrun_def)
next
  case (proc_dies xs g ys env now now2 e)
  have w: "world_sane (wd s)" "goroutine_ok (heap (wd s)) g" using ok proc_dies(3) by (auto simp: sys_sane_def)
  have "e = Panic q" using proc_dies(1) assms(3) by simp
  from proc_micro_panic [OF w proc_dies(4) [unfolded this]] show ?thesis
    using proc_dies(3) by (auto simp: socket_missing_def)
next
  case (clock_dies env now nowU wt enum sl e)
  then show ?thesis using assms(3) clock_turns_no_panic(2) [of env now nowU wt enum sl "wd s"] by (auto simp: no_panic_iff)
next
  case (main_dies env now nowU e)
  then show ?thesis using assms(3) clock_turns_no_panic(1) [of env now nowU "wd s"] by (auto simp: no_panic_iff)
next
  case (listen_dies l e)
  then show ?thesis using assms(3) by (auto simp: listenUDP_def split: option.splits)
qed (use assms(3) in \<open>auto simp: session_vanished_def\<close>)

section \<open>Runs without interference\<close>

text \<open>
  A state is calm when no two handlers are inside the ring update of one session, no two sessions with the same id
  wait for their goroutine, the collector does not run while a session waits for its goroutine, and no
  session exists before the socket is open.
\<close>

fun inRing :: "nat \<Rightarrow> pkt_point \<Rightarrow> bool" where
  "inRing a (PingRing t rx b r) = (b = a)"
| "inRing a pt = False"

definition calm :: "sys \<Rightarrow> bool" where
  "calm s \<longleftrightarrow> (\<forall>a. length (filter (\<lambda>p. inRing a (pkt_at p)) (pkts s)) \<le> 1) \<and> distinct (map snd (spawns s)) \<and>
     (spawns s = [] \<or> gcTodo s = []) \<and> (globalReplyWith (wd s) = None \<longrightarrow> procs s = [] \<and> spawns s = [])"

definition calm_step :: "codec \<Rightarrow> sys \<Rightarrow> sys \<Rightarrow> bool" where
  "calm_step cd s t \<longleftrightarrow> sys_step cd s t \<and> calm t"

definition calmly_reachable :: "codec \<Rightarrow> sys \<Rightarrow> bool" where
  "calmly_reachable cd s \<longleftrightarrow> (\<exists>s0. sys_init s0 \<and> steps_to (calm_step cd) s0 s)"

lemma steps_to_mono: "steps_to R s t \<Longrightarrow> (\<And>x y. R x y \<Longrightarrow> Q x y) \<Longrightarrow> steps_to Q s t"
  by (induction rule: steps_to.induct) (auto intro: here onward)

lemma calmly_reachable: "calmly_reachable cd s \<Longrightarrow> reachable cd s"
  unfolding calmly_reachable_def reachable_def using steps_to_mono calm_step_def by metis

text \<open>What a handler that is alone in the ring update knows about the position.\<close>

fun ring_at :: "session list \<Rightarrow> pkt_point \<Rightarrow> bool" where
  "ring_at h (PingRing t rx a RingLoad) = (nextAckSlot (h ! a) < 31)"
| "ring_at h (PingRing t rx a (RingStore n)) = (n < 32)"
| "ring_at h (PingRing t rx a (RingIndex k)) = (k < 32)"
| "ring_at h pt = True"

definition slots_kept :: "session list \<Rightarrow> session list \<Rightarrow> bool" where
  "slots_kept h h' \<longleftrightarrow> length h \<le> length h' \<and> (\<forall>a < length h. nextAckSlot (h' ! a) = nextAckSlot (h ! a)) \<and>
     (\<forall>a < length h'. length h \<le> a \<longrightarrow> nextAckSlot (h' ! a) < 32)"

lemma slots_kept_refl [simp]: "slots_kept h h"
  by (simp add: slots_kept_def)

lemma slots_kept_update [simp]: "nextAckSlot s = nextAckSlot (h ! a) \<Longrightarrow> slots_kept h (h[a := s])"
  by (cases "a < length h") (auto simp: slots_kept_def nth_list_update)

lemma slots_kept_append [simp]: "nextAckSlot s < 32 \<Longrightarrow> slots_kept h (h @ [s])"
  by (auto simp: slots_kept_def nth_append less_Suc_eq)

lemma ring_at_kept: "ring_at h pt \<Longrightarrow> point_ok h pt \<Longrightarrow> slots_kept h h' \<Longrightarrow> ring_at h' pt"
  by (cases "(h, pt)" rule: ring_at.cases) (auto simp: slots_kept_def)

lemma ring_at_other: "ring_at h pt \<Longrightarrow> \<not> inRing a pt \<Longrightarrow> ring_at (h[a := s]) pt"
  by (cases "(h, pt)" rule: ring_at.cases) auto

definition slots_ok :: "session list \<Rightarrow> bool" where
  "slots_ok h \<longleftrightarrow> (\<forall>a < length h. nextAckSlot (h ! a) < 32)"

lemma slots_ok_kept: "slots_ok h \<Longrightarrow> slots_kept h h' \<Longrightarrow> slots_ok h'"
  by (auto simp: slots_ok_def slots_kept_def)

lemma slots_ok_update: "slots_ok h \<Longrightarrow> nextAckSlot s < 32 \<Longrightarrow> slots_ok (h[a := s])"
  unfolding slots_ok_def by (metis length_list_update nth_list_update_eq nth_list_update_neq)

lemma pkt_micro_slots:
  assumes "pkt_micro cd env now waiting buf ua c pt w = Inr (pt', w')" and "\<And>a. \<not> inRing a pt"
  shows "slots_kept (heap w) (heap w') \<and> ring_at h pt'"
  using assms
  by (cases pt) (auto simp: bind_go_Inr_iff pkt_decode_def split: option.splits if_split_asm)

lemma proc_micro_slots:
  "proc_micro cd env now now2 g w = Inr (q, w') \<Longrightarrow> slots_kept (heap w) (heap w') \<and> sessionMap w' = sessionMap w"
proof (cases "(cd, env, now, now2, g, w)" rule: proc_micro.cases)
  case (7 _ _ _ _ t a pt)
  assume "proc_micro cd env now now2 g w = Inr (q, w')"
  with 7 show ?thesis by (cases pt) (auto simp: bind_go_Inr_iff Let_def split: option.splits)
qed (auto simp: bind_go_Inr_iff sendUDPHandshake_init_def handshakeNotified_def Let_def split: option.splits)

text \<open>The handler's own ring access, with the position in range.\<close>

lemma pkt_micro_ring:
  assumes "pkt_micro cd env now waiting buf ua c (PingRing t rx a r) w = Inr (pt', w')"
    and "point_ok (heap w) (PingRing t rx a r)" and "ring_at (heap w) (PingRing t rx a r)" and "slots_ok (heap w)"
  shows "\<exists>s. heap w' = (heap w)[a := s] \<and> nextAckSlot s < 32 \<and> ring_at (heap w') pt'"
proof -
  have "a < length (heap w)" "nextAckSlot (heap w ! a) < 32" using assms(2,4) by (auto simp: slots_ok_def)
  with assms show ?thesis by (intro exI [of _ "heap w' ! a"], cases r) (auto split: if_split_asm)
qed

definition rings_ok :: "sys \<Rightarrow> bool" where
  "rings_ok s \<longleftrightarrow> slots_ok (heap (wd s)) \<and> (\<forall>p \<in> set (pkts s). ring_at (heap (wd s)) (pkt_at p))"

lemma rings_ok_kept:
  assumes "rings_ok s" and "sys_sane s" and "slots_kept (heap (wd s)) (heap (wd t))"
    and "\<forall>p \<in> set (pkts t). p \<in> set (pkts s) \<or> ring_at (heap (wd t)) (pkt_at p)"
  shows "rings_ok t"
proof -
  have "ring_at (heap (wd t)) (pkt_at p)" if "p \<in> set (pkts s)" for p
    using assms(1-3) that ring_at_kept by (auto simp: rings_ok_def sys_sane_def)
  then show ?thesis using assms slots_ok_kept by (auto simp: rings_ok_def)
qed

lemma alone_in_ring:
  assumes "calm s" and "pkts s = xs @ p # ys" and "inRing a (pkt_at p)" and "q \<in> set xs \<union> set ys"
  shows "\<not> inRing a (pkt_at q)"
proof
  assume "inRing a (pkt_at q)"
  with assms(4) have "0 < length (filter (\<lambda>p. inRing a (pkt_at p)) xs) + length (filter (\<lambda>p. inRing a (pkt_at p)) ys)"
    by (auto simp: filter_empty_conv)
  then have "1 < length (filter (\<lambda>p. inRing a (pkt_at p)) (pkts s))" using assms(2,3) by simp
  with assms(1) show False by (auto simp: calm_def not_le [symmetric])
qed

lemma rings_ok_packet:
  assumes rings: "rings_ok s" and ok: "sys_sane s" and calm: "calm s" and p: "pkts s = xs @ p # ys"
    and run: "pkt_micro cd env now waiting (pkt_buf p) (pkt_from p) (pkt_sock p) (pkt_at p) (wd s) = Inr (pt, w')"
    and t: "wd t = w'" "pkts t = xs @ keepPkt p pt @ ys"
  shows "rings_ok t"
proof (cases "\<exists>a. inRing a (pkt_at p)")
  case False
  then have "slots_kept (heap (wd s)) (heap w') \<and> ring_at (heap w') pt" using pkt_micro_slots [OF run] by blast
  then show ?thesis using t p set_keepPkt [of p pt] by (intro rings_ok_kept [OF rings ok]) auto
next
  case True
  then obtain tm rx a r where at: "pkt_at p = PingRing tm rx a r" by (metis inRing.elims(2))
  have pre: "point_ok (heap (wd s)) (pkt_at p)" "ring_at (heap (wd s)) (pkt_at p)" "slots_ok (heap (wd s))"
    using ok rings p by (auto simp: sys_sane_def rings_ok_def)
  obtain ses where ses: "heap w' = (heap (wd s))[a := ses]" "nextAckSlot ses < 32" "ring_at (heap w') pt"
    using pkt_micro_ring [OF run [unfolded at] pre [unfolded at]] by blast
  have "ring_at (heap w') (pkt_at q)" if "q \<in> set xs \<union> set ys" for q
    using ring_at_other [of "heap (wd s)" "pkt_at q" a] alone_in_ring [OF calm p _ that, of a] at that rings p ses(1)
    by (auto simp: rings_ok_def)
  moreover have "slots_ok (heap w')" using ses(1,2) pre(3) slots_ok_update by simp
  ultimately show ?thesis using t ses(3) set_keepPkt [of p pt] by (auto simp: rings_ok_def)
qed

lemma putSession_slots: "new_session sid ses \<Longrightarrow> slots_kept (heap w) (heap (putSession sid ses w))"
  by (simp add: putSession_def new_session_def)

lemma rings_ok_step:
  assumes "sys_step cd s t" and rings: "rings_ok s" and ok: "sys_sane s" and calm: "calm s"
  shows "rings_ok t"
proof -
  have w: "world_sane (wd s)" using ok by (simp add: sys_sane_def)
  note kept = rings_ok_kept [OF rings ok, of t]
  show ?thesis
    using assms(1)
  proof (cases rule: sys_step.cases)
    case (packet xs p ys env now pt w')
    then show ?thesis by (intro rings_ok_packet [OF rings ok calm packet(3,4)]) simp_all
  next
    case (packet_notifies xs p ys env now pt w' a gs r hs)
    then show ?thesis by (intro rings_ok_packet [OF rings ok calm packet_notifies(3,4)]) simp_all
  next
    case (accept wok rd nSes now tout ws w')
    from accept(4) have "slots_kept (heap (wd s)) (heap w')" by (cases rule: accept_effect) (auto simp: putSession_slots)
    then show ?thesis using kept accept(1) by simp
  next
    case (invite ip dialok brd wok ird now sout ws w')
    from invite(4) have "slots_kept (heap (wd s)) (heap w')" by (cases rule: invite_effect) (auto simp: putSession_slots)
    then show ?thesis using kept invite(1) by simp
  next
    case (proc xs g ys env now now2 q w')
    then show ?thesis using kept proc_micro_slots [OF proc(4)] by simp
  next
    case (listen l c w')
    then show ?thesis using kept listen_effect [OF w listen(4)] by simp
  next
    case (arrive c buf ua)
    then show ?thesis using kept by (simp add: newPkt_def)
  next
    case (collect_entry sid ids now1 now2)
    then show ?thesis using kept collectEntry_effect(2) [OF w] by simp
  next
    case (clock_tick env now nowU wt enum sl u pulses enum' w')
    then show ?thesis using kept clock_tick_effect [OF w clock_tick(3)] by simp
  next
    case (main_sleeps env now nowU u w')
    then show ?thesis using kept main_turn_effect [OF w main_sleeps(3)] by simp
  qed (use kept in simp_all)
qed

text \<open>Every goroutine has a session of its own, and so will the ones still to be started.\<close>

definition spawns_ok :: "world \<Rightarrow> goroutine list \<Rightarrow> (role \<times> u32) list \<Rightarrow> bool" where
  "spawns_ok w gs sp \<longleftrightarrow> distinct (map gAddr gs) \<and>
     (\<forall>(r, sid) \<in> set sp. \<exists>a. sessionMap w sid = Some a \<and> a \<notin> gAddr ` set gs)"

lemma pkt_micro_table: "pkt_micro cd env now waiting buf ua c pt w = Inr (pt', w') \<Longrightarrow> sessionMap w' = sessionMap w"
  by (cases pt) (auto simp: bind_go_Inr_iff split: option.splits if_split_asm)

lemma spawns_ok_insert:
  assumes "spawns_ok w gs sp" and "\<forall>g \<in> set gs. goroutine_ok (heap w) g" and "distinct (map snd ((r, sid) # sp))"
  shows "spawns_ok (putSession sid ses w) gs ((r, sid) # sp)"
proof -
  have "length (heap w) \<notin> gAddr ` set gs" using assms(2) gAddr_bound by fastforce
  moreover have "sid' \<noteq> sid" if "(r', sid') \<in> set sp" for r' sid' using assms(3) that by force
  ultimately show ?thesis using assms(1) by (auto simp: spawns_ok_def putSession_def)
qed

lemma spawns_ok_start:
  assumes "spawns_ok w gs (xs @ (r, sid) # ys)" and "table_ok w" and "distinct (map snd (xs @ (r, sid) # ys))"
    and a: "sessionMap w sid = Some a"
  shows "spawns_ok w (HandshakeInit r a # gs) (xs @ ys)"
proof -
  have "sid' \<noteq> sid" if "(r', sid') \<in> set (xs @ ys)" for r' sid' using assms(3) that by force
  then have "b \<noteq> a" if "(r', sid') \<in> set (xs @ ys)" "sessionMap w sid' = Some b" for r' sid' b
    using that a assms(2) by (metis table_okD(2))
  then show ?thesis using assms(1) a by (fastforce simp: spawns_ok_def)
qed

lemma spawns_ok_step:
  assumes "sys_step cd s t" and sp: "spawns_ok (wd s) (procs s) (spawns s)" and ok: "sys_sane s" and "calm s" and "calm t"
  shows "spawns_ok (wd t) (procs t) (spawns t)"
proof -
  have w: "world_sane (wd s)" "\<forall>g \<in> set (procs s). goroutine_ok (heap (wd s)) g" using ok by (auto simp: sys_sane_def)
  show ?thesis
    using assms(1)
  proof (cases rule: sys_step.cases)
    case (packet xs p ys env now pt w')
    then show ?thesis using sp pkt_micro_table [OF packet(4)] by (simp add: spawns_ok_def)
  next
    case (packet_notifies xs p ys env now pt w' a gs r hs)
    then show ?thesis using sp pkt_micro_table [OF packet_notifies(4)] by (simp add: spawns_ok_def)
  next
    case (accept wok rd nSes now tout ws w')
    from accept(4) show ?thesis
      using sp assms(5) accept(1) spawns_ok_insert [OF sp w(2)] by (cases rule: accept_effect) (auto simp: calm_def)
  next
    case (invite ip dialok brd wok ird now sout ws w')
    from invite(4) show ?thesis
      using sp assms(5) invite(1) spawns_ok_insert [OF sp w(2)] by (cases rule: invite_effect) (auto simp: calm_def)
  next
    case (spawn xs r sid ys a)
    then show ?thesis
      using spawns_ok_start [OF sp [unfolded spawn(3)], of a] w(1) assms(4) by (simp add: calm_def world_sane_def)
  next
    case (proc xs g ys env now now2 q w')
    have "goroutine_ok (heap (wd s)) g" using w(2) proc(3) by simp
    then have "q = Some g' \<Longrightarrow> gAddr g' = gAddr g" for g' using proc_micro_effect [OF w(1) _ proc(4)] by blast
    then show ?thesis using sp proc(1,3) proc_micro_slots [OF proc(4)]
      by (cases q) (fastforce simp: spawns_ok_def split: prod.splits)+
  next
    case (collect_entry sid ids now1 now2)
    then show ?thesis using sp assms(4) by (simp add: spawns_ok_def calm_def)
  next
    case (listen l c w')
    then show ?thesis using sp listen_effect [OF w(1) listen(4)] by (simp add: spawns_ok_def)
  next
    case (clock_tick env now nowU wt enum sl u pulses enum' w')
    then show ?thesis using sp clock_tick_effect [OF w(1) clock_tick(3)] by (simp add: spawns_ok_def)
  next
    case (main_sleeps env now nowU u w')
    then show ?thesis using sp main_turn_effect [OF w(1) main_sleeps(3)] by (simp add: spawns_ok_def)
  qed (use sp in simp_all)
qed

definition calm_ok :: "sys \<Rightarrow> bool" where
  "calm_ok s \<longleftrightarrow> sys_sane s \<and> calm s \<and> rings_ok s \<and> spawns_ok (wd s) (procs s) (spawns s) \<and> (\<forall>q. dead s \<noteq> Some (Panic q))"

lemma calm_ok_no_cause: "calm_ok s \<Longrightarrow> \<not> ring_overrun s \<and> \<not> session_vanished s \<and> \<not> socket_missing s"
  by (fastforce simp: calm_ok_def ring_overrun_def session_vanished_def socket_missing_def rings_ok_def spawns_ok_def calm_def)

interpretation calm_run: inductive_invariant "calm_step cd" calm_ok for cd
proof unfold_locales
  fix s t assume step: "calm_step cd s t" and ok: "calm_ok s"
  then have "sys_step cd s t" "calm t" "sys_sane s" "calm s" by (simp_all add: calm_step_def calm_ok_def)
  moreover have "dead t \<noteq> Some (Panic q)" for q
    using step_panics calm_ok_no_cause [OF ok] calculation by metis
  ultimately show "calm_ok t"
    using ok sys_sane_step rings_ok_step spawns_ok_step by (auto simp: calm_ok_def)
qed

lemma sys_init_calm: "sys_init s \<Longrightarrow> calm_ok s"
  using sys_init_sane
  by (auto simp: calm_ok_def sys_init_def main_startup_exact Let_def calm_def rings_ok_def slots_ok_def spawns_ok_def split: if_splits)

lemma calmly_reachable_ok: "calmly_reachable cd s \<Longrightarrow> calm_ok s"
  unfolding calmly_reachable_def using sys_init_calm calm_run.inv_steps by blast

section \<open>Each cause makes the process panic\<close>

lemma ring_overrun_panics:
  assumes "sys_sane s" and "dead s = None" and "ring_overrun s"
  shows "sys_step cd s (s\<lparr>dead := Some (Panic IndexOutOfRange)\<rparr>)"
proof -
  obtain p t rx a k where p: "p \<in> set (pkts s)" "pkt_at p = PingRing t rx a (RingIndex k)" "32 \<le> k"
    using assms(3) by (auto simp: ring_overrun_def)
  then have "world_sane (wd s)" "a < length (heap (wd s))" using assms(1) by (fastforce simp: sys_sane_def)+
  then have "length (LastAcks (heap (wd s) ! a)) = 32" using world_sane_session by (auto simp: session_sane_def)
  moreover obtain xs ys where "pkts s = xs @ p # ys" using p(1) by (meson split_list)
  ultimately show ?thesis using assms(2) p by (intro packet_dies) auto
qed

lemma session_vanished_panics:
  "dead s = None \<Longrightarrow> session_vanished s \<Longrightarrow> sys_step cd s (s\<lparr>dead := Some (Panic NilDereference)\<rparr>)"
  unfolding session_vanished_def by (auto dest!: split_list intro: spawn_dies)

lemma socket_missing_panics:
  "dead s = None \<Longrightarrow> socket_missing s \<Longrightarrow> sys_step cd s (s\<lparr>dead := Some (Panic NilDereference)\<rparr>)"
  unfolding socket_missing_def by (auto dest!: split_list intro!: proc_dies simp: sendUDPHandshake_init_def)

lemma step_panics_iff:
  assumes "sys_sane s"
  shows "(\<exists>t. sys_step cd s t \<and> dead t = Some (Panic q)) \<longleftrightarrow>
    dead s = None \<and> (q = IndexOutOfRange \<and> ring_overrun s \<or> q = NilDereference \<and> (session_vanished s \<or> socket_missing s))"
proof
  assume "\<exists>t. sys_step cd s t \<and> dead t = Some (Panic q)"
  then show "dead s = None \<and> (q = IndexOutOfRange \<and> ring_overrun s \<or> q = NilDereference \<and> (session_vanished s \<or> socket_missing s))"
    using step_panics [OF _ assms] step_alive by blast
next
  assume *: "dead s = None \<and> (q = IndexOutOfRange \<and> ring_overrun s \<or> q = NilDereference \<and> (session_vanished s \<or> socket_missing s))"
  then have "sys_step cd s (s\<lparr>dead := Some (Panic q)\<rparr>)"
    using ring_overrun_panics [OF assms] session_vanished_panics socket_missing_panics by blast
  then show "\<exists>t. sys_step cd s t \<and> dead t = Some (Panic q)" by fastforce
qed

section \<open>A concrete run\<close>

text \<open>Start, open the socket, accept an invitation, start its goroutine.\<close>

definition demo_flags :: flags where
  "demo_flags = \<lparr>fl_usePPS = False, fl_clockIsPerfect = True, fl_udpPPS = 100, fl_peers = []\<rparr>"

definition demo_hs :: handshakeStruct where
  "demo_hs = \<lparr>hs_Type = 104, hs_Magic = 11181, hs_Version = 3, hs_Session = 7\<rparr>"

definition demo_hs_codec :: codec where
  "demo_hs_codec = demo_codec (Some (zero_pingStruct\<lparr>ps_Type := 104, ps_Magic := 11181, ps_Session := 7\<rparr>)) (Some demo_hs)"

definition listening_world :: world where
  "listening_world = \<lparr>heap = [], sessionMap = Map.empty, globalReplyWith = Some 1, wire = [],
     clock = \<lparr>timeOffset = 1, lastSync = unixEpoch\<rparr>\<rparr>"

definition invited_world :: world where
  "invited_world = putSession 7 (invitedSession 7 unixEpoch) listening_world"

definition quiet :: "world \<Rightarrow> goroutine list \<Rightarrow> sys" where
  "quiet w gs = \<lparr>wd = w, procs = gs, pkts = [], spawns = [], gcTodo = [], dead = None\<rparr>"

lemma quiet_simps [simp]:
  "wd (quiet w gs) = w" "procs (quiet w gs) = gs" "pkts (quiet w gs) = []" "spawns (quiet w gs) = []"
  "gcTodo (quiet w gs) = []" "dead (quiet w gs) = None" "(quiet w gs)\<lparr>wd := w'\<rparr> = quiet w' gs" "(quiet w gs)\<lparr>procs := gs'\<rparr> = quiet w gs'"
  by (simp_all add: quiet_def)

lemma calm_quiet: "globalReplyWith w = Some c \<Longrightarrow> calm (quiet w gs)"
  by (simp add: calm_def)

lemma calmly_step: "calmly_reachable cd s \<Longrightarrow> sys_step cd s t \<Longrightarrow> calm t \<Longrightarrow> calmly_reachable cd t"
  unfolding calmly_reachable_def calm_step_def by (blast intro: onward)

lemma calmly_listening: "calmly_reachable cd (quiet listening_world [])"
proof -
  let ?w0 = "listening_world\<lparr>globalReplyWith := None\<rparr>"
  have "main_startup (\<lambda>_. None) demo_env demo_flags = Inr ([], limiterConfig demo_flags, ?w0)"
    by (simp add: main_startup_exact demo_flags_def listening_world_def demo_env_def startupPeers_def Second_def)
  then have "sys_init (quiet ?w0 [])" unfolding sys_init_def quiet_def by blast
  then have "calmly_reachable cd (quiet ?w0 [])" unfolding calmly_reachable_def by (blast intro: here)
  moreover have "sys_step cd (quiet ?w0 []) (quiet listening_world [])"
    using listen [of "quiet ?w0 []" "Some 1" 1 listening_world cd] by (simp add: listenUDP_def listening_world_def)
  ultimately show ?thesis by (rule calmly_step) (simp add: calm_quiet listening_world_def)
qed

lemma calmly_inserted: "calmly_reachable cd ((quiet invited_world [])\<lparr>spawns := [(Responder, 7)]\<rparr>)"
proof (rule calmly_step [OF calmly_listening])
  let ?s = "quiet listening_world []"
  have "handleTCPconnection True inviteRequest 7 unixEpoch listening_world = (TcpInvited 7 0, [banner, decimal 7], invited_world)"
    by (simp add: handleTCPconnection_def inviteRequest_def ascii_def invited_world_def listening_world_def)
  from accept [of ?s True inviteRequest 7 unixEpoch "TcpInvited 7 0" "[banner, decimal 7]" invited_world cd] this
  show "sys_step cd ?s ((quiet invited_world [])\<lparr>spawns := [(Responder, 7)]\<rparr>)" by (simp add: pendResponder_def)
qed (simp add: calm_def invited_world_def listening_world_def putSession_def)

lemma invited_world_simps:
  "globalReplyWith invited_world = Some 1" "sessionMap invited_world 7 = Some 0" "heap invited_world = [invitedSession 7 unixEpoch]"
  "wire invited_world = []"
  "timeNowCorrected demo_env unixEpoch (clock invited_world) = Inr (unixEpoch + 1, \<lparr>timeOffset = 1, lastSync = unixEpoch\<rparr>)"
  using demo_clock by (simp_all add: invited_world_def listening_world_def putSession_def demo_world_def)

lemma demo_hs_codec_simps:
  "unmarshalPing demo_hs_codec buf = Some (zero_pingStruct\<lparr>ps_Type := 104, ps_Magic := 11181, ps_Session := 7\<rparr>)"
  "unmarshalHandshake demo_hs_codec buf = Some demo_hs"
  by (simp_all add: demo_hs_codec_def demo_codec_def)

lemma calmly_invited: "calmly_reachable cd (quiet invited_world [HandshakeInit Responder 0])"
proof (rule calmly_step [OF calmly_inserted])
  let ?s = "(quiet invited_world [])\<lparr>spawns := [(Responder, 7)]\<rparr>"
  show "sys_step cd ?s (quiet invited_world [HandshakeInit Responder 0])"
    using spawn [of ?s "[]" Responder 7 "[]" 0 cd] by (simp add: invited_world_simps quiet_def)
qed (simp add: calm_quiet invited_world_simps)

lemma calmly_waiting: "calmly_reachable cd (quiet invited_world [HandshakeSelect Responder 0])"
proof (rule calmly_step [OF calmly_invited])
  show "sys_step cd (quiet invited_world [HandshakeInit Responder 0]) (quiet invited_world [HandshakeSelect Responder 0])"
    using proc [of "quiet invited_world [HandshakeInit Responder 0]" "[]" "HandshakeInit Responder 0" "[]" cd _ _ _ "Some (HandshakeSelect Responder 0)" invited_world]
    by simp
qed (simp add: calm_quiet invited_world_simps)

text \<open>With a collector pass before the goroutine is started the same session vanishes, and the process panics.\<close>

lemma invited_world_collected: "sessionMap (collectEntry unixEpoch unixEpoch 7 invited_world) 7 = None"
  by (simp add: collectEntry_def invited_world_simps gcVerdict_def invitedSession_def zero_session_def time_simps)

lemma reachable_vanished:
  "reachable cd ((quiet (collectEntry unixEpoch unixEpoch 7 invited_world) [])\<lparr>spawns := [(Responder, 7)]\<rparr>)"
proof -
  let ?s = "(quiet invited_world [])\<lparr>spawns := [(Responder, 7)]\<rparr>" and ?w = "collectEntry unixEpoch unixEpoch 7 invited_world"
  have "dom (sessionMap invited_world) = {7}" by (auto simp: invited_world_def listening_world_def putSession_def)
  then have "sys_step cd ?s (?s\<lparr>gcTodo := [7]\<rparr>)" by (intro collect_starts) simp_all
  with calmly_reachable [OF calmly_inserted] have "reachable cd (?s\<lparr>gcTodo := [7]\<rparr>)" by (rule reachable_step)
  moreover have "sys_step cd (?s\<lparr>gcTodo := [7]\<rparr>) ((quiet ?w [])\<lparr>spawns := [(Responder, 7)]\<rparr>)"
    using collect_entry [of "?s\<lparr>gcTodo := [7]\<rparr>" 7 "[]" cd unixEpoch unixEpoch] by (simp add: quiet_def)
  ultimately show ?thesis by (rule reachable_step)
qed

end
