(* ===== verification/Sping_Undisturbed.thy ===== *)
theory Sping_Undisturbed
  imports Sping_Safety
begin

text \<open>
  The handlers of the other theories, which run as one step, are the uninterrupted runs of the interleaved process:
  a packet's goroutine that is not disturbed performs \<open>handlePacket\<close>, a sender's turn \<open>sendPackets_turn\<close>, a handshake tick
  \<open>sendUDPHandshake_tick\<close>, a collector pass \<open>sessionGC\<close>, and an insertion followed at once by its \<open>go\<close> statement starts
  the goroutine on the session just inserted.
\<close>

section \<open>Packets\<close>

text \<open>A notification wakes one receiver; here the first in the list.\<close>

fun wakeFirst :: "nat \<Rightarrow> goroutine list \<Rightarrow> goroutine list" where
  "wakeFirst a [] = []"
| "wakeFirst a (g # gs) = (if selectsOn a g then Activating a # gs else g # wakeFirst a gs)"

definition woken :: "pkt_outcome \<Rightarrow> goroutine list \<Rightarrow> goroutine list" where
  "woken out gs = (case out of HandshakeAccepted a True \<Rightarrow> wakeFirst a gs | _ \<Rightarrow> gs)"

definition receiverReady :: "codec \<Rightarrow> bytes \<Rightarrow> world \<Rightarrow> goroutine list \<Rightarrow> bool" where
  "receiverReady cd buf w gs =
     (case unmarshalHandshake cd buf of
        None \<Rightarrow> False
      | Some rx \<Rightarrow> (case sessionMap w (hs_Session rx) of None \<Rightarrow> False | Some a \<Rightarrow> list_ex (selectsOn a) gs))"

lemma wakeFirst_split:
  assumes "list_ex (selectsOn a) gs"
  obtains xs r ys where "gs = xs @ HandshakeSelect r a # ys" "wakeFirst a gs = xs @ Activating a # ys"
  using assms
proof (induction gs arbitrary: thesis)
  case (Cons g gs)
  show ?case
  proof (cases "selectsOn a g")
    case True
    then obtain r where "g = HandshakeSelect r a" by (cases "(a, g)" rule: selectsOn.cases) auto
    then show ?thesis using Cons.prems(1) [of "[]" r gs] by simp
  next
    case False
    then obtain xs r ys where "gs = xs @ HandshakeSelect r a # ys" "wakeFirst a gs = xs @ Activating a # ys"
      using Cons by auto
    then show ?thesis using Cons.prems(1) [of "g # xs" r ys] False by simp
  qed
qed simp

text \<open>The uninterrupted run of a packet's goroutine, with the other goroutines.\<close>

fun pkt_iter ::
  "nat \<Rightarrow> codec \<Rightarrow> clock_env \<Rightarrow> Time \<Rightarrow> bytes \<Rightarrow> UDPAddr \<Rightarrow> conn \<Rightarrow> pkt_point \<Rightarrow> goroutine list \<Rightarrow> world
     \<Rightarrow> (sping_exit, pkt_point \<times> goroutine list \<times> world) go" where
  "pkt_iter 0 cd env now buf ua c pt gs w = Inr (pt, gs, w)"
| "pkt_iter (Suc n) cd env now buf ua c pt gs w =
     bind_go (pkt_micro cd env now (waitedFor pt gs) buf ua c pt w) (\<lambda>(pt', w').
       pkt_iter n cd env now buf ua c pt' (case notified pt pt' of None \<Rightarrow> gs | Some a \<Rightarrow> wakeFirst a gs) w')"

lemma pkt_iter_end [simp]: "pkt_iter n cd env now buf ua c (PktEnd out) gs w = Inr (PktEnd out, gs, w)"
  by (induction n) simp_all

lemma keepPkt_cases: "(\<exists>out. pt = PktEnd out) \<or> keepPkt p pt = [p\<lparr>pkt_at := pt\<rparr>]"
  by (cases pt) (simp_all add: keepPkt_def)

lemma notified_waited: "pkt_micro cd env now (waitedFor pt gs) buf ua c pt w = Inr (pt', w') \<Longrightarrow> notified pt pt' = Some a \<Longrightarrow>
   list_ex (selectsOn a) gs"
  by (cases "(pt, pt')" rule: notified.cases) (auto simp: trySend_def split: option.splits)

abbreviation pktState :: "sys \<Rightarrow> pkt list \<Rightarrow> pkt \<Rightarrow> pkt_point \<Rightarrow> pkt list \<Rightarrow> goroutine list \<Rightarrow> world \<Rightarrow> sys" where
  "pktState s xs p pt ys gs w \<equiv> s\<lparr>wd := w, procs := gs, pkts := xs @ keepPkt p pt @ ys\<rparr>"

lemma sys_update_commute: "s\<lparr>procs := gs, wd := w\<rparr> = (s\<lparr>wd := w, procs := gs\<rparr> :: sys)"
  by (cases s) simp

lemma pkt_micro_step:
  assumes "dead s = None" and "keepPkt p pt = [p\<lparr>pkt_at := pt\<rparr>]"
    and run: "pkt_micro cd env now (waitedFor pt gs) (pkt_buf p) (pkt_from p) (pkt_sock p) pt w = Inr (pt', w')"
  shows "sys_step cd (pktState s xs p pt ys gs w)
    (pktState s xs p pt' ys (case notified pt pt' of None \<Rightarrow> gs | Some a \<Rightarrow> wakeFirst a gs) w')"
proof -
  let ?s = "pktState s xs p pt ys gs w" and ?p = "p\<lparr>pkt_at := pt\<rparr>"
  have s: "dead ?s = None" "pkts ?s = xs @ ?p # ys" using assms(1,2) by simp_all
  have k: "keepPkt ?p pt' = keepPkt p pt'" by (simp add: keepPkt_def split: pkt_point.split)
  have run': "pkt_micro cd env now (waitedFor (pkt_at ?p) (procs ?s)) (pkt_buf ?p) (pkt_from ?p) (pkt_sock ?p) (pkt_at ?p) (wd ?s) = Inr (pt', w')"
    using run by simp
  show ?thesis
  proof (cases "notified pt pt'")
    case None
    then show ?thesis using packet [OF s run'] k by (simp add: sys_update_commute)
  next
    case (Some a)
    then have "list_ex (selectsOn a) gs" using notified_waited [OF run] by simp
    then obtain us r vs where "gs = us @ HandshakeSelect r a # vs" "wakeFirst a gs = us @ Activating a # vs"
      by (rule wakeFirst_split)
    then show ?thesis using packet_notifies [OF s run', of a us r vs] Some k by simp
  qed
qed

lemma pkt_iter_steps:
  assumes "dead s = None"
    and "pkt_iter n cd env now (pkt_buf p) (pkt_from p) (pkt_sock p) pt gs w = Inr (pt', gs', w')"
  shows "steps_to (sys_step cd) (pktState s xs p pt ys gs w) (pktState s xs p pt' ys gs' w')"
  using assms(2)
proof (induction n arbitrary: pt gs w)
  case 0
  then show ?case by (simp add: here)
next
  case (Suc n)
  show ?case
  proof (cases "\<exists>out. pt = PktEnd out")
    case True
    then show ?thesis using Suc.prems by (auto simp: bind_go_Inr_iff here)
  next
    case False
    then have k: "keepPkt p pt = [p\<lparr>pkt_at := pt\<rparr>]" using keepPkt_cases by blast
    obtain pt1 w1 where m: "pkt_micro cd env now (waitedFor pt gs) (pkt_buf p) (pkt_from p) (pkt_sock p) pt w = Inr (pt1, w1)"
      and rest: "pkt_iter n cd env now (pkt_buf p) (pkt_from p) (pkt_sock p) pt1 (case notified pt pt1 of None \<Rightarrow> gs | Some a \<Rightarrow> wakeFirst a gs) w1 = Inr (pt', gs', w')"
      using Suc.prems by (auto simp: bind_go_Inr_iff)
    show ?thesis using pkt_micro_step [OF assms(1) k m] Suc.IH [OF rest] by (rule steps_to_first)
  qed
qed


text \<open>Twelve accesses are enough for every packet; the goroutine then has done what the handler does in one step.\<close>

lemma pkt_iter_ping:
  assumes "world_sane w"
  shows "pkt_iter 11 cd env now buf ua c (PingLookup t rx) gs w =
    bind_go (handlePing t rx ua c w) (\<lambda>(out, w'). Inr (PktEnd out, woken out gs, w'))"
proof (cases "sessionMap w (ps_Session rx)")
  case None
  then show ?thesis by (simp add: handlePing_def eval_nat_numeral woken_def)
next
  case (Some a)
  then have a: "a < length (heap w)" using assms by (simp add: world_sane_def table_okD)
  then have len: "length (LastAcks (heap w ! a)) = 32" using world_sane_session [OF assms] by (simp add: session_sane_def)
  show ?thesis
    using Some a len
    by (simp add: handlePing_def eval_nat_numeral woken_def recordAck_def getNextAckSlot_def store_def Let_def)
qed

lemma setSession_twice [simp]: "setSession a s (setSession a s' w) = setSession a s w"
  by (simp add: setSession_def)

lemma pkt_iter_handshake:
  assumes "world_sane w" and "unmarshalHandshake cd buf = Some rx" and "hs_Magic rx = 11181" and "hs_Version rx = 3"
  shows "pkt_iter 11 cd env now buf ua c (HsLookup rx) gs w =
    bind_go (handleInboundHandshake cd (receiverReady cd buf w gs) buf ua c w) (\<lambda>(out, w'). Inr (PktEnd out, woken out gs, w'))"
proof (cases "sessionMap w (hs_Session rx)")
  case None
  then show ?thesis using assms by (simp add: handleInboundHandshake_def eval_nat_numeral woken_def)
next
  case (Some a)
  then have a: "a < length (heap w)" using assms(1) by (simp add: world_sane_def table_okD)
  then have s: "TCPActivated (heap w ! a)" "UDPHandshake (heap w ! a) = Some 0"
    using world_sane_session [OF assms(1)] by (simp_all add: session_sane_def)
  have ready: "receiverReady cd buf w gs = list_ex (selectsOn a) gs" using Some assms(2) by (simp add: receiverReady_def)
  show ?thesis
  proof (cases "UDPActivated (heap w ! a)")
    case True
    then show ?thesis using Some a s assms(2-4) by (simp add: handleInboundHandshake_def eval_nat_numeral woken_def)
  next
    case False
    then show ?thesis
      using Some a s assms(2-4)
      by (cases "list_ex (selectsOn a) gs"; cases "globalReplyWith w")
        (simp_all add: handleInboundHandshake_def eval_nat_numeral woken_def ready Let_def trySend_def)
  qed
qed

lemma pkt_iter_handlePacket:
  assumes "world_sane w"
  shows "pkt_iter 12 cd env now buf ua c PktStart gs w =
    bind_go (handlePacket cd env now (receiverReady cd buf w gs) buf ua c w) (\<lambda>(out, w'). Inr (PktEnd out, woken out gs, w'))"
proof (cases "timeNowCorrected env now (clock w)")
  case (Inl e)
  then show ?thesis by (simp add: handlePacket_def eval_nat_numeral)
next
  case (Inr x)
  then obtain t ck where ck: "timeNowCorrected env now (clock w) = Inr (t, ck)" by (cases x) auto
  let ?w = "w\<lparr>clock := ck\<rparr>"
  have w1: "world_sane ?w" using world_sane_clock [OF assms ck] .
  have ready: "receiverReady cd buf ?w gs = receiverReady cd buf w gs"
    by (simp add: receiverReady_def split: option.split)
  have "pkt_iter 12 cd env now buf ua c PktStart gs w = pkt_iter (Suc 11) cd env now buf ua c PktStart gs w" by simp
  also have "\<dots> = pkt_iter 11 cd env now buf ua c (pkt_decode cd buf t) gs ?w"
    by (simp only: pkt_iter.simps) (simp add: ck)
  also have "\<dots> = bind_go (handlePacket cd env now (receiverReady cd buf w gs) buf ua c w) (\<lambda>(out, w'). Inr (PktEnd out, woken out gs, w'))"
  proof (cases "unmarshalPing cd buf")
    case None
    then show ?thesis by (simp add: pkt_decode_def handlePacket_def ck woken_def)
  next
    case (Some rx)
    show ?thesis
    proof (cases "ps_Type rx = 104 \<and> ps_Magic rx = 11181")
      case True
      then have h: "handlePacket cd env now (receiverReady cd buf w gs) buf ua c w = handleInboundHandshake cd (receiverReady cd buf ?w gs) buf ua c ?w"
        using Some ck ready by (simp add: handlePacket_def)
      show ?thesis
      proof (cases "\<exists>hs. unmarshalHandshake cd buf = Some hs \<and> hs_Magic hs = 11181 \<and> hs_Version hs = 3")
        case valid: True
        then obtain hs where hs: "unmarshalHandshake cd buf = Some hs" "hs_Magic hs = 11181" "hs_Version hs = 3" by blast
        have "pkt_decode cd buf t = HsLookup hs" using hs Some True by (simp add: pkt_decode_def)
        then show ?thesis unfolding h by (simp only: pkt_iter_handshake [OF w1 hs])
      next
        case False
        then show ?thesis unfolding h using Some True
          by (cases "unmarshalHandshake cd buf") (auto simp: pkt_decode_def handleInboundHandshake_def woken_def)
      qed
    next
      case False
      with Some ck pkt_iter_ping [OF w1, of cd env now buf ua c t rx gs] show ?thesis
        by (auto simp: pkt_decode_def handlePacket_def woken_def)
    qed
  qed
  finally show ?thesis .
qed

lemma pkt_iter_dies:
  assumes "dead s = None"
    and "pkt_iter n cd env now (pkt_buf p) (pkt_from p) (pkt_sock p) pt gs w = Inl e"
  shows "\<exists>t. steps_to (sys_step cd) (pktState s xs p pt ys gs w) t \<and> dead t = Some e"
  using assms(2)
proof (induction n arbitrary: pt gs w)
  case (Suc n)
  have k: "keepPkt p pt = [p\<lparr>pkt_at := pt\<rparr>]" using Suc.prems keepPkt_cases [of pt p] by auto
  show ?case
  proof (cases "pkt_micro cd env now (waitedFor pt gs) (pkt_buf p) (pkt_from p) (pkt_sock p) pt w")
    case (Inl e')
    let ?s = "pktState s xs p pt ys gs w"
    have "sys_step cd ?s (?s\<lparr>dead := Some e\<rparr>)"
      using Suc.prems Inl assms(1) k by (intro packet_dies [of _ xs "p\<lparr>pkt_at := pt\<rparr>" ys]) simp_all
    moreover have "dead (?s\<lparr>dead := Some e\<rparr>) = Some e" by simp
    ultimately show ?thesis by (blast intro: steps_to_first here)
  next
    case (Inr x)
    then obtain pt1 w1 where m: "pkt_micro cd env now (waitedFor pt gs) (pkt_buf p) (pkt_from p) (pkt_sock p) pt w = Inr (pt1, w1)"
      by (cases x) auto
    then show ?thesis using pkt_micro_step [OF assms(1) k m, of xs ys] Suc.IH Suc.prems steps_to_first by fastforce
  qed
qed simp

lemma packet_alone_dies:
  assumes "dead s = None" and "pkts s = xs @ p # ys" and "pkt_at p = PktStart" and "world_sane (wd s)"
    and "handlePacket cd env now (receiverReady cd (pkt_buf p) (wd s) (procs s)) (pkt_buf p) (pkt_from p) (pkt_sock p) (wd s) = Inl e"
  shows "\<exists>t. steps_to (sys_step cd) s t \<and> dead t = Some e"
proof -
  have "pkt_iter 12 cd env now (pkt_buf p) (pkt_from p) (pkt_sock p) PktStart (procs s) (wd s) = Inl e"
    using pkt_iter_handlePacket [OF assms(4)] assms(5) by simp
  from pkt_iter_dies [OF assms(1) this, of xs ys] have "\<exists>t. steps_to (sys_step cd) (pktState s xs p PktStart ys (procs s) (wd s)) t \<and> dead t = Some e" .
  moreover have "pktState s xs p PktStart ys (procs s) (wd s) = s" using assms(2,3) by (cases s) (simp add: keepPkt_def)
  ultimately show ?thesis by simp
qed

lemma packet_alone:
  assumes "dead s = None" and "pkts s = xs @ p # ys" and "pkt_at p = PktStart" and "world_sane (wd s)"
    and "handlePacket cd env now (receiverReady cd (pkt_buf p) (wd s) (procs s)) (pkt_buf p) (pkt_from p) (pkt_sock p) (wd s) = Inr (out, w')"
  shows "steps_to (sys_step cd) s (s\<lparr>wd := w', procs := woken out (procs s), pkts := xs @ ys\<rparr>)"
proof -
  have k: "keepPkt p PktStart = [p]" using assms(3) by (simp add: keepPkt_def)
  have "pkt_iter 12 cd env now (pkt_buf p) (pkt_from p) (pkt_sock p) PktStart (procs s) (wd s) = Inr (PktEnd out, woken out (procs s), w')"
    using pkt_iter_handlePacket [OF assms(4)] assms(5) by simp
  from pkt_iter_steps [OF assms(1) this, of xs ys]
  have "steps_to (sys_step cd) (pktState s xs p PktStart ys (procs s) (wd s)) (s\<lparr>wd := w', procs := woken out (procs s), pkts := xs @ ys\<rparr>)"
    by (simp add: keepPkt_def)
  moreover have "pktState s xs p PktStart ys (procs s) (wd s) = s" using k assms(2) by (cases s) simp
  ultimately show ?thesis by simp
qed

section \<open>The goroutines of a session\<close>

lemma proc_step1:
  assumes "dead s = None" and "proc_micro cd env now now2 g w = Inr (Some g', w')"
  shows "sys_step cd (s\<lparr>wd := w, procs := xs @ g # ys\<rparr>) (s\<lparr>wd := w', procs := xs @ g' # ys\<rparr>)"
  using proc [of "s\<lparr>wd := w, procs := xs @ g # ys\<rparr>" xs g ys cd env now now2 "Some g'" w'] assms
  by (simp add: sys_update_commute)

lemma proc_step0:
  assumes "dead s = None" and "proc_micro cd env now now2 g w = Inr (None, w')"
  shows "sys_step cd (s\<lparr>wd := w, procs := xs @ g # ys\<rparr>) (s\<lparr>wd := w', procs := xs @ ys\<rparr>)"
  using proc [of "s\<lparr>wd := w, procs := xs @ g # ys\<rparr>" xs g ys cd env now now2 None w'] assms
  by (simp add: sys_update_commute)

text \<open>A turn of the sender, with a reading of its own for each use of the clock.\<close>

lemma sender_alone:
  assumes s: "dead s = None" and a: "a < length (heap w)"
    and run: "sendPackets_turn cd env t (r1, r2, r3, r4) a w = Inr (goesOn, w')"
  shows "steps_to (sys_step cd) (s\<lparr>wd := w, procs := xs @ Sending t a SendCheck # ys\<rparr>)
    (s\<lparr>wd := w', procs := xs @ (if goesOn then [Sending t a SendCheck] else []) @ ys\<rparr>)"
proof (cases "time_Since r1 (LastRX (heap w ! a)) > Second * 60 \<and> time_Since r2 t > Second * 10")
  case True
  then have "sys_step cd (s\<lparr>wd := w, procs := xs @ Sending t a SendCheck # ys\<rparr>) (s\<lparr>wd := w, procs := xs @ ys\<rparr>)"
    by (intro proc_step0 [OF s, where now = r1 and ?now2.0 = r2]) simp
  then show ?thesis using run True by (auto simp: sendPackets_turn_def Let_def intro: steps_to_first here)
next
  case False
  let ?st = "\<lambda>pt w. s\<lparr>wd := w, procs := xs @ Sending t a pt # ys\<rparr>"
  let ?w1 = "setSession a ((heap w ! a)\<lparr>CurrentID := pingID r3\<rparr>) w" and ?s1 = "(heap w ! a)\<lparr>CurrentID := pingID r3\<rparr>"
  let ?pk = "\<lambda>u. \<lparr>ps_Type = 116, ps_Magic = 11181, ps_Session = SessionID ?s1, ps_ID = CurrentID ?s1, ps_TXTime = u, ps_SendersError = 0, ps_LastAcks = LastAcks ?s1\<rparr>"
  obtain u ck where ck: "timeNowCorrected env r4 (clock w) = Inr (u, ck)"
    using run False by (auto simp: sendPackets_turn_def Let_def bind_go_Inr_iff)
  then obtain b where b: "marshalPing cd (?pk u) = Some b"
    using run False by (cases "marshalPing cd (?pk u)") (auto simp: sendPackets_turn_def Let_def)
  then have on: "goesOn" and w': "ReplyTo (heap w ! a) = None \<and> w' = ?w1\<lparr>clock := ck\<rparr> \<or>
       (\<exists>ua c. ReplyTo (heap w ! a) = Some ua \<and> ReplyWith (heap w ! a) = Some c \<and> w' = writeTo c b ua (?w1\<lparr>clock := ck\<rparr>))"
    using run False ck
    by (cases "ReplyTo (heap w ! a)"; cases "ReplyWith (heap w ! a)"; auto simp: sendPackets_turn_def Let_def)+
  let ?w2 = "?w1\<lparr>clock := ck\<rparr>"
  have "sys_step cd (?st SendCheck w) (?st SendID w)" by (rule proc_step1 [OF s, where now = r1 and ?now2.0 = r2]) (use False in simp)
  moreover have "sys_step cd (?st SendID w) (?st SendBuild ?w1)" by (rule proc_step1 [OF s, where now = r3]) simp
  moreover have "sys_step cd (?st SendBuild ?w1) (?st (SendReply b) ?w2)"
    by (rule proc_step1 [OF s, where now = r4 and env = env]) (use ck b a in simp)
  moreover have "steps_to (sys_step cd) (?st (SendReply b) ?w2) (?st SendCheck w')"
    using w'
  proof
    assume none: "ReplyTo (heap w ! a) = None \<and> w' = ?w2"
    then have "sys_step cd (?st (SendReply b) ?w2) (?st SendCheck w')" by (intro proc_step1 [OF s]) (use a in simp)
    then show ?thesis by (blast intro: steps_to_first here)
  next
    assume "\<exists>ua c. ReplyTo (heap w ! a) = Some ua \<and> ReplyWith (heap w ! a) = Some c \<and> w' = writeTo c b ua ?w2"
    then have "sys_step cd (?st (SendReply b) ?w2) (?st (SendWrite b) ?w2)" "sys_step cd (?st (SendWrite b) ?w2) (?st SendCheck w')"
      by (auto intro!: proc_step1 [OF s] simp: a)
    then show ?thesis by (blast intro: steps_to_first here)
  qed
  ultimately have "steps_to (sys_step cd) (?st SendCheck w) (?st SendCheck w')" by (meson steps_to_first)
  then show ?thesis using on by simp
qed

lemma tick_alone:
  assumes s: "dead s = None" and run: "sendUDPHandshake_tick cd now a w = Inr (goesOn, w')"
  shows "steps_to (sys_step cd) (s\<lparr>wd := w, procs := xs @ HandshakeTick Initiator a # ys\<rparr>)
    (s\<lparr>wd := w', procs := xs @ (if goesOn then [HandshakeSelect Initiator a] else []) @ ys\<rparr>)"
proof (cases "waitForHandshake_tick now a w")
  case False
  then have "w' = w" "\<not> goesOn" using run by (auto simp: sendUDPHandshake_tick_def waitForHandshake_tick_def Let_def)
  moreover have "sys_step cd (s\<lparr>wd := w, procs := xs @ HandshakeTick Initiator a # ys\<rparr>) (s\<lparr>wd := w, procs := xs @ ys\<rparr>)"
    by (rule proc_step0 [OF s, where now = now]) (use False in simp)
  ultimately show ?thesis by (auto intro: steps_to_first here)
next
  case True
  have "sys_step cd (s\<lparr>wd := w, procs := xs @ HandshakeTick Initiator a # ys\<rparr>) (s\<lparr>wd := w, procs := xs @ HandshakeSend a # ys\<rparr>)"
    by (rule proc_step1 [OF s, where now = now]) (use True in simp)
  moreover have "goesOn" and "proc_micro cd env now now2 (HandshakeSend a) w = Inr (Some (HandshakeSelect Initiator a), w')" for env now2
    using run True by (auto simp: sendUDPHandshake_tick_def waitForHandshake_tick_def Let_def split: if_split_asm option.splits)
  then have "sys_step cd (s\<lparr>wd := w, procs := xs @ HandshakeSend a # ys\<rparr>) (s\<lparr>wd := w', procs := xs @ HandshakeSelect Initiator a # ys\<rparr>)"
    by (intro proc_step1 [OF s])
  ultimately have "steps_to (sys_step cd) (s\<lparr>wd := w, procs := xs @ HandshakeTick Initiator a # ys\<rparr>)
      (s\<lparr>wd := w', procs := xs @ HandshakeSelect Initiator a # ys\<rparr>)" by (meson steps_to_first here)
  then show ?thesis using \<open>goesOn\<close> by simp
qed

section \<open>The collector and the table\<close>

lemma collectEntry_only:
  "sessionMap (collectEntry now1 now2 sid w) = (sessionMap w)(sid := sessionMap (sessionGC (\<lambda>_. (now1, now2)) w) sid)"
  by (auto simp: collectEntry_def sessionGC_def split: option.split)

lemma sessionGC_entry: "sessionMap (sessionGC rd w) sid = sessionMap (sessionGC (\<lambda>_. rd sid) w) sid"
  by (simp add: sessionGC_def)

text \<open>The loop of a pass, entry by entry.\<close>

fun collectAll :: "(u32 \<Rightarrow> Time \<times> Time) \<Rightarrow> u32 list \<Rightarrow> world \<Rightarrow> world" where
  "collectAll rd [] w = w"
| "collectAll rd (sid # ids) w = collectAll rd ids (collectEntry (fst (rd sid)) (snd (rd sid)) sid w)"

lemma collectEntry_world: "collectEntry n1 n2 sid w = w\<lparr>sessionMap := sessionMap (collectEntry n1 n2 sid w)\<rparr>"
  by (auto simp: collectEntry_def split: option.split)

lemma collectAll_table:
  "distinct ids \<Longrightarrow> collectAll rd ids w =
     w\<lparr>sessionMap := (\<lambda>sid. if sid \<in> set ids then sessionMap (sessionGC rd w) sid else sessionMap w sid)\<rparr>"
proof (induction ids arbitrary: w)
  case (Cons sid ids)
  let ?w = "collectEntry (fst (rd sid)) (snd (rd sid)) sid w"
  have w: "?w = w\<lparr>sessionMap := (sessionMap w)(sid := sessionMap (sessionGC rd w) sid)\<rparr>"
    by (subst collectEntry_world) (simp add: collectEntry_only sessionGC_entry [of rd])
  have tab: "sessionMap ?w = (sessionMap w)(sid := sessionMap (sessionGC rd w) sid)" by (simp add: w)
  have "sessionMap (sessionGC rd ?w) sid' = sessionMap (sessionGC rd w) sid'" if "sid' \<noteq> sid" for sid'
    using that by (cases "sessionMap w sid'") (simp_all add: sessionGC_def w)
  then have "(\<lambda>sid'. if sid' \<in> set ids then sessionMap (sessionGC rd ?w) sid' else sessionMap ?w sid') =
      (\<lambda>sid'. if sid' \<in> set (sid # ids) then sessionMap (sessionGC rd w) sid' else sessionMap w sid')"
    using Cons.prems unfolding tab by (intro ext) (metis distinct.simps(2) fun_upd_apply set_ConsD list.set_intros)
  moreover have "?w\<lparr>sessionMap := m\<rparr> = w\<lparr>sessionMap := m\<rparr>" for m by (simp add: w)
  ultimately show ?case using Cons by simp
qed simp

lemma collectAll_sessionGC: "distinct ids \<Longrightarrow> set ids = dom (sessionMap w) \<Longrightarrow> collectAll rd ids w = sessionGC rd w"
  by (auto simp: collectAll_table sessionGC_def fun_eq_iff dom_def split: option.split intro!: arg_cong [where f = "\<lambda>m. w\<lparr>sessionMap := m\<rparr>"])

lemma collectAll_steps:
  assumes "dead s = None"
  shows "steps_to (sys_step cd) (s\<lparr>wd := w, gcTodo := ids\<rparr>) (s\<lparr>wd := collectAll rd ids w, gcTodo := []\<rparr>)"
proof (induction ids arbitrary: w)
  case Nil
  then show ?case by (simp add: here)
next
  case (Cons sid ids)
  have "sys_step cd (s\<lparr>wd := w, gcTodo := sid # ids\<rparr>) (s\<lparr>wd := collectEntry (fst (rd sid)) (snd (rd sid)) sid w, gcTodo := ids\<rparr>)"
    using collect_entry [of "s\<lparr>wd := w, gcTodo := sid # ids\<rparr>" sid ids cd "fst (rd sid)" "snd (rd sid)"] assms by (cases s) simp
  then show ?case using Cons.IH by (simp add: steps_to_first)
qed

lemma table_finite: "table_ok w \<Longrightarrow> finite (dom (sessionMap w))"
  by (rule finite_subset [of _ "SessionID ` set (heap w)"]) (auto simp: table_ok_def intro: rev_image_eqI nth_mem)

lemma collector_alone:
  assumes "dead s = None" and "gcTodo s = []" and "finite (dom (sessionMap (wd s)))"
  shows "steps_to (sys_step cd) s (s\<lparr>wd := sessionGC rd (wd s)\<rparr>)"
proof -
  obtain ids where ids: "set ids = dom (sessionMap (wd s))" "distinct ids" using finite_distinct_list [OF assms(3)] by blast
  have s: "s\<lparr>wd := wd s, gcTodo := ids\<rparr> = s\<lparr>gcTodo := ids\<rparr>" "s\<lparr>wd := w', gcTodo := []\<rparr> = s\<lparr>wd := w'\<rparr>" for w'
    using assms(2) by (cases s; simp)+
  have "sys_step cd s (s\<lparr>gcTodo := ids\<rparr>)" by (rule collect_starts [OF assms(1,2) ids])
  then show ?thesis
    using collectAll_steps [OF assms(1), where w = "wd s" and ids = ids and rd = rd] s collectAll_sessionGC [OF ids(2,1)] by (simp add: steps_to_first)
qed

text \<open>An insertion that is followed at once by its \<open>go\<close> statement.\<close>

lemma spawn_last:
  assumes "dead s = None" and "sessionMap w sid = Some a"
  shows "sys_step cd (s\<lparr>wd := w, spawns := (r, sid) # spawns s\<rparr>) (s\<lparr>wd := w, procs := HandshakeInit r a # procs s\<rparr>)"
  using spawn [of "s\<lparr>wd := w, spawns := (r, sid) # spawns s\<rparr>" "[]" r sid "spawns s" a cd] assms by (cases s) simp

lemma accept_alone:
  assumes "dead s = None" and "gcTodo s = []" and "handleTCPconnection wok rd nSes now (wd s) = (TcpInvited nSes a, ws, w')"
  shows "steps_to (sys_step cd) s (s\<lparr>wd := w', procs := HandshakeInit Responder a # procs s\<rparr>)"
proof -
  have "sys_step cd s (s\<lparr>wd := w', spawns := (Responder, nSes) # spawns s\<rparr>)"
    using accept [OF assms, of cd] by (simp add: pendResponder_def)
  moreover have "sessionMap w' nSes = Some a"
    using assms(3) by (auto simp: handleTCPconnection_def Let_def putSession_def split: if_split_asm)
  ultimately show ?thesis using spawn_last [OF assms(1)] by (blast intro: steps_to_first here)
qed

lemma invite_alone:
  assumes "dead s = None" and "gcTodo s = []" and "startSession_attempt ip dialok brd wok ird now (wd s) = (SessionStarted sid a, ws, w')"
  shows "steps_to (sys_step cd) s (s\<lparr>wd := w', procs := HandshakeInit Initiator a # procs s\<rparr>)"
proof -
  have "sys_step cd s (s\<lparr>wd := w', spawns := (Initiator, sid) # spawns s\<rparr>)"
    using invite [OF assms, of cd] by (simp add: pendInitiator_def)
  moreover have "sessionMap w' sid = Some a"
    using assms(3) by (auto simp: startSession_attempt_def Let_def putSession_def split: if_split_asm option.splits)
  ultimately show ?thesis using spawn_last [OF assms(1)] by (blast intro: steps_to_first here)
qed


section \<open>The handlers as runs of the process\<close>



end
