(* ===== verification/Sping_Notify.thy ===== *)
theory Sping_Notify
  imports Sping_Undisturbed
begin

text \<open>
  What becomes of a handshake in the interleaved process: a notification that finds its goroutine in the select leads to a
  sender, one that does not find it there is lost for good. The last section follows the handshake of two peers.
\<close>

section \<open>A notification that finds its goroutine waiting starts a sender\<close>

definition senderOn :: "nat \<Rightarrow> sys \<Rightarrow> bool" where
  "senderOn a s \<longleftrightarrow> (\<exists>started pt. Sending started a pt \<in> set (procs s))"

text \<open>An activating goroutine stays where it is until it starts the sender itself.\<close>

lemma activating_step:
  assumes "sys_step cd s t" and "Activating a \<in> set (procs s)"
  shows "Activating a \<in> set (procs t) \<or> senderOn a t"
  using assms(1)
proof (cases rule: sys_step.cases)
  case (proc xs g ys env now now2 q w')
  show ?thesis
  proof (cases "g = Activating a")
    case True
    then show ?thesis using proc by (auto simp: senderOn_def)
  next
    case False
    then show ?thesis using proc assms(2) by auto
  qed
next
  case (packet_notifies xs p ys env now pt w' b gs r hs)
  then show ?thesis using assms(2) by auto
qed (use assms(2) in auto)

interpretation activating: inductive_invariant "\<lambda>s t. sys_step cd s t \<and> \<not> senderOn a t" "\<lambda>s. Activating a \<in> set (procs s)" for cd a
  using activating_step by unfold_locales blast

lemma activating_enabled:
  assumes "dead s = None" and "Activating a \<in> set (procs s)"
  shows "\<exists>t. sys_step cd s t \<and> Sending started a SendCheck \<in> set (procs t)"
proof -
  obtain xs ys where p: "procs s = xs @ Activating a # ys" using assms(2) by (meson split_list)
  have "sys_step cd s (s\<lparr>wd := handshakeNotified a (wd s), procs := xs @ Sending started a SendCheck # ys\<rparr>)"
    using proc [OF assms(1) p, of cd _ started _ "Some (Sending started a SendCheck)" "handshakeNotified a (wd s)"] by simp
  then show ?thesis by fastforce
qed


text \<open>A handler at its select hands the notification over in its next access if a goroutine waits for it.\<close>

lemma notify_hands_over:
  assumes "sys_sane s" and "p \<in> set (pkts s)" and at: "pkt_at p = HsNotify a was" and "HandshakeSelect r a \<in> set (procs s)"
  shows "pkt_micro cd env now (waitedFor (pkt_at p) (procs s)) (pkt_buf p) (pkt_from p) (pkt_sock p) (pkt_at p) (wd s) = Inr (HsEcho a was True, wd s)"
proof -
  have "list_ex (selectsOn a) (procs s)" using assms(4) by (auto simp: list_ex_iff intro!: bexI)
  moreover have "point_ok (heap (wd s)) (pkt_at p)" "world_sane (wd s)" using assms(1,2) by (auto simp: sys_sane_def)
  then have "UDPHandshake (heap (wd s) ! a) = Some 0" using at world_sane_session [of "wd s" a] by (auto simp: session_sane_def)
  ultimately show ?thesis using at by (simp add: trySend_def)
qed

lemma notify_step:
  assumes ok: "sys_sane s" and p: "p \<in> set (pkts s)" and at: "pkt_at p = HsNotify a was" and sel: "HandshakeSelect r a \<in> set (procs s)"
    and "sys_step cd s t" and gone: "p \<notin> set (pkts t)"
  shows "Activating a \<in> set (procs t)"
  using assms(5)
proof (cases rule: sys_step.cases)
  case (packet xs p' ys env now pt w')
  then have "p' = p" using p gone by auto
  then have "pt = HsEcho a was True" using packet(4) notify_hands_over [OF ok p at sel] by simp
  then show ?thesis using packet(5) at \<open>p' = p\<close> by simp
next
  case (packet_notifies xs p' ys env now pt w' b gs r' hs)
  then have "p' = p" using p gone by auto
  then have "pt = HsEcho a was True" using packet_notifies(4) notify_hands_over [OF ok p at sel] by simp
  then show ?thesis using packet_notifies(1,5) at \<open>p' = p\<close> by simp
qed (use p gone in auto)

lemma notify_enabled:
  assumes ok: "sys_sane s" and "dead s = None" and p: "p \<in> set (pkts s)" and at: "pkt_at p = HsNotify a was" and sel: "HandshakeSelect r a \<in> set (procs s)"
  shows "\<exists>t. sys_step cd s t \<and> Activating a \<in> set (procs t)"
proof -
  obtain xs ys gs hs where "pkts s = xs @ p # ys" "procs s = gs @ HandshakeSelect r a # hs" using p sel by (meson split_list)
  from packet_notifies [OF assms(2) this(1) notify_hands_over [OF ok p at sel] _ this(2)] at show ?thesis by fastforce
qed

lemma handlePacket_handshake_run:
  assumes "world_ok w" and "timeNowCorrected env now (clock w) = Inr (t, ck)"
    and "unmarshalPing cd buf = Some prx" and "ps_Magic prx = 11181" and "ps_Type prx = 104"
    and "unmarshalHandshake cd buf = Some rx" and "hs_Magic rx = 11181" and "hs_Version rx = 3"
    and "sessionMap w (hs_Session rx) = Some a" and "\<not> UDPActivated (heap w ! a)" and "globalReplyWith w = Some g"
  shows "handlePacket cd env now waiting buf ua c w =
    Inr (HandshakeAccepted a waiting, writeTo g buf ua (setSession a (handshaken ua g (heap w ! a)) (w\<lparr>clock := ck\<rparr>)))"
proof -
  have "session_ok (heap (w\<lparr>clock := ck\<rparr>) ! a)" using world_ok_session [OF assms(1,9)] by simp
  then show ?thesis
    using assms handleInboundHandshake_run [of "w\<lparr>clock := ck\<rparr>" a cd buf rx g waiting ua c]
    by (simp add: handlePacket_def)
qed

text \<open>A packet that both decoders accept as a handshake for the session id.\<close>

definition valid_handshake :: "codec \<Rightarrow> bytes \<Rightarrow> u32 \<Rightarrow> bool" where
  "valid_handshake cd buf sid \<longleftrightarrow>
     (case unmarshalPing cd buf of None \<Rightarrow> False | Some prx \<Rightarrow> ps_Magic prx = 11181 \<and> ps_Type prx = 104) \<and>
     (case unmarshalHandshake cd buf of None \<Rightarrow> False | Some rx \<Rightarrow> hs_Magic rx = 11181 \<and> hs_Version rx = 3 \<and> hs_Session rx = sid)"

lemma valid_handshake_run:
  assumes "world_sane w" and "timeNowCorrected env now (clock w) = Inr (t, ck)" and "valid_handshake cd buf sid"
    and "sessionMap w sid = Some a" and "\<not> UDPActivated (heap w ! a)" and "globalReplyWith w = Some g"
  shows "handlePacket cd env now waiting buf ua c w =
    Inr (HandshakeAccepted a waiting, writeTo g buf ua (setSession a (handshaken ua g (heap w ! a)) (w\<lparr>clock := ck\<rparr>)))"
proof -
  have "UDPHandshake (heap w ! a) = Some 0"
    using world_sane_session [OF assms(1), of a] assms(1,4) by (auto simp: world_sane_def session_sane_def table_okD)
  with assms(2-6) show ?thesis
    by (auto simp: valid_handshake_def handlePacket_def handleInboundHandshake_def handshaken_def trySend_def Let_def split: option.splits)
qed

lemma handshake_run_activates:
  assumes ok: "sys_sane s" and "dead s = None" and g: "globalReplyWith (wd s) = Some c" and sel: "HandshakeSelect r a \<in> set (procs s)"
    and hs: "valid_handshake cd buf sid" "sessionMap (wd s) sid = Some a" "\<not> UDPActivated (heap (wd s) ! a)"
    and "length buf \<le> 10000" and ck: "timeNowCorrected env now (clock (wd s)) = Inr (t, ck)"
  shows "\<exists>u. steps_to (sys_step cd) s u \<and> dead u = None \<and> Activating a \<in> set (procs u) \<and>
    ReplyTo (heap (wd u) ! a) = Some ua \<and> wire (wd u) = wire (wd s) @ [(c, buf, ua)]"
proof -
  let ?p = "newPkt buf ua c" and ?s = "s\<lparr>pkts := pkts s @ [newPkt buf ua c]\<rparr>"
  let ?w = "writeTo c buf ua (setSession a (handshaken ua c (heap (wd s) ! a)) ((wd s)\<lparr>clock := ck\<rparr>))"
  have p: "pkt_at ?p = PktStart" "pkt_buf ?p = buf" "pkt_from ?p = ua" "pkt_sock ?p = c"
    using assms(8) by (simp_all add: newPkt_def)
  have w: "world_sane (wd s)" and a: "a < length (heap (wd s))"
    using ok hs(2) by (auto simp: sys_sane_def world_sane_def table_okD)
  have ex: "list_ex (selectsOn a) (procs s)" using sel by (auto simp: list_ex_iff intro!: bexI)
  then have "receiverReady cd buf (wd s) (procs s)" using hs(1,2) by (auto simp: receiverReady_def valid_handshake_def split: option.splits)
  then have "handlePacket cd env now (receiverReady cd buf (wd s) (procs s)) buf ua c (wd s) = Inr (HandshakeAccepted a True, ?w)"
    using valid_handshake_run [OF w ck hs g, of True ua c] by simp
  then have "steps_to (sys_step cd) ?s (?s\<lparr>wd := ?w, procs := woken (HandshakeAccepted a True) (procs s), pkts := pkts s\<rparr>)"
    using packet_alone [of ?s "pkts s" ?p "[]" cd env now "HandshakeAccepted a True" ?w] assms(2) w p by simp
  then have "steps_to (sys_step cd) s (?s\<lparr>wd := ?w, procs := woken (HandshakeAccepted a True) (procs s), pkts := pkts s\<rparr>)"
    using arrive [OF assms(2) g, of cd buf ua] by (rule steps_to_first [rotated])
  moreover have "Activating a \<in> set (woken (HandshakeAccepted a True) (procs s))"
    by (rule wakeFirst_split [OF ex]) (simp add: woken_def)
  moreover have "ReplyTo (heap ?w ! a) = Some ua" "wire ?w = wire (wd s) @ [(c, buf, ua)]" using a by (simp_all add: handshaken_def)
  ultimately show ?thesis
    by (intro exI [of _ "?s\<lparr>wd := ?w, procs := woken (HandshakeAccepted a True) (procs s), pkts := pkts s\<rparr>"]) (simp add: assms(2))
qed

text \<open>
  C14. A handshake notification that finds its goroutine in the select leads to a sender. When a handler is at its
  select and a handshake goroutine of the session is blocked in its own, the handler's next access, whenever it comes, makes that goroutine activate the
  session; and an activating goroutine cannot be diverted: in every run, however long and whatever the other
  goroutines do, it stays where it is until a sender of the session is running, and as long as the process lives its next access starts
  one (so every run in which it is scheduled again has a sender). A valid handshake datagram for a session that is not yet
  activated can bring this about: it can be handled so that the goroutine is activating, the reply address is the datagram's
  source and the datagram has been echoed there once.
\<close>

theorem handshake_starts_sender:
  assumes "reachable cd s"
  shows "(p \<in> set (pkts s) \<and> pkt_at p = HsNotify a was \<and> HandshakeSelect r a \<in> set (procs s) \<longrightarrow>
      (\<forall>t. sys_step cd s t \<and> p \<notin> set (pkts t) \<longrightarrow> Activating a \<in> set (procs t)) \<and>
      (dead s = None \<longrightarrow> (\<exists>t. sys_step cd s t \<and> Activating a \<in> set (procs t)))) \<and>
    (Activating a \<in> set (procs s) \<longrightarrow>
      (\<forall>t. steps_to (\<lambda>x y. sys_step cd x y \<and> \<not> senderOn a y) s t \<longrightarrow>
         Activating a \<in> set (procs t) \<and>
         (dead t = None \<longrightarrow> (\<exists>u. sys_step cd t u \<and> Sending started a SendCheck \<in> set (procs u))))) \<and>
    (dead s = None \<and> globalReplyWith (wd s) = Some c \<and> HandshakeSelect r a \<in> set (procs s) \<and>
       valid_handshake cd buf sid \<and> sessionMap (wd s) sid = Some a \<and> \<not> UDPActivated (heap (wd s) ! a) \<and>
       length buf \<le> 10000 \<and> timeNowCorrected env now (clock (wd s)) = Inr (tm, ck) \<longrightarrow>
      (\<exists>u. steps_to (sys_step cd) s u \<and> dead u = None \<and> Activating a \<in> set (procs u) \<and>
         ReplyTo (heap (wd u) ! a) = Some ua \<and> wire (wd u) = wire (wd s) @ [(c, buf, ua)]))"
proof (intro conjI impI allI; (elim conjE)?)
  have ok: "sys_sane s" using assms by (rule reachable_sane)
  show "Activating a \<in> set (procs t)" if "p \<in> set (pkts s)" "pkt_at p = HsNotify a was" "HandshakeSelect r a \<in> set (procs s)"
    "sys_step cd s t" "p \<notin> set (pkts t)" for t using notify_step [OF ok] that by blast
  show "\<exists>t. sys_step cd s t \<and> Activating a \<in> set (procs t)" if "p \<in> set (pkts s)" "pkt_at p = HsNotify a was" "HandshakeSelect r a \<in> set (procs s)"
    "dead s = None" using notify_enabled [OF ok] that by blast
  show "\<exists>u. steps_to (sys_step cd) s u \<and> dead u = None \<and> Activating a \<in> set (procs u) \<and>
      ReplyTo (heap (wd u) ! a) = Some ua \<and> wire (wd u) = wire (wd s) @ [(c, buf, ua)]"
    if "dead s = None" "globalReplyWith (wd s) = Some c" "HandshakeSelect r a \<in> set (procs s)" "valid_handshake cd buf sid"
      "sessionMap (wd s) sid = Some a" "\<not> UDPActivated (heap (wd s) ! a)" "length buf \<le> 10000" "timeNowCorrected env now (clock (wd s)) = Inr (tm, ck)"
    using handshake_run_activates [OF ok that] .
  fix t assume run: "Activating a \<in> set (procs s)" "steps_to (\<lambda>x y. sys_step cd x y \<and> \<not> senderOn a y) s t"
  show act: "Activating a \<in> set (procs t)" using activating.inv_steps [OF run(2,1)] .
  show "\<exists>u. sys_step cd t u \<and> Sending started a SendCheck \<in> set (procs u)" if "dead t = None"
    using activating_enabled [OF that act] .
qed

lemma invited_world_ok: "world_ok invited_world"
  using calmly_reachable_ok [OF calmly_invited] by (auto simp: calm_ok_def sys_sane_def rings_ok_def slots_ok_def world_ok_sane in_set_conv_nth)

lemma demo_valid_handshake: "valid_handshake demo_hs_codec buf 7"
  by (simp add: valid_handshake_def demo_hs_codec_simps demo_hs_def)

theorem handshake_starts_sender_witness:
  "\<exists>u. steps_to (sys_step demo_hs_codec) (quiet invited_world [HandshakeSelect Responder 0]) u \<and>
     Activating 0 \<in> set (procs u) \<and> wire (wd u) = [(1, [1, 2], demo_peer)]"
  using handshake_starts_sender [OF calmly_reachable [OF calmly_waiting], of "newPkt [] demo_peer 1" 0 True Responder demo_hs_codec unixEpoch 1
      "[1, 2]" 7 demo_env unixEpoch "unixEpoch + 1" "\<lparr>timeOffset = 1, lastSync = unixEpoch\<rparr>" demo_peer]
  by (auto simp: invited_world_simps demo_valid_handshake invitedSession_def zero_session_def)


section \<open>A notification that does not find it waiting is lost for good\<close>

fun pinging :: "goroutine \<Rightarrow> bool" where
  "pinging (Activating a) = True"
| "pinging (Sending t a pt) = True"
| "pinging g = False"

text \<open>The points at which a handler has found the session not activated and has not tried to notify yet.\<close>

fun notifying :: "nat \<Rightarrow> pkt_point \<Rightarrow> bool" where
  "notifying a (HsWas b) = (b = a)"
| "notifying a (HsReplyTo b was) = (b = a)"
| "notifying a (HsReplyWith b was) = (b = a)"
| "notifying a (HsActivate b was) = (b = a)"
| "notifying a (HsPeer b was) = (b = a)"
| "notifying a (HsNotify b was) = (b = a)"
| "notifying a pt = False"

text \<open>
  A session that is activated although no goroutine sends pings for it or is about to, and no handler is still
  going to notify one.
\<close>

definition abandoned :: "nat \<Rightarrow> sys \<Rightarrow> bool" where
  "abandoned a s \<longleftrightarrow> a < length (heap (wd s)) \<and> UDPActivated (heap (wd s) ! a) \<and>
     (\<forall>g \<in> set (procs s). gAddr g = a \<longrightarrow> \<not> pinging g) \<and> (\<forall>p \<in> set (pkts s). \<not> notifying a (pkt_at p))"

lemma abandoned_move:
  assumes "abandoned a s" and "grows (heap (wd s)) (heap (wd t))"
    and "\<forall>g \<in> set (procs t). g \<in> set (procs s) \<or> gAddr g \<noteq> a \<or> \<not> pinging g"
    and "\<forall>p \<in> set (pkts t). p \<in> set (pkts s) \<or> \<not> notifying a (pkt_at p)"
  shows "abandoned a t"
  using assms unfolding abandoned_def grows_def by (meson order_less_le_trans)

lemma pkt_micro_notifying:
  assumes "world_sane w" and "a < length (heap w)" and "UDPActivated (heap w ! a)"
    and "pkt_micro cd env now waiting buf ua c pt w = Inr (pt', w')" and "\<not> notifying a pt"
  shows "\<not> notifying a pt'"
proof -
  have "TCPActivated (heap w ! a)" using world_sane_session [OF assms(1,2)] by (simp add: session_sane_def)
  with assms(3-5) show ?thesis
    by (cases pt) (auto simp: bind_go_Inr_iff pkt_decode_def split: option.splits if_split_asm)
qed

lemma abandoned_packet:
  assumes ok: "sys_sane s" and ab: "abandoned a s" and p: "pkts s = xs @ p # ys"
    and run: "pkt_micro cd env now waiting (pkt_buf p) (pkt_from p) (pkt_sock p) (pkt_at p) (wd s) = Inr (pt, w')"
    and t: "wd t = w'" "pkts t = xs @ keepPkt p pt @ ys"
    and gs: "\<forall>g \<in> set (procs t). g \<in> set (procs s) \<or> gAddr g \<noteq> a \<or> \<not> pinging g"
  shows "abandoned a t"
proof -
  have w: "world_sane (wd s)" "point_ok (heap (wd s)) (pkt_at p)" using ok p by (auto simp: sys_sane_def)
  have "\<not> notifying a (pkt_at p)" "a < length (heap (wd s))" "UDPActivated (heap (wd s) ! a)" using ab p by (auto simp: abandoned_def)
  then have "\<not> notifying a pt" using pkt_micro_notifying [OF w(1) _ _ run] by blast
  then show ?thesis
    using pkt_micro_effect [OF w run] t p gs set_keepPkt [of p pt] by (intro abandoned_move [OF ab]) (auto simp: world_step_def)
qed

lemma proc_micro_pinging:
  "proc_micro cd env now now2 g w = Inr (Some g', w') \<Longrightarrow> pinging g' \<Longrightarrow> pinging g \<and> gAddr g' = gAddr g"
  by (cases "(cd, env, now, now2, g, w)" rule: proc_micro.cases)
    (auto simp: bind_go_Inr_iff Let_def split: if_split_asm option.splits role.splits)

lemma abandoned_step:
  assumes "sys_step cd s t" and ok: "sys_sane s" and ab: "abandoned a s"
  shows "abandoned a t"
proof -
  have w: "world_sane (wd s)" using ok by (simp add: sys_sane_def)
  note move = abandoned_move [OF ab, of t]
  have grows: "grows (heap (wd s)) (heap w')" if "world_step (wd s) w'" for w' using that by (simp add: world_step_def)
  show ?thesis
    using assms(1)
  proof (cases rule: sys_step.cases)
    case (packet xs p ys env now pt w')
    then show ?thesis by (intro abandoned_packet [OF ok ab packet(3,4)]) simp_all
  next
    case (packet_notifies xs p ys env now pt w' b gs r hs)
    have "b \<noteq> a" using packet_notifies(3,5) ab by (cases "(pkt_at p, pt)" rule: notified.cases) (auto simp: abandoned_def)
    then show ?thesis using packet_notifies by (intro abandoned_packet [OF ok ab packet_notifies(3,4)]) auto
  next
    case (accept wok rd nSes now tout ws w')
    from accept(4) have "world_step (wd s) w'" by (cases rule: accept_effect) (auto intro: world_sane_put [OF w] world_step_refl [OF w])
    then show ?thesis using move accept(1) grows by simp
  next
    case (invite ip dialok brd wok ird now sout ws w')
    from invite(4) have "world_step (wd s) w'" by (cases rule: invite_effect) (auto intro: world_sane_put [OF w] world_step_refl [OF w])
    then show ?thesis using move invite(1) grows by simp
  next
    case (proc xs g ys env now now2 q w')
    have g: "goroutine_ok (heap (wd s)) g" using ok proc(3) by (auto simp: sys_sane_def)
    have "\<not> pinging g'" if "q = Some g'" "gAddr g' = a" for g'
      using proc_micro_pinging [of cd env now now2 g "wd s" g' w'] proc(3,4) that ab by (auto simp: abandoned_def)
    moreover have "grows (heap (wd s)) (heap (wd t))" using proc(1) grows proc_micro_effect [OF w g proc(4)] by simp
    ultimately show ?thesis using proc(1,3) by (intro move) (auto split: option.splits)
  next
    case (listen l c w')
    then show ?thesis using move grows listen_effect [OF w listen(4)] by simp
  next
    case (arrive c buf ua)
    then show ?thesis using move by (simp add: newPkt_def)
  next
    case (spawn xs r sid ys b)
    then show ?thesis using move by simp
  next
    case (collect_entry sid ids now1 now2)
    then show ?thesis using move collectEntry_effect(2) [OF w] by simp
  next
    case (clock_tick env now nowU wt enum sl u pulses enum' w')
    then show ?thesis using move clock_tick_effect [OF w clock_tick(3)] by simp
  next
    case (main_sleeps env now nowU u w')
    then show ?thesis using move main_turn_effect [OF w main_sleeps(3)] by simp
  qed (use move in simp_all)
qed

interpretation lost: inductive_invariant "sys_step cd" "\<lambda>s. sys_sane s \<and> abandoned a s" for cd a
  by unfold_locales (auto intro: sys_sane_step abandoned_step)

text \<open>
  C15. A handshake notification that is dropped (the handler's default branch) is never made up for:
  once a session is activated while no goroutine has been told so and no handler is still going to tell one, no sender is ever
  started for it, however the goroutines are interleaved between their accesses, and every later handshake packet for it is
  refused as long as it stays in the table.
\<close>

theorem lost_notification_final:
  assumes "reachable cd s" and "abandoned a s" and "steps_to (sys_step cd) s s'"
  shows "(\<forall>started pt. Sending started a pt \<notin> set (procs s')) \<and>
    (\<forall>rx buf ready ua c. unmarshalHandshake cd buf = Some rx \<and> sessionMap (wd s') (hs_Session rx) = Some a \<longrightarrow>
       (\<exists>out. handleInboundHandshake cd ready buf ua c (wd s') = Inr (out, wd s')))"
proof -
  have s': "sys_sane s'" "abandoned a s'"
    using lost.inv_steps [OF assms(3)] reachable_sane [OF assms(1)] assms(2) by auto
  have "TCPActivated (heap (wd s') ! a)" "UDPActivated (heap (wd s') ! a)"
    using s' world_sane_session [of "wd s'" a] by (auto simp: sys_sane_def abandoned_def session_sane_def)
  then show ?thesis using s'(2) by (auto simp: abandoned_def handleInboundHandshake_def Let_def)
qed

definition lost_world :: world where
  "lost_world = writeTo 1 [1, 2] demo_peer
     (setSession 0 (handshaken demo_peer 1 (invitedSession 7 unixEpoch)) (invited_world\<lparr>clock := \<lparr>timeOffset = 1, lastSync = unixEpoch\<rparr>\<rparr>))"

lemma reachable_steps: "reachable cd s \<Longrightarrow> steps_to (sys_step cd) s t \<Longrightarrow> reachable cd t"
  unfolding reachable_def by (meson steps_to_trans)

lemma reachable_lost:
  assumes "valid_handshake cd [1, 2] 7"
  shows "reachable cd (quiet lost_world [HandshakeInit Responder 0])"
proof -
  let ?s = "quiet invited_world [HandshakeInit Responder 0]" and ?p = "newPkt [1, 2] demo_peer 1"
  have w: "world_sane invited_world" using invited_world_ok by (simp add: world_ok_sane)
  have run: "handlePacket cd demo_env unixEpoch False [1, 2] demo_peer 1 invited_world = Inr (HandshakeAccepted 0 False, lost_world)"
    using valid_handshake_run [OF w invited_world_simps(5) assms invited_world_simps(2), of 1 False demo_peer 1]
    by (simp add: invited_world_simps lost_world_def invitedSession_def zero_session_def)
  have "\<not> receiverReady cd [1, 2] invited_world [HandshakeInit Responder 0]"
    by (simp add: receiverReady_def split: option.split)
  then have "steps_to (sys_step cd) (?s\<lparr>pkts := [?p]\<rparr>) (quiet lost_world [HandshakeInit Responder 0])"
    using packet_alone [of "?s\<lparr>pkts := [?p]\<rparr>" "[]" ?p "[]" cd demo_env unixEpoch "HandshakeAccepted 0 False" lost_world] w run
    by (simp add: newPkt_def woken_def quiet_def)
  moreover have "sys_step cd ?s (?s\<lparr>pkts := [?p]\<rparr>)"
    using arrive [of ?s 1 cd "[1, 2]" demo_peer] by (simp add: invited_world_simps)
  then have "reachable cd (?s\<lparr>pkts := [?p]\<rparr>)" by (rule reachable_step [OF calmly_reachable [OF calmly_invited]])
  ultimately show ?thesis by (rule reachable_steps [rotated])
qed

theorem lost_notification_final_witness:
  "(\<forall>started pt. Sending started 0 pt \<notin> set [HandshakeInit Responder 0]) \<and> sessionMap lost_world 7 = Some 0 \<and>
   (\<exists>out. handleInboundHandshake demo_hs_codec True [1, 2] demo_peer 1 lost_world = Inr (out, lost_world))"
proof -
  let ?s = "quiet lost_world [HandshakeInit Responder 0]"
  have a: "abandoned 0 ?s"
    by (simp add: abandoned_def lost_world_def invited_world_simps handshaken_def)
  have m: "sessionMap lost_world (hs_Session demo_hs) = Some 0" "hs_Session demo_hs = 7"
    by (simp_all add: lost_world_def invited_world_simps demo_hs_def)
  from lost_notification_final [OF reachable_lost [OF demo_valid_handshake] a here] m show ?thesis by (auto simp: demo_hs_codec_simps)
qed

section \<open>Two peers\<close>

lemma handshaken_simps [simp]:
  "UDPActivated (handshaken ua g s)" "TCPActivated (handshaken ua g s) = TCPActivated s"
  "ReplyTo (handshaken ua g s) = Some ua" "ReplyWith (handshaken ua g s) = Some g"
  "SessionID (handshaken ua g s) = SessionID s"
  by (simp_all add: handshaken_def)

lemma handlePacket_refuses_handshake:
  assumes "timeNowCorrected env now (clock w) = Inr (t, ck)"
    and "unmarshalPing cd buf = Some prx" and "ps_Magic prx = 11181" and "ps_Type prx = 104"
    and "unmarshalHandshake cd buf = Some rx" and "hs_Magic rx = 11181" and "hs_Version rx = 3"
    and "sessionMap w (hs_Session rx) = Some a" and "UDPActivated (heap w ! a)" and "TCPActivated (heap w ! a)"
  shows "handlePacket cd env now waiting buf ua c w = Inr (HandshakeAlreadyActive, w\<lparr>clock := ck\<rparr>)"
  using assms by (simp add: handlePacket_def handleInboundHandshake_def Let_def)

text \<open>
  C3. The UDP handshake between two peers that agreed on a session id: the initiator's tick sends one
  packet, the responder activates its session and echoes the packet, the initiator activates its
  session on the echo and echoes it once more, and the responder refuses that last packet. The
  exchange ends after these three datagrams with both sessions activated, each replying to where
  the other's packets come from. The codec is only assumed to decode what it encoded, and to
  decode a handshake as a ping with the same type and magic.
\<close>

theorem handshake_completes:
  assumes "world_ok wa" and "sessionMap wa sid = Some p" and "\<not> UDPActivated (heap wa ! p)"
    and "ReplyWith (heap wa ! p) = Some ca" and "globalReplyWith wa = Some ca"
    and "time_Since now (SessionMade (heap wa ! p)) \<le> Minute"
    and "world_ok wb" and "sessionMap wb sid = Some q" and "\<not> UDPActivated (heap wb ! q)" and "globalReplyWith wb = Some cb"
    and "hs = \<lparr>hs_Type = 104, hs_Magic = 11181, hs_Version = 3, hs_Session = sid\<rparr>"
    and "marshalHandshake cd hs = Some b" and "unmarshalHandshake cd b = Some hs"
    and "unmarshalPing cd b = Some prx" and "ps_Magic prx = 11181" and "ps_Type prx = 104"
    and "timeNowCorrected envA nowA (clock wa) = Inr (ta, cka)"
    and "timeNowCorrected envB nowB (clock wb) = Inr (tb, ckb)" and "timeNowCorrected envB' nowB' ckb = Inr (tb', ckb')"
  shows "\<exists>wa1 wa2 wb1 wb2.
    sendUDPHandshake_tick cd now p wa = Inr (True, wa1) \<and>
    wire wa1 = wire wa @ [(ca, b, \<lparr>ua_IP = PeerAddress (heap wa ! p), ua_Port = 6924\<rparr>)] \<and>
    handlePacket cd envB nowB ready b srcA cb wb = Inr (HandshakeAccepted q ready, wb1) \<and> wire wb1 = wire wb @ [(cb, b, srcA)] \<and>
    handlePacket cd envA nowA ready' b srcB ca wa1 = Inr (HandshakeAccepted p ready', wa2) \<and> wire wa2 = wire wa1 @ [(ca, b, srcB)] \<and>
    handlePacket cd envB' nowB' ready'' b srcA cb wb1 = Inr (HandshakeAlreadyActive, wb2) \<and> wire wb2 = wire wb1 \<and>
    UDPActivated (heap wa2 ! p) \<and> ReplyTo (heap wa2 ! p) = Some srcB \<and>
    UDPActivated (heap wb2 ! q) \<and> ReplyTo (heap wb2 ! q) = Some srcA"
proof -
  have p: "p < length (heap wa)" "SessionID (heap wa ! p) = sid" using assms(1,2) by (auto simp: world_ok_def table_okD)
  have q: "q < length (heap wb)" "TCPActivated (heap wb ! q)"
    using assms(7,8) world_ok_session [OF assms(7,8)] by (auto simp: world_ok_def table_okD session_ok_def)
  let ?wa1 = "writeTo ca b \<lparr>ua_IP = PeerAddress (heap wa ! p), ua_Port = 6924\<rparr> wa"
  let ?wa2 = "writeTo ca b srcB (setSession p (handshaken srcB ca (heap wa ! p)) (?wa1\<lparr>clock := cka\<rparr>))"
  let ?wb1 = "writeTo cb b srcA (setSession q (handshaken srcA cb (heap wb ! q)) (wb\<lparr>clock := ckb\<rparr>))"
  have hs: "hs_Magic hs = 11181" "hs_Version hs = 3" "hs_Session hs = sid" by (simp_all add: assms(11))
  have tick: "sendUDPHandshake_tick cd now p wa = Inr (True, ?wa1)"
    using assms(3,4,6,11,12) p by (simp add: sendUDPHandshake_tick_def Let_def)
  have recvB: "handlePacket cd envB nowB ready b srcA cb wb = Inr (HandshakeAccepted q ready, ?wb1)"
    using handlePacket_handshake_run [OF assms(7,18,14,15,16,13) hs(1,2)] hs(3) assms(8,9,10) by simp
  have recvA: "handlePacket cd envA nowA ready' b srcB ca ?wa1 = Inr (HandshakeAccepted p ready', ?wa2)"
    using handlePacket_handshake_run [of ?wa1 envA nowA ta cka, OF _ _ assms(14,15,16,13) hs(1,2)] hs(3) assms(1,2,3,5,17) by simp
  have again: "handlePacket cd envB' nowB' ready'' b srcA cb ?wb1 = Inr (HandshakeAlreadyActive, ?wb1\<lparr>clock := ckb'\<rparr>)"
    using handlePacket_refuses_handshake [of envB' nowB' ?wb1 tb' ckb', OF _ assms(14,15,16,13) hs(1,2), of q] hs(3) assms(8,19) q
    by simp
  show ?thesis
    using tick recvA recvB again p(1) q(1)
    by (intro exI [of _ ?wa1] exI [of _ ?wa2] exI [of _ ?wb1] exI [of _ "?wb1\<lparr>clock := ckb'\<rparr>"]) simp
qed

theorem handshake_completes_witness:
  "\<exists>wa2 wb1. handlePacket demo_hs_codec demo_env unixEpoch True [2] demo_peer 1 invited_world = Inr (HandshakeAccepted 0 True, wb1) \<and>
     handlePacket demo_hs_codec demo_env unixEpoch True [2] demo_peer 1
       (writeTo 1 [2] \<lparr>ua_IP = None, ua_Port = 6924\<rparr> (setSession 0 ((invitedSession 7 unixEpoch)\<lparr>ReplyWith := Some 1\<rparr>) invited_world)) =
         Inr (HandshakeAccepted 0 True, wa2) \<and> UDPActivated (heap wa2 ! 0)"
proof -
  let ?wa = "setSession 0 ((invitedSession 7 unixEpoch)\<lparr>ReplyWith := Some 1\<rparr>) invited_world"
  have wb: "world_ok invited_world" by (rule invited_world_ok)
  have "session_ok ((invitedSession 7 unixEpoch)\<lparr>ReplyWith := Some 1\<rparr>)"
    by (simp add: invitedSession_def session_ok_def zero_session_def ring_ok_def)
  then have wa: "world_ok ?wa" using world_ok_setSession [OF wb invited_world_simps(2)] by (simp add: invitedSession_def)
  have dead: "time_Since unixEpoch unixEpoch \<le> Minute" by (simp add: time_simps)
  have cd: "marshalHandshake demo_hs_codec demo_hs = Some [2]" by (simp add: demo_hs_codec_def demo_codec_def)
  have ck: "timeNowCorrected demo_env unixEpoch \<lparr>timeOffset = 1, lastSync = unixEpoch\<rparr> = Inr (unixEpoch + 1, \<lparr>timeOffset = 1, lastSync = unixEpoch\<rparr>)"
    using demo_clock by (simp add: demo_world_def)
  have tick: "sendUDPHandshake_tick demo_hs_codec unixEpoch 0 ?wa = Inr (True, writeTo 1 [2] \<lparr>ua_IP = None, ua_Port = 6924\<rparr> ?wa)"
    using dead cd by (simp add: sendUDPHandshake_tick_def invited_world_simps invitedSession_def zero_session_def demo_hs_def Let_def)
  show ?thesis
    using handshake_completes [OF wa _ _ _ _ _ wb, of 7 0 1 unixEpoch 0 1 demo_hs demo_hs_codec "[2]" _ demo_env unixEpoch
        "unixEpoch + 1" "\<lparr>timeOffset = 1, lastSync = unixEpoch\<rparr>" demo_env unixEpoch "unixEpoch + 1"
        "\<lparr>timeOffset = 1, lastSync = unixEpoch\<rparr>" demo_env unixEpoch "unixEpoch + 1" "\<lparr>timeOffset = 1, lastSync = unixEpoch\<rparr>"
        True demo_peer True demo_peer True] tick dead cd ck
    by (auto simp: invited_world_simps demo_hs_codec_simps demo_hs_def invitedSession_def zero_session_def)
qed

end
