(* ===== verification/Sping_Table_Race.thy ===== *)
theory Sping_Table_Race
  imports Sping_System
begin

text \<open>
  The session table and its lock. \<open>sessionLock\<close> is taken around the writes of \<open>sessionMap\<close>, around
  the loops over it and around the poll of \<open>startSession\<close>, but the two packet handlers and the two
  \<open>go sessionMap[id].f()\<close> statements read the table without it. Here each goroutine is the sequence of
  its accesses to the table and the lock, and the goroutines interleave between accesses. A loop over the table
  counts as one access (it runs under the lock). The theorems say which goroutines can access the
  table in conflict, that the lock never deadlocks them, and when a session can be
  collected before its handshake goroutine is started.
\<close>

section \<open>Accesses\<close>

datatype action =
    LockSessions
  | UnlockSessions
  | LookupSession u32                              \<comment> \<open>\<open>sessionMap[id]\<close>\<close>
  | InsertSession u32 session                      \<comment> \<open>\<open>sessionMap[id] = &session{...}\<close>\<close>
  | ScanSessions                                   \<comment> \<open>\<open>for _, v := range sessionMap\<close>\<close>
  | CollectSessions "u32 \<Rightarrow> Time \<times> Time"          \<comment> \<open>the loop of \<open>sessionGC\<close> with its deletions\<close>
  | SpawnOn role u32                               \<comment> \<open>\<open>go sessionMap[id].f()\<close>\<close>

fun writesTable :: "action \<Rightarrow> bool" where
  "writesTable (InsertSession sid s) = True"
| "writesTable (CollectSessions rd) = True"
| "writesTable a = False"

fun touchesTable :: "action \<Rightarrow> bool" where
  "touchesTable LockSessions = False"
| "touchesTable UnlockSessions = False"
| "touchesTable a = True"

record shared =
  sh_world :: world
  sh_holder :: "nat option"
  sh_threads :: "action list list"
  sh_spawned :: "goroutine list"
  sh_crashed :: bool

text \<open>
  The effect of an access by goroutine \<open>i\<close>, \<open>None\<close> while it is blocked. Unlocking a lock that is not
  held is a fatal error. A method called on the nil session of a missing entry dereferences it at
  once, which ends the process.
\<close>

primrec perform :: "nat \<Rightarrow> action \<Rightarrow> shared \<Rightarrow> shared option" where
  "perform i LockSessions s = (case sh_holder s of None \<Rightarrow> Some (s\<lparr>sh_holder := Some i\<rparr>) | Some j \<Rightarrow> None)"
| "perform i UnlockSessions s =
     Some (case sh_holder s of None \<Rightarrow> s\<lparr>sh_crashed := True\<rparr> | Some j \<Rightarrow> s\<lparr>sh_holder := None\<rparr>)"
| "perform i (LookupSession sid) s = Some s"
| "perform i (InsertSession sid ses) s = Some (s\<lparr>sh_world := putSession sid ses (sh_world s)\<rparr>)"
| "perform i ScanSessions s = Some s"
| "perform i (CollectSessions rd) s = Some (s\<lparr>sh_world := sessionGC rd (sh_world s)\<rparr>)"
| "perform i (SpawnOn r sid) s =
     Some (case sessionMap (sh_world s) sid of
             None \<Rightarrow> s\<lparr>sh_crashed := True\<rparr>
           | Some a \<Rightarrow> s\<lparr>sh_spawned := HandshakeInit r a # sh_spawned s\<rparr>)"

definition advance :: "nat \<Rightarrow> shared \<Rightarrow> shared option" where
  "advance i s =
     (if sh_crashed s \<or> length (sh_threads s) \<le> i then None
      else case sh_threads s ! i of
             [] \<Rightarrow> None
           | a # rest \<Rightarrow> perform i a (s\<lparr>sh_threads := (sh_threads s)[i := rest]\<rparr>))"

inductive table_step :: "shared \<Rightarrow> shared \<Rightarrow> bool" where
  table_stepI: "advance i s = Some t \<Longrightarrow> table_step s t"

fun schedule :: "nat list \<Rightarrow> shared \<Rightarrow> shared option" where
  "schedule [] s = Some s"
| "schedule (i # is) s = (case advance i s of None \<Rightarrow> None | Some t \<Rightarrow> schedule is t)"

section \<open>The goroutines\<close>

definition handlePacket_acts :: "u32 \<Rightarrow> action list" where
  "handlePacket_acts sid = [LookupSession sid]"

definition handleInboundHandshake_acts :: "u32 \<Rightarrow> action list" where
  "handleInboundHandshake_acts sid = [LookupSession sid]"

definition handleTCPconnection_acts :: "u32 \<Rightarrow> Time \<Rightarrow> action list" where
  "handleTCPconnection_acts nSes now =
     [LockSessions, InsertSession nSes (invitedSession nSes now), UnlockSessions, SpawnOn Responder nSes]"

text \<open>One attempt of \<open>startSession\<close> from the reply to its invitation on, with \<open>n\<close> polls of the monitor loop.\<close>

definition startSession_acts :: "IP \<Rightarrow> u32 \<Rightarrow> Time \<Rightarrow> nat \<Rightarrow> action list" where
  "startSession_acts ip invite now n =
     [LockSessions, InsertSession invite (startedSession ip invite now), UnlockSessions, SpawnOn Initiator invite] @
     concat (replicate n [LockSessions, LookupSession invite, UnlockSessions])"

definition sessionGC_acts :: "(u32 \<Rightarrow> Time \<times> Time) list \<Rightarrow> action list" where
  "sessionGC_acts rds = concat (map (\<lambda>rd. [LockSessions, CollectSessions rd, UnlockSessions]) rds)"

text \<open>Both tickers, \<open>n\<close> turns.\<close>

definition ticker_acts :: "nat \<Rightarrow> action list" where
  "ticker_acts n = concat (replicate n [LockSessions, ScanSessions, UnlockSessions])"

definition measure_acts :: "action list" where
  "measure_acts = [LockSessions, ScanSessions, UnlockSessions]"

datatype client =
    PingHandler u32 | HandshakeHandler u32 | Acceptor u32 Time | Starter IP u32 Time nat
  | GcLoop "(u32 \<Rightarrow> Time \<times> Time) list" | Ticker nat | Scrape

primrec client_acts :: "client \<Rightarrow> action list" where
  "client_acts (PingHandler sid) = handlePacket_acts sid"
| "client_acts (HandshakeHandler sid) = handleInboundHandshake_acts sid"
| "client_acts (Acceptor nSes now) = handleTCPconnection_acts nSes now"
| "client_acts (Starter ip invite now n) = startSession_acts ip invite now n"
| "client_acts (GcLoop rds) = sessionGC_acts rds"
| "client_acts (Ticker n) = ticker_acts n"
| "client_acts Scrape = measure_acts"

lemmas acts_defs = handlePacket_acts_def handleInboundHandshake_acts_def handleTCPconnection_acts_def
  startSession_acts_def sessionGC_acts_def ticker_acts_def measure_acts_def

definition table_start :: "world \<Rightarrow> client list \<Rightarrow> shared" where
  "table_start w cs = \<lparr>sh_world = w, sh_holder = None, sh_threads = map client_acts cs, sh_spawned = [],
     sh_crashed = False\<rparr>"

text \<open>
  Two goroutines are about to access the table and one of them writes: Go's run-time system
  ends the process when it notices such an access.
\<close>

definition conflict :: "shared \<Rightarrow> nat \<Rightarrow> nat \<Rightarrow> bool" where
  "conflict s i j \<longleftrightarrow> i < length (sh_threads s) \<and> j < length (sh_threads s) \<and> i \<noteq> j \<and>
     (case (sh_threads s ! i, sh_threads s ! j) of
        (a # as, b # bs) \<Rightarrow> writesTable a \<and> touchesTable b
      | _ \<Rightarrow> False)"

text \<open>Which goroutines read the table without the lock, and which ones write it.\<close>

fun readsUnlocked :: "client \<Rightarrow> bool" where
  "readsUnlocked (PingHandler sid) = True"
| "readsUnlocked (HandshakeHandler sid) = True"
| "readsUnlocked (Acceptor nSes now) = True"
| "readsUnlocked (Starter ip invite now n) = True"
| "readsUnlocked c = False"

fun writer :: "client \<Rightarrow> bool" where
  "writer (Acceptor nSes now) = True"
| "writer (Starter ip invite now n) = True"
| "writer (GcLoop rds) = (rds \<noteq> [])"
| "writer c = False"

section \<open>The lock discipline\<close>

text \<open>\<open>G\<close> tells which accesses need the lock.\<close>

fun well_locked :: "(action \<Rightarrow> bool) \<Rightarrow> bool \<Rightarrow> action list \<Rightarrow> bool" where
  "well_locked G held [] = (\<not> held)"
| "well_locked G held (LockSessions # as) = (\<not> held \<and> well_locked G True as)"
| "well_locked G held (UnlockSessions # as) = (held \<and> well_locked G False as)"
| "well_locked G held (a # as) = ((G a \<longrightarrow> held) \<and> well_locked G held as)"

lemma well_locked_append:
  "well_locked G held as \<Longrightarrow> well_locked G False bs \<Longrightarrow> well_locked G held (as @ bs)"
  by (induction G held "as" rule: well_locked.induct) auto

lemma well_locked_concat: "(\<And>as. as \<in> set ass \<Longrightarrow> well_locked G False as) \<Longrightarrow> well_locked G False (concat ass)"
  by (induction ass) (auto intro: well_locked_append)

lemma client_writes_locked: "well_locked writesTable False (client_acts c)"
  by (cases c) (auto simp: acts_defs intro!: well_locked_concat)

lemma client_fully_locked: "\<not> readsUnlocked c \<Longrightarrow> well_locked touchesTable False (client_acts c)"
  by (cases c) (auto simp: acts_defs intro!: well_locked_concat)

definition thread_inv :: "client \<Rightarrow> bool \<Rightarrow> action list \<Rightarrow> bool" where
  "thread_inv c held as \<longleftrightarrow> (\<exists>pre. client_acts c = pre @ as) \<and> well_locked writesTable held as \<and>
     (readsUnlocked c \<or> well_locked touchesTable held as)"

definition table_inv :: "client list \<Rightarrow> shared \<Rightarrow> bool" where
  "table_inv cs s \<longleftrightarrow> length (sh_threads s) = length cs \<and> (\<forall>h. sh_holder s = Some h \<longrightarrow> h < length cs) \<and>
     (\<forall>i < length cs. thread_inv (cs ! i) (sh_holder s = Some i) (sh_threads s ! i))"

lemma advance_cases:
  assumes "advance i s = Some t"
  obtains a rest where "\<not> sh_crashed s" "i < length (sh_threads s)" "sh_threads s ! i = a # rest"
    "perform i a (s\<lparr>sh_threads := (sh_threads s)[i := rest]\<rparr>) = Some t"
    "sh_threads t = (sh_threads s)[i := rest]"
proof -
  obtain a rest where a: "\<not> sh_crashed s" "i < length (sh_threads s)" "sh_threads s ! i = a # rest"
    "perform i a (s\<lparr>sh_threads := (sh_threads s)[i := rest]\<rparr>) = Some t"
    using assms by (auto simp: advance_def split: if_splits list.splits)
  moreover have "sh_threads t = (sh_threads s)[i := rest]"
    using a(4) by (cases a) (auto split: option.splits)
  ultimately show ?thesis using that by blast
qed

lemma thread_inv_tail: "thread_inv c held (a # as) \<Longrightarrow> \<exists>pre. client_acts c = pre @ as"
  unfolding thread_inv_def by (metis append.assoc append_Cons append_Nil)

lemma thread_inv_step:
  assumes "thread_inv c held (a # as)"
  shows "a = LockSessions \<Longrightarrow> \<not> held \<and> thread_inv c True as"
    and "a = UnlockSessions \<Longrightarrow> held \<and> thread_inv c False as"
    and "touchesTable a \<Longrightarrow> thread_inv c held as"
    and "writesTable a \<Longrightarrow> held"
    and "touchesTable a \<Longrightarrow> readsUnlocked c \<or> held"
  using assms thread_inv_tail [OF assms] by (cases a; auto simp: thread_inv_def)+

lemma table_inv_advance:
  assumes "advance i s = Some t" and inv: "table_inv cs s"
  shows "table_inv cs t"
  using assms(1)
proof (cases rule: advance_cases)
  case (1 a rest)
  have i: "i < length cs" using 1(2) inv by (simp add: table_inv_def)
  have th: "thread_inv (cs ! i) (sh_holder s = Some i) (a # rest)" using inv i 1(3) by (auto simp: table_inv_def)
  have "thread_inv (cs ! i) (sh_holder t = Some i) rest \<and>
      (\<forall>j. j \<noteq> i \<longrightarrow> (sh_holder t = Some j) = (sh_holder s = Some j)) \<and> (\<forall>h. sh_holder t = Some h \<longrightarrow> h < length cs)"
    using thread_inv_step [OF th] 1(4) inv i by (cases a) (auto simp: table_inv_def split: option.splits)
  then show ?thesis
    using inv 1(5) i by (simp add: table_inv_def nth_list_update)
qed

interpretation table_lock: inductive_invariant table_step "table_inv cs" for cs
  by unfold_locales (auto elim!: table_step.cases intro: table_inv_advance)

lemma table_inv_start: "table_inv cs (table_start w cs)"
  using client_fully_locked
  by (fastforce simp: table_inv_def table_start_def thread_inv_def client_writes_locked)

lemma reached_inv: "steps_to table_step (table_start w cs) t \<Longrightarrow> table_inv cs t"
  using table_lock.inv_steps table_inv_start by blast

section \<open>Conflicts\<close>

lemma writer_acts: "a \<in> set (client_acts c) \<Longrightarrow> writesTable a \<Longrightarrow> writer c"
  by (cases c) (auto simp: acts_defs set_replicate_conv_if split: if_splits)

lemma conflict_shape:
  assumes "table_inv cs t" and "conflict t i j"
  shows "i < length cs \<and> j < length cs \<and> i \<noteq> j \<and> sh_holder t = Some i \<and> writer (cs ! i) \<and> readsUnlocked (cs ! j)"
proof -
  obtain a as' b bs where ab: "i < length cs" "j < length cs" "i \<noteq> j" "sh_threads t ! i = a # as'"
    "sh_threads t ! j = b # bs" "writesTable a" "touchesTable b"
    using assms by (auto simp: conflict_def table_inv_def split: list.splits)
  then have th: "thread_inv (cs ! i) (sh_holder t = Some i) (a # as')"
      "thread_inv (cs ! j) (sh_holder t = Some j) (b # bs)"
    using assms(1) by (auto simp: table_inv_def)
  have "sh_holder t = Some i" using thread_inv_step(4) [OF th(1) ab(6)] .
  moreover have "writer (cs ! i)" using th(1) ab(6) by (auto simp: thread_inv_def intro: writer_acts)
  moreover have "readsUnlocked (cs ! j)" using thread_inv_step(5) [OF th(2) ab(7)] calculation(1) ab(3) by auto
  ultimately show ?thesis using ab by simp
qed

lemma schedule_steps: "schedule is s = Some t \<Longrightarrow> steps_to table_step s t"
proof (induction "is" arbitrary: s)
  case Nil
  then show ?case by (simp add: steps_to.here)
next
  case (Cons i "is")
  then obtain u where "advance i s = Some u" "steps_to table_step u t"
    by (auto split: option.splits)
  then show ?case by (blast intro: steps_to_first table_stepI)
qed

lemma schedule_append: "schedule (xs @ ys) s = (case schedule xs s of None \<Rightarrow> None | Some t \<Rightarrow> schedule ys t)"
  by (induction xs arbitrary: s) (auto split: option.splits)

text \<open>A goroutine with an unlocked access reaches it alone, and a writer then reaches its write.\<close>

definition toUnlockedRead :: "client \<Rightarrow> nat" where
  "toUnlockedRead c = (case c of Acceptor nSes now \<Rightarrow> 3 | Starter ip invite now n \<Rightarrow> 3 | _ \<Rightarrow> 0)"

lemma race_schedule:
  assumes "i < length cs" "j < length cs" "i \<noteq> j" "writer (cs ! i)" "readsUnlocked (cs ! j)"
  shows "\<exists>t. schedule (replicate (toUnlockedRead (cs ! j)) j @ [i]) (table_start w cs) = Some t \<and> conflict t i j"
proof -
  obtain a as' where a: "client_acts (cs ! i) = LockSessions # a # as'" "writesTable a"
    using assms(4) by (cases "cs ! i"; cases "case cs ! i of GcLoop rds \<Rightarrow> rds | _ \<Rightarrow> []") (auto simp: acts_defs)
  let ?s = "table_start w cs"
  have "\<exists>v bs. schedule (replicate (toUnlockedRead (cs ! j)) j) ?s =
      Some (?s\<lparr>sh_world := v, sh_threads := (map client_acts cs)[j := bs]\<rparr>) \<and> (\<exists>x xs. bs = x # xs \<and> touchesTable x)"
    (is "\<exists>v bs. ?Q v bs")
  proof (cases "toUnlockedRead (cs ! j) = 0")
    case True
    then have "\<exists>x xs. client_acts (cs ! j) = x # xs \<and> touchesTable x"
      using assms(5) by (cases "cs ! j") (auto simp: acts_defs toUnlockedRead_def)
    moreover have "(map client_acts cs)[j := client_acts (cs ! j)] = map client_acts cs"
      by (metis list_update_id map_update)
    ultimately show ?thesis
      using True by (intro exI [of _ w] exI [of _ "client_acts (cs ! j)"]) (simp add: table_start_def)
  next
    case False
    then show ?thesis using assms(2)
      by (cases "cs ! j") (auto simp: acts_defs toUnlockedRead_def numeral_3_eq_3 table_start_def advance_def)
  qed
  then obtain v bs where b: "?Q v bs" by blast
  with a show ?thesis
    using assms(1-3) by (auto simp: schedule_append table_start_def advance_def conflict_def)
qed

text \<open>
  C5. Exactly which goroutines access the session table in conflict. Writes never conflict with each
  other or with a loop over the table, whatever the schedule; and a conflicting pair of accesses is
  reachable if and only if one goroutine accepts or starts a session or collects sessions while another one handles a ping or
  a handshake or has just created a session, because those read the table without its lock.
\<close>

theorem table_conflict_iff:
  "((\<exists>t. steps_to table_step (table_start w cs) t \<and> conflict t i j) \<longleftrightarrow>
    i < length cs \<and> j < length cs \<and> i \<noteq> j \<and> writer (cs ! i) \<and> readsUnlocked (cs ! j)) \<and>
   (\<forall>t. steps_to table_step (table_start w cs) t \<and> conflict t i j \<longrightarrow> sh_holder t = Some i \<and> \<not> conflict t j i)"
proof (intro conjI iffI allI impI)
  assume "\<exists>t. steps_to table_step (table_start w cs) t \<and> conflict t i j"
  then show "i < length cs" "j < length cs" "i \<noteq> j" "writer (cs ! i)" "readsUnlocked (cs ! j)"
    using conflict_shape [OF reached_inv] by blast+
next
  assume "i < length cs \<and> j < length cs \<and> i \<noteq> j \<and> writer (cs ! i) \<and> readsUnlocked (cs ! j)"
  then show "\<exists>t. steps_to table_step (table_start w cs) t \<and> conflict t i j"
    using race_schedule [of i cs j w] schedule_steps by blast
next
  fix t assume t: "steps_to table_step (table_start w cs) t \<and> conflict t i j"
  then show "sh_holder t = Some i" using conflict_shape [OF reached_inv] by blast
  with t show "\<not> conflict t j i" using conflict_shape [OF reached_inv, of w cs t j i] by auto
qed

theorem table_conflict_iff_witness:
  "\<exists>t. steps_to table_step (table_start demo_world [PingHandler 7, Acceptor 9 unixEpoch]) t \<and> conflict t 1 0 \<and>
     sh_holder t = Some 1 \<and> \<not> conflict t 0 1"
  using table_conflict_iff [of demo_world "[PingHandler 7, Acceptor 9 unixEpoch]" 1 0] by auto

section \<open>Progress and termination\<close>

definition remaining :: "shared \<Rightarrow> nat" where
  "remaining s = sum_list (map length (sh_threads s))"

lemma remaining_decreases:
  assumes "table_step s t"
  shows "remaining t < remaining s"
  using assms
proof cases
  case (table_stepI i)
  from table_stepI show ?thesis
  proof (cases rule: advance_cases)
    case (1 a rest)
    then have "map length (sh_threads t) = (map length (sh_threads s))[i := length rest]"
      "map length (sh_threads s) ! i = Suc (length rest)"
      by (simp_all add: map_update)
    then show ?thesis
      using 1(2) elem_le_sum_list [of i "map length (sh_threads s)"]
      by (simp add: remaining_def sum_list_update)
  qed
qed

lemma holder_runs:
  assumes "table_inv cs s" and "sh_holder s = Some h"
  obtains a rest where "h < length (sh_threads s)" "sh_threads s ! h = a # rest" "a \<noteq> LockSessions"
proof -
  have h: "h < length (sh_threads s)" "thread_inv (cs ! h) True (sh_threads s ! h)"
    using assms by (auto simp: table_inv_def)
  then obtain a rest where a: "sh_threads s ! h = a # rest"
    by (cases "sh_threads s ! h") (auto simp: thread_inv_def)
  moreover have "a \<noteq> LockSessions" using a h(2) thread_inv_step(1) by metis
  ultimately show ?thesis using that h(1) by blast
qed

lemma table_progress:
  assumes inv: "table_inv cs s" and "\<not> sh_crashed s" and "\<exists>as \<in> set (sh_threads s). as \<noteq> []"
  shows "\<exists>t. table_step s t"
proof (cases "sh_holder s")
  case None
  obtain i where i: "i < length (sh_threads s)" "sh_threads s ! i \<noteq> []"
    using assms(3) by (metis in_set_conv_nth)
  then obtain a rest where a: "sh_threads s ! i = a # rest" by (cases "sh_threads s ! i") auto
  have "advance i s \<noteq> None" using a i(1) assms(2) None by (cases a) (auto simp: advance_def)
  then show ?thesis by (auto intro: table_stepI)
next
  case (Some h)
  then obtain a rest where a: "h < length (sh_threads s)" "sh_threads s ! h = a # rest" "a \<noteq> LockSessions"
    using holder_runs [OF inv] by blast
  then have "advance h s \<noteq> None" using a assms(2) by (cases a) (auto simp: advance_def)
  then show ?thesis by (auto intro: table_stepI)
qed

text \<open>
  C11. The lock never blocks the goroutines for ever: whatever the schedule, their accesses come to an
  end, and they end only with all accesses of all goroutines done or with a crash of the process; in the end the lock is free.
\<close>

theorem table_run_ends:
  "wf {(t, s). table_step s t} \<and>
   (\<forall>t. steps_to table_step (table_start w cs) t \<longrightarrow>
      (\<exists>u. table_step t u) \<or> sh_crashed t \<or> ((\<forall>as \<in> set (sh_threads t). as = []) \<and> sh_holder t = None))"
proof (intro conjI allI impI)
  show "wf {(t, s). table_step s t}"
    by (rule wf_subset [OF wf_measure [of remaining]]) (auto intro: remaining_decreases)
  fix t assume "steps_to table_step (table_start w cs) t"
  then have inv: "table_inv cs t" by (rule reached_inv)
  have free: "sh_holder t = None" if "\<forall>as \<in> set (sh_threads t). as = []"
  proof (rule ccontr)
    assume "sh_holder t \<noteq> None"
    then obtain h where "sh_holder t = Some h" by blast
    from holder_runs [OF inv this] show False using that nth_mem by (metis list.distinct(1))
  qed
  show "(\<exists>u. table_step t u) \<or> sh_crashed t \<or> ((\<forall>as \<in> set (sh_threads t). as = []) \<and> sh_holder t = None)"
    using table_progress [OF inv] free by blast
qed

theorem table_run_ends_witness:
  "\<exists>u. table_step (table_start demo_world [Scrape]) u"
proof -
  have "\<not> sh_crashed (table_start demo_world [Scrape])" "measure_acts \<in> set (sh_threads (table_start demo_world [Scrape]))"
    by (simp_all add: table_start_def)
  moreover have "measure_acts \<noteq> []" by (simp add: measure_acts_def)
  ultimately show ?thesis using table_run_ends [of demo_world "[Scrape]"] steps_to.here by metis
qed

section \<open>A session that is collected before its goroutine starts\<close>

text \<open>The accept and start steps of the process are the uninterrupted runs of these accesses.\<close>

lemma acceptor_alone:
  assumes "handleTCPconnection True inviteRequest nSes now w = (TcpInvited nSes a, ws, w')"
  shows "\<exists>t. schedule [0, 0, 0, 0] (table_start w [Acceptor nSes now]) = Some t \<and> sh_world t = w' \<and>
    sh_spawned t = [HandshakeInit Responder a] \<and> \<not> sh_crashed t"
  using assms
  by (auto simp: handleTCPconnection_def inviteRequest_def ascii_def table_start_def acts_defs advance_def
      putSession_def)

lemma starter_alone:
  assumes "startSession_attempt ip True brd True ird now w = (SessionStarted sid a, ws, w')"
  shows "\<exists>t. schedule [0, 0, 0, 0] (table_start w [Starter ip sid now 0]) = Some t \<and> sh_world t = w' \<and>
    sh_spawned t = [HandshakeInit Initiator a] \<and> \<not> sh_crashed t"
  using assms
  by (auto simp: startSession_attempt_def Let_def table_start_def acts_defs advance_def
      putSession_def split: if_splits option.splits)

text \<open>
  \<open>safe_spawns D as\<close>: when the table has the entries \<open>D\<close> and nothing is deleted, no access of \<open>as\<close> starts
  a goroutine on a missing entry.
\<close>

fun safe_spawns :: "u32 set \<Rightarrow> action list \<Rightarrow> bool" where
  "safe_spawns D [] = True"
| "safe_spawns D (InsertSession sid s # as) = safe_spawns (insert sid D) as"
| "safe_spawns D (SpawnOn r sid # as) = (sid \<in> D \<and> safe_spawns D as)"
| "safe_spawns D (CollectSessions rd # as) = False"
| "safe_spawns D (a # as) = safe_spawns D as"

lemma safe_spawns_mono: "safe_spawns D as \<Longrightarrow> D \<subseteq> D' \<Longrightarrow> safe_spawns D' as"
proof (induction D "as" arbitrary: D' rule: safe_spawns.induct)
  case (2 D sid s as')
  then show ?case by (metis insert_mono safe_spawns.simps(2))
qed auto

lemma safe_spawns_append: "safe_spawns D as \<Longrightarrow> safe_spawns D bs \<Longrightarrow> safe_spawns D (as @ bs)"
  by (induction D "as" rule: safe_spawns.induct) (auto intro: safe_spawns_mono)

lemma safe_spawns_concat: "(\<And>as. as \<in> set ass \<Longrightarrow> safe_spawns D as) \<Longrightarrow> safe_spawns D (concat ass)"
  by (induction ass) (auto intro: safe_spawns_append)

fun collects :: "client \<Rightarrow> bool" where
  "collects (GcLoop rds) = (rds \<noteq> [])"
| "collects c = False"

lemma client_safe_spawns: "\<not> collects c \<Longrightarrow> safe_spawns D (client_acts c)"
  by (cases c) (auto simp: acts_defs intro!: safe_spawns_concat)

definition spawn_inv :: "client list \<Rightarrow> shared \<Rightarrow> bool" where
  "spawn_inv cs s \<longleftrightarrow> table_inv cs s \<and> \<not> sh_crashed s \<and>
     (\<forall>as \<in> set (sh_threads s). safe_spawns (dom (sessionMap (sh_world s))) as)"

lemma spawn_inv_advance:
  assumes "advance i s = Some t" and inv: "spawn_inv cs s"
  shows "spawn_inv cs t"
  using assms(1)
proof (cases rule: advance_cases)
  case (1 a rest)
  let ?D = "dom (sessionMap (sh_world s))" and ?D' = "dom (sessionMap (sh_world t))"
  have tb: "table_inv cs t" using table_inv_advance [OF assms(1)] inv by (simp add: spawn_inv_def)
  have sp: "safe_spawns ?D (a # rest)" using inv 1(2,3) nth_mem by (metis spawn_inv_def)
  have "thread_inv (cs ! i) (sh_holder s = Some i) (a # rest)"
    using inv 1(2,3) by (auto simp: spawn_inv_def table_inv_def)
  then have "a = UnlockSessions \<Longrightarrow> sh_holder s = Some i" using thread_inv_step(2) by blast
  then have "\<not> sh_crashed t \<and> ?D \<subseteq> ?D' \<and> safe_spawns ?D' rest"
    using sp 1(1,4) by (cases a) (auto simp: putSession_def split: option.splits)
  moreover have "\<forall>as \<in> set (sh_threads s). safe_spawns ?D' as" if "?D \<subseteq> ?D'"
    using inv safe_spawns_mono [OF _ that] by (auto simp: spawn_inv_def)
  ultimately show ?thesis
    using tb 1(5) by (auto simp: spawn_inv_def dest!: set_update_subset_insert [THEN subsetD])
qed

interpretation spawning: inductive_invariant table_step "spawn_inv cs" for cs
  by unfold_locales (auto elim!: table_step.cases intro: spawn_inv_advance)

lemma spawn_inv_start:
  assumes "\<And>c. c \<in> set cs \<Longrightarrow> \<not> collects c"
  shows "spawn_inv cs (table_start w cs)"
proof -
  have "\<forall>as \<in> set (sh_threads (table_start w cs)). safe_spawns D as" for D
    using assms client_safe_spawns by (auto simp: table_start_def)
  moreover have "\<not> sh_crashed (table_start w cs)" by (simp add: table_start_def)
  ultimately show ?thesis by (simp add: spawn_inv_def table_inv_start)
qed

text \<open>The session a goroutine inserts before it starts another one on it.\<close>

fun inserted :: "client \<Rightarrow> u32 option" where
  "inserted (Acceptor nSes now) = Some nSes"
| "inserted (Starter ip invite now n) = Some invite"
| "inserted c = None"

lemma collect_schedule:
  assumes "i < length cs" "j < length cs" "inserted (cs ! i) = Some sid" "cs ! j = GcLoop (rd # rds)"
    and "unixEpoch \<le> fst (rd sid)"
  shows "\<exists>t. schedule [i, i, i, j, j, j, i] (table_start w cs) = Some t \<and> sh_crashed t"
proof -
  have "i \<noteq> j" using assms(3,4) by auto
  have old: "Minute < time_Since (fst (rd sid)) zeroTime" using assms(5) by (simp add: time_simps)
  obtain s r rest where acts: "client_acts (cs ! i) =
      [LockSessions, InsertSession sid s, UnlockSessions, SpawnOn r sid] @ rest" and new: "LastRX s = zeroTime"
    using assms(3)
    by (cases "cs ! i") (auto simp: acts_defs invitedSession_def startedSession_def zero_session_def)
  have gc: "sessionMap (sessionGC rd (putSession sid s w)) sid = None"
    using old new by (simp add: sessionGC_def putSession_def gcVerdict_def)
  show ?thesis
    using assms(1,2,4) acts gc \<open>i \<noteq> j\<close>
    by (simp add: table_start_def advance_def sessionGC_acts_def nth_list_update)
qed

text \<open>The session a goroutine creates, with the role of the handshake goroutine it starts on it.\<close>

fun creates :: "client \<Rightarrow> (role \<times> u32 \<times> session) option" where
  "creates (Acceptor nSes now) = Some (Responder, nSes, invitedSession nSes now)"
| "creates (Starter ip invite now n) = Some (Initiator, invite, startedSession ip invite now)"
| "creates c = None"

text \<open>The start of a goroutine that is due, because the session is already in the table.\<close>

fun awaits :: "action list \<Rightarrow> (role \<times> u32) option" where
  "awaits [] = None"
| "awaits (InsertSession sid ses # as) = None"
| "awaits (SpawnOn r sid # as) = Some (r, sid)"
| "awaits (a # as) = awaits as"

lemma awaits_polls: "awaits (concat (replicate n [LockSessions, LookupSession sid, UnlockSessions])) = None"
  "awaits (concat (replicate n [LockSessions, ScanSessions, UnlockSessions])) = None"
  by (induction n) auto

lemma awaits_gc: "awaits (concat (map (\<lambda>rd. [LockSessions, CollectSessions rd, UnlockSessions]) rds)) = None"
  by (induction rds) auto

lemma awaits_start: "awaits (client_acts c) = None"
  by (cases c) (auto simp: acts_defs awaits_polls awaits_gc)

lemma polls_no_table:
  "InsertSession sid ses \<notin> set (concat (replicate n [LockSessions, LookupSession k, UnlockSessions]))"
  "SpawnOn r sid \<notin> set (concat (replicate n [LockSessions, LookupSession k, UnlockSessions]))"
  by (induction n) auto

lemma creator_acts:
  assumes "creates c = Some (r, sid, ses)"
  obtains ps where "client_acts c = [LockSessions, InsertSession sid ses, UnlockSessions, SpawnOn r sid] @ ps"
    "\<And>sid ses. InsertSession sid ses \<notin> set ps" "\<And>r sid. SpawnOn r sid \<notin> set ps" "awaits ps = None"
proof -
  obtain n where "client_acts c = [LockSessions, InsertSession sid ses, UnlockSessions, SpawnOn r sid] @
      concat (replicate n [LockSessions, LookupSession sid, UnlockSessions])"
    using assms by (cases c) (auto simp: acts_defs intro: exI [of _ 0])
  then show ?thesis using that polls_no_table awaits_polls(1) by blast
qed

lemma not_creator_acts:
  "creates c = None \<Longrightarrow> InsertSession sid ses \<notin> set (client_acts c) \<and> SpawnOn r sid \<notin> set (client_acts c)"
  by (cases c) (auto simp: acts_defs)

lemma acts_insert:
  assumes "client_acts c = pre @ InsertSession sid ses # rest"
  obtains r where "creates c = Some (r, sid, ses)" "awaits rest = Some (r, sid)"
proof (cases "creates c")
  case None
  have "InsertSession sid ses \<in> set (client_acts c)" using assms by simp
  then show ?thesis using not_creator_acts [OF None] by blast
next
  case (Some x)
  then obtain r sid' ses' where x: "creates c = Some (r, sid', ses')" by (cases x) auto
  obtain ps where "client_acts c = [LockSessions, InsertSession sid' ses', UnlockSessions, SpawnOn r sid'] @ ps"
    "InsertSession sid ses \<notin> set ps" using creator_acts [OF x] by metis
  with assms show ?thesis using that [of r] x by (auto simp: append_eq_Cons_conv Cons_eq_append_conv)
qed

lemma acts_spawn:
  assumes "client_acts c = pre @ SpawnOn r sid # rest"
  shows "awaits rest = None"
proof (cases "creates c")
  case None
  have "SpawnOn r sid \<in> set (client_acts c)" using assms by simp
  then show ?thesis using not_creator_acts [OF None] by blast
next
  case (Some x)
  then obtain r' sid' ses' where x: "creates c = Some (r', sid', ses')" by (cases x) auto
  obtain ps where "client_acts c = [LockSessions, InsertSession sid' ses', UnlockSessions, SpawnOn r' sid'] @ ps"
    "SpawnOn r sid \<notin> set ps" "awaits ps = None" using creator_acts [OF x] by metis
  with assms show ?thesis by (auto simp: append_eq_Cons_conv Cons_eq_append_conv)
qed

text \<open>A handshake goroutine that runs in its role on a session created after the start by one of the goroutines.\<close>

definition own_session :: "world \<Rightarrow> client list \<Rightarrow> session list \<Rightarrow> goroutine \<Rightarrow> bool" where
  "own_session w cs h g \<longleftrightarrow> (\<exists>c \<in> set cs. \<exists>r sid ses a. creates c = Some (r, sid, ses) \<and> g = HandshakeInit r a \<and>
     length (heap w) \<le> a \<and> a < length h \<and> h ! a = ses)"

definition ids_distinct :: "client list \<Rightarrow> bool" where
  "ids_distinct cs \<longleftrightarrow> (\<forall>i < length cs. \<forall>j < length cs. i \<noteq> j \<and> inserted (cs ! i) \<noteq> None \<longrightarrow> inserted (cs ! i) \<noteq> inserted (cs ! j))"

lemma ids_distinctD:
  "ids_distinct cs \<Longrightarrow> i < length cs \<Longrightarrow> j < length cs \<Longrightarrow> i \<noteq> j \<Longrightarrow> inserted (cs ! i) = Some sid \<Longrightarrow> inserted (cs ! j) \<noteq> Some sid"
  unfolding ids_distinct_def by fastforce

lemma inserted_creates: "creates c = Some (r, sid, ses) \<Longrightarrow> inserted c = Some sid \<and> SessionID ses = sid"
  by (cases c) (auto simp: invitedSession_def startedSession_def)

text \<open>A session whose goroutine is due: it is in the table, under its creator's id, and has no goroutine yet.\<close>

definition due :: "world \<Rightarrow> client \<Rightarrow> shared \<Rightarrow> role \<Rightarrow> u32 \<Rightarrow> bool" where
  "due w c s r sid \<longleftrightarrow> (\<exists>ses a. creates c = Some (r, sid, ses) \<and> sessionMap (sh_world s) sid = Some a \<and>
     length (heap w) \<le> a \<and> a < length (heap (sh_world s)) \<and> heap (sh_world s) ! a = ses \<and> a \<notin> gAddr ` set (sh_spawned s))"

definition own_inv :: "world \<Rightarrow> client list \<Rightarrow> shared \<Rightarrow> bool" where
  "own_inv w cs s \<longleftrightarrow> spawn_inv cs s \<and> length (heap w) \<le> length (heap (sh_world s)) \<and> distinct (map gAddr (sh_spawned s)) \<and>
     (\<forall>g \<in> set (sh_spawned s). own_session w cs (heap (sh_world s)) g) \<and>
     (\<forall>i < length cs. \<forall>r sid. awaits (sh_threads s ! i) = Some (r, sid) \<longrightarrow> due w (cs ! i) s r sid)"

lemma own_session_append: "own_session w cs h g \<Longrightarrow> own_session w cs (h @ xs) g"
  unfolding own_session_def by (fastforce simp: nth_append)

lemma own_session_bound: "own_session w cs h g \<Longrightarrow> gAddr g < length h"
  by (auto simp: own_session_def)

lemma own_inv_insert:
  assumes inv: "own_inv w cs s" and ids: "ids_distinct cs" and i: "i < length cs"
    and th: "sh_threads s ! i = InsertSession sid ses # rest" and pre: "\<exists>pre. client_acts (cs ! i) = pre @ InsertSession sid ses # rest"
    and t: "sh_world t = putSession sid ses (sh_world s)" "sh_spawned t = sh_spawned s" "sh_threads t = (sh_threads s)[i := rest]" "spawn_inv cs t"
    and len: "length (sh_threads s) = length cs"
  shows "own_inv w cs t"
proof -
  obtain r where r: "creates (cs ! i) = Some (r, sid, ses)" "awaits rest = Some (r, sid)" using pre acts_insert by metis
  let ?h = "heap (sh_world s)"
  have fresh: "length ?h \<notin> gAddr ` set (sh_spawned s)" using inv own_session_bound by (fastforce simp: own_inv_def)
  have "due w (cs ! j) t r' sid'" if j: "j < length cs" "awaits (sh_threads t ! j) = Some (r', sid')" for j r' sid'
  proof (cases "j = i")
    case True
    then have "r' = r" "sid' = sid" using j(2) r(2) t(3) i len by auto
    then show ?thesis using True r(1) fresh inv t(1,2) by (auto simp: due_def putSession_def own_inv_def)
  next
    case False
    then have old: "due w (cs ! j) s r' sid'" using inv j t(3) by (auto simp: own_inv_def)
    then have "inserted (cs ! j) = Some sid'" using inserted_creates by (auto simp: due_def)
    moreover have "inserted (cs ! i) = Some sid" using inserted_creates [OF r(1)] by simp
    ultimately have "sid' \<noteq> sid" using ids_distinctD [OF ids i j(1)] False by auto
    then show ?thesis using old t(1,2) by (auto simp: due_def putSession_def nth_append)
  qed
  then show ?thesis using inv t by (auto simp: own_inv_def putSession_def own_session_append)
qed

lemma own_inv_spawn:
  assumes inv: "own_inv w cs s" and ids: "ids_distinct cs" and i: "i < length cs"
    and th: "sh_threads s ! i = SpawnOn r sid # rest" and pre: "\<exists>pre. client_acts (cs ! i) = pre @ SpawnOn r sid # rest"
    and a: "sessionMap (sh_world s) sid = Some a"
    and t: "sh_world t = sh_world s" "sh_spawned t = HandshakeInit r a # sh_spawned s" "sh_threads t = (sh_threads s)[i := rest]" "spawn_inv cs t"
    and len: "length (sh_threads s) = length cs"
  shows "own_inv w cs t"
proof -
  have "awaits (sh_threads s ! i) = Some (r, sid)" using th by simp
  then have "due w (cs ! i) s r sid" using inv i by (auto simp: own_inv_def)
  then obtain ses where ses: "creates (cs ! i) = Some (r, sid, ses)" "length (heap w) \<le> a" "a < length (heap (sh_world s))"
      "heap (sh_world s) ! a = ses" "a \<notin> gAddr ` set (sh_spawned s)" using a by (auto simp: due_def)
  have "due w (cs ! j) t r' sid'" if j: "j < length cs" "awaits (sh_threads t ! j) = Some (r', sid')" for j r' sid'
  proof (cases "j = i")
    case True
    then show ?thesis using j(2) t(3) i len acts_spawn pre by auto
  next
    case False
    then have old: "due w (cs ! j) s r' sid'" using inv j t(3) by (auto simp: own_inv_def)
    then obtain ses' b where b: "creates (cs ! j) = Some (r', sid', ses')" "sessionMap (sh_world s) sid' = Some b" "heap (sh_world s) ! b = ses'"
      by (auto simp: due_def)
    have "sid' \<noteq> sid" using ids_distinctD [OF ids i j(1)] False inserted_creates [OF b(1)] inserted_creates [OF ses(1)] by auto
    then have "b \<noteq> a" using inserted_creates [OF b(1)] inserted_creates [OF ses(1)] b(3) ses(4) by auto
    then show ?thesis using old b(2) t(1,2) by (auto simp: due_def)
  qed
  moreover have "own_session w cs (heap (sh_world s)) (HandshakeInit r a)"
    using ses i nth_mem by (fastforce simp: own_session_def)
  ultimately show ?thesis using inv t ses(5) by (auto simp: own_inv_def)
qed

lemma own_inv_other:
  assumes inv: "own_inv w cs s" and th: "sh_threads s ! i = a # rest" and aw: "awaits rest = awaits (a # rest)"
    and t: "sh_world t = sh_world s" "sh_spawned t = sh_spawned s" "sh_threads t = (sh_threads s)[i := rest]" "spawn_inv cs t"
    and len: "length (sh_threads s) = length cs"
  shows "own_inv w cs t"
proof -
  have "awaits (sh_threads t ! j) = awaits (sh_threads s ! j)" if "j < length cs" for j
    using that th aw t(3) len by (cases "j = i") auto
  then show ?thesis using inv t by (auto simp: own_inv_def due_def)
qed

lemma own_inv_advance:
  assumes adv: "advance i s = Some t" and inv: "own_inv w cs s" and ids: "ids_distinct cs"
  shows "own_inv w cs t"
  using adv
proof (cases rule: advance_cases)
  case (1 a rest)
  have sp: "spawn_inv cs s" "spawn_inv cs t" using inv spawn_inv_advance [OF adv] by (simp_all add: own_inv_def)
  then have i: "i < length cs" and len: "length (sh_threads s) = length cs" using 1(2) by (auto simp: spawn_inv_def table_inv_def)
  have pre: "\<exists>pre. client_acts (cs ! i) = pre @ a # rest" using sp(1) i 1(3) by (auto simp: spawn_inv_def table_inv_def thread_inv_def)
  have safe: "safe_spawns (dom (sessionMap (sh_world s))) (a # rest)" using sp(1) 1(2,3) nth_mem by (metis spawn_inv_def)
  note other = own_inv_other [OF inv 1(3) _ _ _ 1(5) sp(2) len]
  show ?thesis
  proof (cases a)
    case (InsertSession sid ses)
    then show ?thesis using own_inv_insert [OF inv ids i 1(3) [unfolded InsertSession] pre [unfolded InsertSession] _ _ 1(5) sp(2) len] 1(4) by auto
  next
    case (SpawnOn r sid)
    then obtain b where b: "sessionMap (sh_world s) sid = Some b" using safe by auto
    then show ?thesis using own_inv_spawn [OF inv ids i 1(3) [unfolded SpawnOn] pre [unfolded SpawnOn] b _ _ 1(5) sp(2) len] 1(4) SpawnOn by auto
  next
    case LockSessions
    then show ?thesis using 1(4) by (intro other) (auto split: option.splits)
  next
    case UnlockSessions
    then show ?thesis using 1(4) by (intro other) (auto split: option.splits)
  next
    case (LookupSession sid)
    then show ?thesis using 1(4) by (intro other) auto
  next
    case ScanSessions
    then show ?thesis using 1(4) by (intro other) auto
  qed (use safe in simp)
qed

interpretation owning: inductive_invariant table_step "\<lambda>s. own_inv w cs s \<and> ids_distinct cs" for w cs
  by unfold_locales (auto elim!: table_step.cases intro: own_inv_advance)

lemma own_inv_start: "(\<And>c. c \<in> set cs \<Longrightarrow> \<not> collects c) \<Longrightarrow> own_inv w cs (table_start w cs)"
  using spawn_inv_start [of cs w] awaits_start by (simp add: own_inv_def) (simp add: table_start_def)

text \<open>Two goroutines that create sessions of the same id start both handshake goroutines on the second one.\<close>

lemma same_id_schedule:
  assumes "i < length cs" "j < length cs" "i \<noteq> j" "inserted (cs ! i) = Some sid" "inserted (cs ! j) = Some sid"
  shows "\<exists>t r r'. schedule [i, i, i, j, j, j, i, j] (table_start w cs) = Some t \<and> \<not> sh_crashed t \<and>
    sh_spawned t = [HandshakeInit r' (Suc (length (heap w))), HandshakeInit r (Suc (length (heap w)))]"
proof -
  have acts: "\<exists>s r rest. client_acts c = LockSessions # InsertSession sid s # UnlockSessions # SpawnOn r sid # rest"
    if "inserted c = Some sid" for c using that by (cases c) (auto simp: acts_defs)
  obtain s r rest s' r' rest' where "client_acts (cs ! i) = LockSessions # InsertSession sid s # UnlockSessions # SpawnOn r sid # rest"
    "client_acts (cs ! j) = LockSessions # InsertSession sid s' # UnlockSessions # SpawnOn r' sid # rest'"
    using acts [OF assms(4)] acts [OF assms(5)] by blast
  then show ?thesis
    using assms(1-3) by (simp add: table_start_def advance_def nth_list_update putSession_def)
qed

text \<open>
  C10. The table is read again after the lock has been released, by \<open>go sessionMap[id].f()\<close>. As long as no
  collector pass runs and no two goroutines create sessions with the same id, this is harmless under every schedule: the process does not
  crash, every handshake goroutine runs, in the right role, on a session that its creator has just put into the table, and no two of them run on
  the same session. Both conditions are needed: two sessions of the same id can get both handshake goroutines on the second of them, and a
  collector pass in between deletes the new session, whose last reception is the zero time, so that the goroutine is started
  on a nil session and the process crashes.
\<close>

theorem spawn_races:
  "((\<forall>c \<in> set cs. \<not> collects c) \<and> ids_distinct cs \<longrightarrow>
     (\<forall>t. steps_to table_step (table_start w cs) t \<longrightarrow>
        \<not> sh_crashed t \<and> distinct (map gAddr (sh_spawned t)) \<and>
        (\<forall>g \<in> set (sh_spawned t). own_session w cs (heap (sh_world t)) g))) \<and>
   (i < length cs \<and> j < length cs \<and> i \<noteq> j \<and> inserted (cs ! i) = Some sid \<and> inserted (cs ! j) = Some sid \<longrightarrow>
     (\<exists>t. steps_to table_step (table_start w cs) t \<and> \<not> sh_crashed t \<and> \<not> distinct (map gAddr (sh_spawned t)))) \<and>
   (i < length cs \<and> j < length cs \<and> inserted (cs ! i) = Some sid \<and> cs ! j = GcLoop (rd # rds) \<and> unixEpoch \<le> fst (rd sid) \<longrightarrow>
     (\<exists>t. steps_to table_step (table_start w cs) t \<and> sh_crashed t))"
proof (intro conjI impI allI; (elim conjE)?)
  fix t assume "\<forall>c \<in> set cs. \<not> collects c" "ids_distinct cs" "steps_to table_step (table_start w cs) t"
  then have "own_inv w cs t" using owning.inv_steps own_inv_start by blast
  then show "\<not> sh_crashed t" "distinct (map gAddr (sh_spawned t))" "\<forall>g \<in> set (sh_spawned t). own_session w cs (heap (sh_world t)) g"
    by (simp_all add: own_inv_def spawn_inv_def)
next
  assume "i < length cs" "j < length cs" "i \<noteq> j" "inserted (cs ! i) = Some sid" "inserted (cs ! j) = Some sid"
  from same_id_schedule [OF this, of w] obtain t r r' where "schedule [i, i, i, j, j, j, i, j] (table_start w cs) = Some t" "\<not> sh_crashed t"
    "sh_spawned t = [HandshakeInit r' (Suc (length (heap w))), HandshakeInit r (Suc (length (heap w)))]" by blast
  then show "\<exists>t. steps_to table_step (table_start w cs) t \<and> \<not> sh_crashed t \<and> \<not> distinct (map gAddr (sh_spawned t))"
    using schedule_steps by (intro exI [of _ t]) (simp del: schedule.simps)
next
  assume "i < length cs" "j < length cs" "inserted (cs ! i) = Some sid" "cs ! j = GcLoop (rd # rds)" "unixEpoch \<le> fst (rd sid)"
  then show "\<exists>t. steps_to table_step (table_start w cs) t \<and> sh_crashed t"
    using collect_schedule [of i cs j sid rd rds w] schedule_steps by blast
qed

theorem spawn_races_witness:
  "(\<exists>t. steps_to table_step (table_start demo_world [Acceptor 9 unixEpoch, GcLoop [\<lambda>_. (unixEpoch, unixEpoch)]]) t \<and> sh_crashed t) \<and>
   (\<exists>t. steps_to table_step (table_start demo_world [Acceptor 9 unixEpoch, Starter None 9 unixEpoch 2]) t \<and> \<not> distinct (map gAddr (sh_spawned t))) \<and>
   (\<exists>t. steps_to table_step (table_start demo_world [Acceptor 9 unixEpoch, Starter None 8 unixEpoch 2]) t \<and>
      length (sh_spawned t) = 2 \<and> distinct (map gAddr (sh_spawned t)))"
proof (intro conjI)
  show "\<exists>t. steps_to table_step (table_start demo_world [Acceptor 9 unixEpoch, GcLoop [\<lambda>_. (unixEpoch, unixEpoch)]]) t \<and> sh_crashed t"
    using spawn_races [of "[Acceptor 9 unixEpoch, GcLoop [\<lambda>_. (unixEpoch, unixEpoch)]]" demo_world 0 1 9 "\<lambda>_. (unixEpoch, unixEpoch)" "[]"] by simp
  show "\<exists>t. steps_to table_step (table_start demo_world [Acceptor 9 unixEpoch, Starter None 9 unixEpoch 2]) t \<and> \<not> distinct (map gAddr (sh_spawned t))"
    using spawn_races [of "[Acceptor 9 unixEpoch, Starter None 9 unixEpoch 2]" demo_world 0 1 9 "\<lambda>_. (unixEpoch, unixEpoch)" "[]"] by auto
  have "ids_distinct [Acceptor 9 unixEpoch, Starter None 8 unixEpoch 2]" by (auto simp: ids_distinct_def less_Suc_eq)
  then have *: "distinct (map gAddr (sh_spawned t))"
    if "steps_to table_step (table_start demo_world [Acceptor 9 unixEpoch, Starter None 8 unixEpoch 2]) t" for t
    using that spawn_races [of "[Acceptor 9 unixEpoch, Starter None 8 unixEpoch 2]" demo_world 0 1 9 "\<lambda>_. (unixEpoch, unixEpoch)" "[]"] by simp
  obtain t where "schedule [0, 0, 0, 0, 1, 1, 1, 1] (table_start demo_world [Acceptor 9 unixEpoch, Starter None 8 unixEpoch 2]) = Some t"
    "length (sh_spawned t) = 2"
    by (simp add: table_start_def advance_def acts_defs putSession_def demo_world_def)
  then show "\<exists>t. steps_to table_step (table_start demo_world [Acceptor 9 unixEpoch, Starter None 8 unixEpoch 2]) t \<and>
      length (sh_spawned t) = 2 \<and> distinct (map gAddr (sh_spawned t))"
    using schedule_steps * by blast
qed

end
