(* ===== verification/Icmp_Base.thy ===== *)
theory Icmp_Base
  imports Prelude
begin

text \<open>
  The base of package \<open>icmp\<close> (\<open>message.go\<close>): its errors, the message types it names (from
  \<open>x/net/ipv4\<close> and \<open>x/net/ipv6\<close>), and the Internet checksum. A Go \<open>int\<close> is an \<open>int\<close>, a conversion to a
  fixed width truncates. The checksum is proved to be the complement of the one's-complement sum, and
  writing it into the two zero bytes it was computed over makes the checksum of the whole zero.
\<close>

section \<open>Errors and types\<close>

datatype icmp_error =
    errInvalidConn | errInvalidProtocol | errMessageTooShort | errHeaderTooShort | errBufferTooShort
  | errInvalidBody | errNoExtension | errInvalidExtension | errNotImplemented

type_synonym 'a icmp = "(icmp_error, 'a) go"

text \<open>The dynamic type of a \<open>Type\<close> value; \<open>OtherType\<close> stands for nil and for foreign implementations.\<close>

datatype Type = IPv4Type int | IPv6Type int | OtherType

definition protocolICMP :: int where "protocolICMP = 1"
definition protocolIPv6ICMP :: int where "protocolIPv6ICMP = 58"

fun typeProtocol :: "Type \<Rightarrow> int" where
  "typeProtocol (IPv4Type t) = protocolICMP"
| "typeProtocol (IPv6Type t) = protocolIPv6ICMP"
| "typeProtocol OtherType = 0"

abbreviation v4EchoReply :: Type where "v4EchoReply \<equiv> IPv4Type 0"
abbreviation v4DestinationUnreachable :: Type where "v4DestinationUnreachable \<equiv> IPv4Type 3"
abbreviation v4Echo :: Type where "v4Echo \<equiv> IPv4Type 8"
abbreviation v4TimeExceeded :: Type where "v4TimeExceeded \<equiv> IPv4Type 11"
abbreviation v4ParameterProblem :: Type where "v4ParameterProblem \<equiv> IPv4Type 12"
abbreviation v4Timestamp :: Type where "v4Timestamp \<equiv> IPv4Type 13"
abbreviation v4TimestampReply :: Type where "v4TimestampReply \<equiv> IPv4Type 14"
abbreviation v4ExtendedEchoRequest :: Type where "v4ExtendedEchoRequest \<equiv> IPv4Type 42"
abbreviation v4ExtendedEchoReply :: Type where "v4ExtendedEchoReply \<equiv> IPv4Type 43"
abbreviation v6DestinationUnreachable :: Type where "v6DestinationUnreachable \<equiv> IPv6Type 1"
abbreviation v6PacketTooBig :: Type where "v6PacketTooBig \<equiv> IPv6Type 2"
abbreviation v6TimeExceeded :: Type where "v6TimeExceeded \<equiv> IPv6Type 3"
abbreviation v6ParameterProblem :: Type where "v6ParameterProblem \<equiv> IPv6Type 4"
abbreviation v6EchoRequest :: Type where "v6EchoRequest \<equiv> IPv6Type 128"
abbreviation v6EchoReply :: Type where "v6EchoReply \<equiv> IPv6Type 129"
abbreviation v6ExtendedEchoRequest :: Type where "v6ExtendedEchoRequest \<equiv> IPv6Type 160"
abbreviation v6ExtendedEchoReply :: Type where "v6ExtendedEchoReply \<equiv> IPv6Type 161"

section \<open>The checksum\<close>

text \<open>
  The loop adds 16-bit words whose low byte comes first; a byte left over at the end is added as it is.
\<close>

fun checksum_loop :: "bytes \<Rightarrow> u32 \<Rightarrow> u32" where
  "checksum_loop (b0 # b1 # bs) s = checksum_loop bs (s + (push_bit 8 (ucast b1) OR ucast b0))"
| "checksum_loop [b0] s = s + ucast b0"
| "checksum_loop [] s = s"

definition checksum :: "bytes \<Rightarrow> u16" where
  "checksum b =
     (let s = checksum_loop b 0;
          s = drop_bit 16 s + (s AND 0xffff);
          s = s + drop_bit 16 s
      in NOT (ucast s))"

text \<open>The exact sum and the one's-complement representative it folds to.\<close>

fun sum16 :: "bytes \<Rightarrow> nat" where
  "sum16 (b0 # b1 # bs) = unat b0 + 256 * unat b1 + sum16 bs"
| "sum16 [b0] = unat b0"
| "sum16 [] = 0"

definition fold16 :: "nat \<Rightarrow> nat" where
  "fold16 n = (if n = 0 then 0 else 1 + (n - 1) mod 65535)"

lemma unat_byte_le: "unat (b :: byte) \<le> 255"
  using unsigned_less [of b, where 'a = nat] by simp

lemma unat_ucast_byte [simp]: "unat (ucast (b :: byte) :: u32) = unat b" "unat (ucast (b :: byte) :: u16) = unat b"
  using unat_byte_le [of b] by (simp_all add: unsigned_ucast_eq take_bit_eq_mod)

lemma unat_word16_of_bytes: "unat (push_bit 8 (ucast b1) OR ucast b0 :: u32) = unat (b0 :: byte) + 256 * unat (b1 :: byte)"
proof -
  have "push_bit 8 (ucast b1) AND (ucast b0 :: u32) = 0"
    by (rule bit_word_eqI) (auto simp: bit_simps dest: bit_imp_le_length)
  then have "push_bit 8 (ucast b1) OR ucast b0 = push_bit 8 (ucast b1) + (ucast b0 :: u32)"
    by (simp add: disjunctive_add_eq_or)
  moreover have "unat (push_bit 8 (ucast b1) :: u32) = 256 * unat b1"
    using unat_byte_le [of b1] by (simp add: push_bit_eq_mult unat_word_ariths(2))
  ultimately show ?thesis
    using unat_byte_le [of b1] unat_byte_le [of b0] by (simp add: unat_word_ariths(1))
qed

lemma sum16_bound: "sum16 b \<le> 65535 * (Suc (length b) div 2)"
proof (induction b rule: sum16.induct)
  case (1 b0 b1 bs)
  then show ?case using unat_byte_le [of b0] unat_byte_le [of b1] by simp
next
  case (2 b0)
  then show ?case using unat_byte_le [of b0] by simp
qed simp

lemma unat_checksum_loop:
  "unat s + sum16 b < 2 ^ 32 \<Longrightarrow> unat (checksum_loop b s) = unat s + sum16 b"
proof (induction b s rule: checksum_loop.induct)
  case (1 b0 b1 bs s)
  have "unat (s + (push_bit 8 (ucast b1) OR ucast b0)) = unat s + (unat b0 + 256 * unat b1)"
    using "1.prems" by (simp add: unat_word_ariths(1) unat_word16_of_bytes)
  then show ?case using 1 by (simp add: add.assoc)
next
  case (2 b0 s)
  then show ?case by (simp add: unat_word_ariths(1))
qed simp

text \<open>Adding the carry twice is enough for any 32-bit sum.\<close>

lemma fold_carry:
  assumes "n < (2 :: nat) ^ 32"
  defines "s1 \<equiv> n div 65536 + n mod 65536"
  shows "(s1 + s1 div 65536) mod 65536 = fold16 n"
proof -
  define q r where "q = n div 65536" and "r = n mod 65536"
  have qr: "q < 65536" "r < 65536" "n = 65536 * q + r" using assms by (simp_all add: q_def r_def)
  have s1: "s1 = q + r" by (simp add: s1_def q_def r_def)
  show ?thesis
  proof (cases "s1 = 0")
    case True
    with s1 qr show ?thesis by (simp add: fold16_def)
  next
    case False
    have "n - 1 = 65535 * q + (s1 - 1)" using False qr s1 by simp
    then have m: "(n - 1) mod 65535 = (s1 - 1) mod 65535" by simp
    have f: "fold16 n = 1 + (s1 - 1) mod 65535" using False qr s1 m by (auto simp: fold16_def)
    show ?thesis
    proof (cases "s1 < 65536")
      case True
      with False have "(s1 - 1) mod 65535 = s1 - 1" by simp
      with True False f show ?thesis by simp
    next
      case big: False
      have "s1 - 1 = (s1 - 65536) + 65535" using big by simp
      then have "(s1 - 1) mod 65535 = (s1 - 65536) mod 65535" by (metis mod_add_self2)
      also have "\<dots> = s1 - 65536" using qr s1 by simp
      finally have "fold16 n = s1 - 65535" using f big by simp
      moreover have "s1 div 65536 = 1" using big qr s1 by simp
      moreover have "(s1 + 1) mod 65536 = s1 - 65535" using big qr s1 by (simp add: mod_if)
      ultimately show ?thesis by simp
    qed
  qed
qed

lemma fold16_le: "fold16 n \<le> 65535"
  by (auto simp: fold16_def intro: Suc_leI)

lemma fold16_complement: "fold16 (n + (65535 - fold16 n)) = 65535"
proof (cases "n = 0")
  case True
  then show ?thesis by (simp add: fold16_def)
next
  case False
  define q r where "q = (n - 1) div 65535" and "r = (n - 1) mod 65535"
  have "n - 1 = 65535 * q + r" "r < 65535" by (simp_all add: q_def r_def)
  moreover have "fold16 n = 1 + r" using False by (simp add: fold16_def r_def)
  ultimately have "n + (65535 - fold16 n) = 65534 + 65535 * q + 1" using False by simp
  then show ?thesis by (simp add: fold16_def)
qed

lemma unat_checksum:
  assumes "length b \<le> 131072"
  shows "unat (checksum b) = 65535 - fold16 (sum16 b)"
proof -
  let ?n = "sum16 b"
  have "?n \<le> 65535 * (Suc (length b) div 2)" by (rule sum16_bound)
  also have "\<dots> \<le> 65535 * 65536" using assms by (intro mult_le_mono2) simp
  finally have n: "?n < 2 ^ 32" by simp
  let ?s = "checksum_loop b 0"
  have s: "unat ?s = ?n" using unat_checksum_loop [of 0 b] n by simp
  let ?s1 = "drop_bit 16 ?s + (?s AND 0xffff)"
  have lo: "unat (?s AND 0xffff) = ?n mod 65536"
  proof -
    have "?s AND 0xffff = take_bit 16 ?s" by (simp add: take_bit_eq_mask mask_eq_exp_minus_1)
    then show ?thesis by (simp add: unat_mod_distrib take_bit_eq_mod s)
  qed
  have s1: "unat ?s1 = ?n div 65536 + ?n mod 65536"
    using n lo s by (simp add: unat_word_ariths(1) unat_div_distrib drop_bit_eq_div)
  have "unat (?s1 + drop_bit 16 ?s1) = unat ?s1 + unat ?s1 div 65536"
    using n s1 by (simp add: unat_word_ariths(1) unat_div_distrib drop_bit_eq_div)
  then have "unat (ucast (?s1 + drop_bit 16 ?s1) :: u16) = fold16 ?n"
    using fold_carry [OF n] s1 by (simp add: unsigned_ucast_eq take_bit_eq_mod)
  moreover have "unat (NOT w) = 65535 - unat w" for w :: u16
  proof -
    have "NOT w = - 1 - w" by (simp add: not_eq_complement)
    moreover have "unat (- 1 - w) = unat (- 1 :: u16) - unat w" by (rule unat_sub) simp
    moreover have "unat (- 1 :: u16) = 65535" by (simp add: unsigned_minus_1_eq_mask mask_eq_exp_minus_1)
    ultimately show ?thesis by simp
  qed
  ultimately show ?thesis by (simp add: checksum_def Let_def)
qed

lemma sum16_append: "even (length xs) \<Longrightarrow> sum16 (xs @ ys) = sum16 xs + sum16 ys"
  by (induction xs rule: sum16.induct) auto

lemma unat_bytes_of_u16: "unat (ucast c :: byte) + 256 * unat (ucast (drop_bit 8 c) :: byte) = unat (c :: u16)"
proof -
  have "unat c < 65536" using unsigned_less [of c, where 'a = nat] by simp
  then show ?thesis
    by (simp add: unsigned_ucast_eq take_bit_eq_mod drop_bit_eq_div unat_div_distrib)
qed

text \<open>The checksum field of a message at an even offset, low byte first.\<close>

definition withChecksum :: "bytes \<Rightarrow> u16 \<Rightarrow> bytes \<Rightarrow> bytes" where
  "withChecksum pre c post = pre @ [ucast c, ucast (drop_bit 8 c)] @ post"

lemma checksum_withChecksum:
  assumes "even (length pre)" and "length pre + length post + 2 \<le> 131072"
  shows "checksum (withChecksum pre (checksum (withChecksum pre 0 post)) post) = 0"
proof -
  let ?c = "checksum (withChecksum pre 0 post)"
  have sum: "sum16 (withChecksum pre c post) = sum16 pre + unat c + sum16 post" for c
    using assms(1) unat_bytes_of_u16 [of c] by (simp add: withChecksum_def sum16_append)
  have len: "length (withChecksum pre c post) \<le> 131072" for c
    using assms(2) by (simp add: withChecksum_def)
  have "unat ?c = 65535 - fold16 (sum16 pre + sum16 post)"
    using unat_checksum [OF len, of 0] sum [of 0] by simp
  then have "sum16 (withChecksum pre ?c post) = (sum16 pre + sum16 post) + (65535 - fold16 (sum16 pre + sum16 post))"
    using sum [of ?c] by simp
  then have "unat (checksum (withChecksum pre ?c post)) = 0"
    using unat_checksum [OF len, of ?c] fold16_complement [of "sum16 pre + sum16 post"] by simp
  then show ?thesis by (simp add: unat_eq_0)
qed

text \<open>
  C24. The checksum is the complement of the one's-complement sum of the 16-bit words: for every buffer
  of at most 131072 bytes, so that the 32-bit accumulator cannot overflow, it is 65535 minus the
  representative between 1 and 65535 (0 only for a zero sum) of the exact sum modulo 65535; two
  carry additions are enough.
\<close>

theorem checksum_ones_complement:
  assumes "length b \<le> 131072"
  shows "unat (checksum b) + fold16 (sum16 b) = 65535 \<and> (fold16 (sum16 b)) mod 65535 = sum16 b mod 65535
    \<and> (fold16 (sum16 b) = 0 \<longleftrightarrow> sum16 b = 0)"
proof -
  have "fold16 n mod 65535 = n mod 65535" for n
  proof (cases n)
    case (Suc m)
    then show ?thesis by (simp add: fold16_def mod_Suc_eq)
  qed (simp add: fold16_def)
  then show ?thesis using unat_checksum [OF assms] fold16_le [of "sum16 b"] by (auto simp: fold16_def)
qed

theorem checksum_ones_complement_witness:
  "unat (checksum [1, 2, 3]) + fold16 (sum16 [1, 2, 3]) = 65535 \<and> sum16 [1, 2, 3] = 516"
  using checksum_ones_complement [of "[1, 2, 3]"] by simp

section \<open>Objects in a zeroed buffer\<close>

text \<open>
  What the multipart encoder relies on for each kind of extension object: \<open>enc\<close> writes the object at
  the start of the rest of the message buffer, which is still zero, touches only the \<open>size\<close> bytes it
  announces, writes that size and the object's class into its header, and \<open>dec\<close> reads the object back.
\<close>

locale object_codec =
  fixes size :: "'a \<Rightarrow> nat" and enc :: "'a \<Rightarrow> bytes \<Rightarrow> bytes icmp" and img :: "'a \<Rightarrow> bytes"
    and dec :: "bytes \<Rightarrow> 'a icmp" and ok :: "'a \<Rightarrow> bool" and cls :: byte
  assumes size_bounds: "ok x \<Longrightarrow> 4 \<le> size x \<and> size x < 65536"
    and length_img: "ok x \<Longrightarrow> length (img x) = size x"
    and enc_zeros: "ok x \<Longrightarrow> size x \<le> n \<Longrightarrow> enc x (replicate n 0) = Inr (img x @ replicate (n - size x) 0)"
    and img_header: "ok x \<Longrightarrow> take 3 (img x) = be16 (word_of_nat (size x)) @ [cls]"
    and dec_img: "ok x \<Longrightarrow> dec (img x) = Inr x"
begin

lemma marshal_parse: "ok x \<Longrightarrow> bind_go (enc x (replicate (size x) 0)) dec = Inr x"
  by (simp add: enc_zeros dec_img)

lemma object_length: "ok x \<Longrightarrow> length (img x @ rest) = size x + length rest"
  by (simp add: length_img)

lemma object_header:
  assumes "ok x"
  shows "getUint16 (take 2 (img x @ rest)) = (Inr (word_of_nat (size x)) :: u16 icmp)" and "(img x @ rest) ! 2 = cls"
    and "take (size x) (img x @ rest) = img x" and "drop (size x) (img x @ rest) = rest"
proof -
  have len: "3 \<le> length (img x)" using size_bounds [OF assms] length_img [OF assms] by simp
  then have eq: "img x @ rest = be16 (word_of_nat (size x)) @ [cls] @ drop 3 (img x) @ rest"
    using img_header [OF assms] by (metis append.assoc append_take_drop_id)
  show "getUint16 (take 2 (img x @ rest)) = (Inr (word_of_nat (size x)) :: u16 icmp)" "(img x @ rest) ! 2 = cls"
    unfolding eq by (simp_all add: getUint16_def be16_def)
  show "take (size x) (img x @ rest) = img x" "drop (size x) (img x @ rest) = rest"
    using length_img [OF assms] by simp_all
qed

end

lemma take_bit_self: "0 \<le> x \<Longrightarrow> x < 2 ^ n \<Longrightarrow> take_bit n x = (x :: int)"
  by (simp add: take_bit_int_eq_self)

lemma uint_word_of_int_byte [simp]: "0 \<le> x \<Longrightarrow> x < 256 \<Longrightarrow> uint (word_of_int x :: byte) = x"
  by (simp add: uint_word_of_int take_bit_eq_mod)

lemma uint_word_of_int_u16 [simp]: "0 \<le> x \<Longrightarrow> x < 65536 \<Longrightarrow> uint (word_of_int x :: u16) = x"
  by (simp add: uint_word_of_int take_bit_eq_mod)

lemma uint_word_of_int_u32 [simp]: "0 \<le> x \<Longrightarrow> x < 4294967296 \<Longrightarrow> uint (word_of_int x :: u32) = x"
  by (simp add: uint_word_of_int take_bit_eq_mod)

text \<open>\<open>b[i] |= v\<close> and \<open>b[i] ^= v\<close>\<close>

definition or_at :: "bytes \<Rightarrow> nat \<Rightarrow> byte \<Rightarrow> bytes icmp" where
  "or_at b i v = bind_go (idx b i) (\<lambda>x. store b i (x OR v))"

definition xor_at :: "bytes \<Rightarrow> nat \<Rightarrow> byte \<Rightarrow> bytes icmp" where
  "xor_at b i v = bind_go (idx b i) (\<lambda>x. store b i (x XOR v))"

lemma or_at_Inr [simp]: "i < length b \<Longrightarrow> or_at b i v = Inr (b[i := b ! i OR v])"
  by (simp add: or_at_def)

lemma xor_at_Inr [simp]: "i < length b \<Longrightarrow> xor_at b i v = Inr (b[i := b ! i XOR v])"
  by (simp add: xor_at_def)

end
