(* ===== verification/Icmp_Mpls.thy ===== *)
theory Icmp_Mpls
  imports Icmp_Base
begin

text \<open>
  MPLS label stacks (\<open>mpls.go\<close>): a label stack entry packs label, traffic class, bottom-of-stack bit
  and time to live into four bytes. Marshalling writes into the rest of the message buffer.
\<close>

record MPLSLabel =
  ml_Label :: int
  ml_TC :: int
  ml_S :: bool
  ml_TTL :: int

record MPLSLabelStack =
  ls_Class :: int
  ls_Type :: int
  ls_Labels :: "MPLSLabel list"

definition classMPLSLabelStack :: byte where "classMPLSLabelStack = 1"
definition typeIncomingMPLSLabelStack :: byte where "typeIncomingMPLSLabelStack = 1"

definition mpls_Len :: "MPLSLabelStack \<Rightarrow> nat" where
  "mpls_Len ls = 4 + 4 * length (ls_Labels ls)"

fun mpls_marshal_loop :: "MPLSLabel list \<Rightarrow> nat \<Rightarrow> bytes \<Rightarrow> bytes icmp" where
  "mpls_marshal_loop [] off b = Inr b"
| "mpls_marshal_loop (ll # lls) off b =
     bind_go (store b off (word_of_int (drop_bit 12 (ml_Label ll)))) (\<lambda>b.
     bind_go (store b (off + 1) (word_of_int (drop_bit 4 (ml_Label ll) AND 0xff))) (\<lambda>b.
     bind_go (store b (off + 2) (word_of_int (push_bit 4 (ml_Label ll) AND 0xf0))) (\<lambda>b.
     bind_go (or_at b (off + 2) (word_of_int (push_bit 1 (ml_TC ll) AND 0x0e))) (\<lambda>b.
     bind_go (if ml_S ll then or_at b (off + 2) 0x1 else Inr b) (\<lambda>b.
     bind_go (store b (off + 3) (word_of_int (ml_TTL ll))) (\<lambda>b.
       mpls_marshal_loop lls (off + 4) b))))))"

definition mpls_marshal :: "MPLSLabelStack \<Rightarrow> bytes \<Rightarrow> bytes icmp" where
  "mpls_marshal ls b =
     bind_go (putUint16 b (word_of_nat (mpls_Len ls))) (\<lambda>b.
     bind_go (store b 2 classMPLSLabelStack) (\<lambda>b.
     bind_go (store b 3 typeIncomingMPLSLabelStack) (\<lambda>b.
       mpls_marshal_loop (ls_Labels ls) 4 b)))"

definition mpls_Marshal :: "MPLSLabelStack \<Rightarrow> bytes icmp" where
  "mpls_Marshal ls = mpls_marshal ls (replicate (mpls_Len ls) 0)"

fun mpls_parse_loop :: "bytes \<Rightarrow> MPLSLabel list" where
  "mpls_parse_loop (b0 # b1 # b2 # b3 # bs) =
     \<lparr>ml_Label = push_bit 12 (uint b0) OR push_bit 4 (uint b1) OR drop_bit 4 (uint b2),
      ml_TC = drop_bit 1 (uint (b2 AND 0x0e)),
      ml_S = (b2 AND 0x1 \<noteq> 0),
      ml_TTL = uint b3\<rparr> # mpls_parse_loop bs"
| "mpls_parse_loop bs = []"

definition parseMPLSLabelStack :: "bytes \<Rightarrow> MPLSLabelStack icmp" where
  "parseMPLSLabelStack b =
     bind_go (idx b 2) (\<lambda>c. bind_go (idx b 3) (\<lambda>t. bind_go (slice_from b 4) (\<lambda>b.
       Inr \<lparr>ls_Class = uint c, ls_Type = uint t, ls_Labels = mpls_parse_loop b\<rparr>)))"

section \<open>Round trip\<close>

definition label_ok :: "MPLSLabel \<Rightarrow> bool" where
  "label_ok ll \<longleftrightarrow> 0 \<le> ml_Label ll \<and> ml_Label ll < 2 ^ 20 \<and> 0 \<le> ml_TC ll \<and> ml_TC ll < 2 ^ 3 \<and>
     0 \<le> ml_TTL ll \<and> ml_TTL ll < 2 ^ 8"

text \<open>What the object can carry: fields within their widths, class and type as the code fixes them.\<close>

definition mpls_ok :: "MPLSLabelStack \<Rightarrow> bool" where
  "mpls_ok ls \<longleftrightarrow> ls_Class ls = 1 \<and> ls_Type ls = 1 \<and> (\<forall>ll \<in> set (ls_Labels ls). label_ok ll) \<and> mpls_Len ls < 65536"

definition label_image :: "MPLSLabel \<Rightarrow> bytes" where
  "label_image ll =
     [word_of_int (drop_bit 12 (ml_Label ll)), word_of_int (drop_bit 4 (ml_Label ll) AND 0xff),
      word_of_int (push_bit 4 (ml_Label ll) AND 0xf0) OR word_of_int (push_bit 1 (ml_TC ll) AND 0x0e) OR (if ml_S ll then 1 else 0),
      word_of_int (ml_TTL ll)]"

definition mpls_image :: "MPLSLabelStack \<Rightarrow> bytes" where
  "mpls_image ls = be16 (word_of_nat (mpls_Len ls)) @ [classMPLSLabelStack, typeIncomingMPLSLabelStack] @
     concat (map label_image (ls_Labels ls))"

lemma length_label_image [simp]: "length (label_image ll) = 4"
  by (simp add: label_image_def)

lemma length_concat_labels [simp]: "length (concat (map label_image lls)) = 4 * length lls"
  by (induction lls) auto

lemma mpls_marshal_loop_zeros:
  "length pre = off \<Longrightarrow> 4 * length lls \<le> n \<Longrightarrow>
   mpls_marshal_loop lls off (pre @ replicate n 0) =
     Inr (pre @ concat (map label_image lls) @ replicate (n - 4 * length lls) 0)"
proof (induction lls arbitrary: pre off n)
  case Nil
  then show ?case by simp
next
  case (Cons ll lls)
  obtain m where n: "n = Suc (Suc (Suc (Suc m)))" using Cons.prems(2)
    by (intro that [of "n - 4"]) simp
  have "mpls_marshal_loop (ll # lls) off (pre @ replicate n 0) =
      mpls_marshal_loop lls (off + 4) ((pre @ label_image ll) @ replicate m 0)"
    using Cons.prems(1) n by (simp add: list_update_append nth_append label_image_def or.assoc)
  also have "\<dots> = Inr ((pre @ label_image ll) @ concat (map label_image lls) @ replicate (m - 4 * length lls) 0)"
    using Cons.prems n by (intro Cons.IH) auto
  finally show ?case using n by simp
qed

text \<open>The masks of the code as contiguous runs of bits.\<close>

lemma mask_bits:
  "bit (0xff :: int) n \<longleftrightarrow> n < 8" "bit (0xf0 :: int) n \<longleftrightarrow> 4 \<le> n \<and> n < 8"
  "bit (0x0e :: int) n \<longleftrightarrow> 1 \<le> n \<and> n < 4" "bit (0x0e :: byte) n \<longleftrightarrow> 1 \<le> n \<and> n < 4"
proof -
  have "(0xff :: int) = mask 8" "(0xf0 :: int) = push_bit 4 (mask 4)" by (simp_all add: mask_eq_exp_minus_1)
  then show "bit (0xff :: int) n \<longleftrightarrow> n < 8" "bit (0xf0 :: int) n \<longleftrightarrow> 4 \<le> n \<and> n < 8"
    by (auto simp only: bit_simps) auto
  have "bit (push_bit 1 (mask 3) :: int) n \<longleftrightarrow> 1 \<le> n \<and> n < 4" by (subst bit_push_bit_iff) (auto simp: bit_mask_iff)
  then show i: "bit (0x0e :: int) n \<longleftrightarrow> 1 \<le> n \<and> n < 4" by (simp add: mask_eq_exp_minus_1)
  have "bit (word_of_int 0x0e :: byte) n \<longleftrightarrow> n < 8 \<and> bit (0x0e :: int) n" by (simp only: bit_word_of_int_iff) simp
  then show "bit (0x0e :: byte) n \<longleftrightarrow> 1 \<le> n \<and> n < 4" using i by auto
qed

lemma bit_times_two: "bit (x * 2) n \<longleftrightarrow> 0 < n \<and> bit x (n - 1)" for x :: int
  by (simp add: bit_double_iff mult.commute [of x])

lemma bit_bounded: "0 \<le> x \<Longrightarrow> x < 2 ^ k \<Longrightarrow> bit x n \<Longrightarrow> n < k" for x :: int
  using take_bit_self [of x k] by (metis bit_take_bit_iff)

lemma label_fields:
  assumes "label_ok ll"
  defines "w \<equiv> word_of_int (push_bit 4 (ml_Label ll) AND 0xf0) OR word_of_int (push_bit 1 (ml_TC ll) AND 0x0e) OR (if ml_S ll then 1 else 0) :: byte"
  shows "push_bit 12 (uint (word_of_int (drop_bit 12 (ml_Label ll)) :: byte)) OR
      push_bit 4 (uint (word_of_int (drop_bit 4 (ml_Label ll) AND 0xff) :: byte)) OR drop_bit 4 (uint w) = ml_Label ll"
    and "drop_bit 1 (uint (w AND 0x0e)) = ml_TC ll" and "(w AND 0x1 \<noteq> 0) = ml_S ll"
proof -
  have L: "bit (ml_Label ll) n \<Longrightarrow> n < 20" and T: "bit (ml_TC ll) n \<Longrightarrow> n < 3" for n
    using assms(1) bit_bounded by (auto simp: label_ok_def)
  have wbit: "bit w n \<longleftrightarrow> n < 8 \<and> (4 \<le> n \<and> bit (ml_Label ll) (n - 4) \<or> 1 \<le> n \<and> n < 4 \<and> bit (ml_TC ll) (n - 1) \<or> n = 0 \<and> ml_S ll)" for n
    by (auto simp: w_def mask_bits bit_times_two bit_simps)
  have low: "word_of_int (x AND 0xff) = (word_of_int x :: byte)" for x
    by (rule bit_word_eqI) (auto simp: bit_simps mask_bits)
  show "push_bit 12 (uint (word_of_int (drop_bit 12 (ml_Label ll)) :: byte)) OR
      push_bit 4 (uint (word_of_int (drop_bit 4 (ml_Label ll) AND 0xff) :: byte)) OR drop_bit 4 (uint w) = ml_Label ll"
    unfolding low
  proof (rule bit_eqI)
    fix n :: nat
    consider "n < 4" | "4 \<le> n" "n < 12" | "12 \<le> n" "n < 20" | "20 \<le> n" by linarith
    then show "bit (push_bit 12 (uint (word_of_int (drop_bit 12 (ml_Label ll)) :: byte)) OR
      push_bit 4 (uint (word_of_int (drop_bit 4 (ml_Label ll)) :: byte)) OR drop_bit 4 (uint w)) n = bit (ml_Label ll) n"
      using L [of n] by cases (auto simp: bit_simps wbit mask_bits)
  qed
  show "drop_bit 1 (uint (w AND 0x0e)) = ml_TC ll"
  proof (rule bit_eqI)
    fix n :: nat
    have "bit (drop_bit 1 (uint (w AND 0x0e))) n \<longleftrightarrow> bit (w AND 0x0e) (1 + n)"
      by (simp only: bit_drop_bit_eq comp_apply bit_uint_iff) (auto dest: bit_imp_le_length)
    also have "\<dots> \<longleftrightarrow> bit w (1 + n) \<and> 1 \<le> 1 + n \<and> 1 + n < 4" by (simp only: bit_and_iff mask_bits(4))
    finally show "bit (drop_bit 1 (uint (w AND 0x0e))) n = bit (ml_TC ll) n"
      using T [of n] by (auto simp: wbit)
  qed
  have "w AND 1 = (if bit w 0 then 1 else 0)" by (simp add: and_one_eq mod_2_eq_odd bit_0)
  then show "(w AND 0x1 \<noteq> 0) = ml_S ll" by (simp add: wbit)
qed

lemma mpls_parse_labels:
  "\<forall>ll \<in> set lls. label_ok ll \<Longrightarrow> mpls_parse_loop (concat (map label_image lls)) = lls"
proof (induction lls)
  case (Cons ll lls)
  then have "label_ok ll" by simp
  with Cons label_fields [OF this] show ?case by (simp add: label_image_def label_ok_def)
qed simp

interpretation mpls: object_codec mpls_Len mpls_marshal mpls_image parseMPLSLabelStack mpls_ok classMPLSLabelStack
proof (unfold_locales, goal_cases)
  case (1 x)
  then show ?case by (simp add: mpls_ok_def mpls_Len_def)
next
  case (2 x)
  then show ?case by (simp add: mpls_image_def mpls_Len_def)
next
  case (3 x n)
  then obtain m where n: "n = Suc (Suc (Suc (Suc m)))" by (intro that [of "n - 4"]) (simp add: mpls_Len_def)
  with 3 mpls_marshal_loop_zeros [of "be16 (word_of_nat (mpls_Len x)) @ [classMPLSLabelStack, typeIncomingMPLSLabelStack]" 4 "ls_Labels x" m]
  show ?case by (simp add: mpls_marshal_def putUint16_def go_copy_def be16_def mpls_image_def mpls_Len_def)
next
  case (4 x)
  then show ?case by (simp add: mpls_image_def be16_def)
next
  case (5 x)
  then show ?case using mpls_parse_labels [of "ls_Labels x"]
    by (simp add: parseMPLSLabelStack_def mpls_image_def be16_def mpls_ok_def classMPLSLabelStack_def typeIncomingMPLSLabelStack_def)
qed

end
