(* ===== verification/Icmp_Interface.thy ===== *)
theory Icmp_Interface
  imports Icmp_Base
begin

text \<open>
  Interface information and interface identification objects (\<open>interface.go\<close>). Strings are byte
  lists. The attribute set of an \<open>InterfaceInfo\<close> is a word of four bits, because both functions that
  compute one only set these four; a loop over the attributes handles one of them per turn. A
  marshalling function that advances its slice returns what lies before the new slice and the
  slice, both with the bytes it has written: a copy that runs over the end of its field is visible
  in the slice.
\<close>

section \<open>Data\<close>

record net_Interface =
  if_Index :: int
  if_MTU :: int
  if_Name :: bytes

record net_IPAddr =
  ip_IP :: bytes
  ip_Zone :: bytes

record InterfaceInfo =
  ii_Class :: int
  ii_Type :: int
  ii_Interface :: "net_Interface option"
  ii_Addr :: "net_IPAddr option"

record InterfaceIdent =
  id_Class :: int
  id_Type :: int
  id_Name :: bytes
  id_Index :: int
  id_AFI :: int
  id_Addr :: bytes

definition v4InV6Prefix :: bytes where
  "v4InV6Prefix = replicate 10 0 @ [0xff, 0xff]"

definition To4 :: "bytes \<Rightarrow> bytes option" where
  "To4 ip = (if length ip = 4 then Some ip
             else if length ip = 16 \<and> take 12 ip = v4InV6Prefix then Some (drop 12 ip) else None)"

definition To16 :: "bytes \<Rightarrow> bytes option" where
  "To16 ip = (if length ip = 4 then Some (v4InV6Prefix @ ip) else if length ip = 16 then Some ip else None)"

text \<open>\<open>x &^ (a - 1)\<close> for a power of two \<open>a\<close>.\<close>

definition alignDown :: "nat \<Rightarrow> nat \<Rightarrow> nat" where
  "alignDown x a = x - x mod a"

lemma alignDown_and_not: "int (alignDown x 4) = int x AND NOT 3"
proof -
  have "(int x AND NOT 3) AND (int x AND 3) = 0" "(int x AND NOT 3) OR (int x AND 3) = int x"
    by (rule bit_eqI; auto simp: bit_simps)+
  then have "int x AND NOT 3 = int x - (int x AND 3)" by (metis disjunctive_add_eq_or add_diff_cancel_right')
  also have "int x AND 3 = int x mod 4" using take_bit_eq_mask [of 2 "int x"] by (simp add: mask_eq_exp_minus_1 take_bit_eq_mod)
  finally show ?thesis by (simp add: alignDown_def of_nat_diff zmod_int)
qed

text \<open>\<open>strings.Trim(s, "\\000")\<close>\<close>

definition trimNul :: "bytes \<Rightarrow> bytes" where
  "trimNul s = rev (dropWhile (\<lambda>c. c = 0) (rev (dropWhile (\<lambda>c. c = 0) s)))"

text \<open>\<open>PutUint16(b[i:i+2], v)\<close> and \<open>PutUint32(b[i:i+4], v)\<close>\<close>

definition put16_at :: "bytes \<Rightarrow> nat \<Rightarrow> u16 \<Rightarrow> bytes icmp" where
  "put16_at b i v = bind_go (slice b i (i + 2)) (\<lambda>s. bind_go (putUint16 s v) (\<lambda>s. Inr (take i b @ s @ drop (i + 2) b)))"

definition put32_at :: "bytes \<Rightarrow> nat \<Rightarrow> u32 \<Rightarrow> bytes icmp" where
  "put32_at b i v = bind_go (slice b i (i + 4)) (\<lambda>s. bind_go (putUint32 s v) (\<lambda>s. Inr (take i b @ s @ drop (i + 4) b)))"

text \<open>\<open>copy(b[i:], src)\<close> and \<open>copy(b[i:j], src)\<close>\<close>

definition copy_from :: "bytes \<Rightarrow> nat \<Rightarrow> bytes \<Rightarrow> bytes icmp" where
  "copy_from b i src = bind_go (slice_from b i) (\<lambda>s. Inr (take i b @ go_copy s src))"

definition copy_range :: "bytes \<Rightarrow> nat \<Rightarrow> nat \<Rightarrow> bytes \<Rightarrow> bytes icmp" where
  "copy_range b i j src = bind_go (slice b i j) (\<lambda>s. Inr (take i b @ go_copy s src @ drop j b))"

section \<open>Interface information\<close>

type_synonym attrs = "4 word"

definition classInterfaceInfo :: byte where "classInterfaceInfo = 2"
definition attrMTU :: attrs where "attrMTU = 1"
definition attrName :: attrs where "attrName = 2"
definition attrIPAddr :: attrs where "attrIPAddr = 4"
definition attrIfIndex :: attrs where "attrIfIndex = 8"

definition nameLen :: "net_Interface \<Rightarrow> nat" where
  "nameLen ifc = (if length (if_Name ifc) > 63 then 64
                  else let l = 1 + length (if_Name ifc) in alignDown (l + 3) 4)"

definition attrsAndLen :: "int \<Rightarrow> InterfaceInfo \<Rightarrow> attrs \<times> nat" where
  "attrsAndLen proto ifi =
     (let (at, l) =
        (case ii_Interface ifi of
           None \<Rightarrow> (0, 4)
         | Some ifc \<Rightarrow>
             if if_Index ifc > 0 then
               let at = attrIfIndex; l = 4 + 4;
                   (at, l) = (if length (if_Name ifc) > 0 then (at OR attrName, l + nameLen ifc) else (at, l));
                   (at, l) = (if if_MTU ifc > 0 then (at OR attrMTU, l + 4) else (at, l))
               in (at, l)
             else (0, 4))
      in case ii_Addr ifi of
           None \<Rightarrow> (at, l)
         | Some ad \<Rightarrow>
             if proto = 1 then
               (if To4 (ip_IP ad) \<noteq> None then (at OR attrIPAddr, l + 4 + 4) else (at, l))
             else if proto = 58 then
               (if To16 (ip_IP ad) \<noteq> None \<and> To4 (ip_IP ad) = None then (at OR attrIPAddr, l + 4 + 16) else (at, l))
             else (at, l))"

definition info_Len :: "int \<Rightarrow> InterfaceInfo \<Rightarrow> nat" where
  "info_Len proto ifi = snd (attrsAndLen proto ifi)"

text \<open>\<open>advance b n\<close> is the pair of \<open>b[:n]\<close> and \<open>b[n:]\<close>.\<close>

definition advance :: "bytes \<Rightarrow> nat \<Rightarrow> (bytes \<times> bytes) icmp" where
  "advance b n = bind_go (slice_from b n) (\<lambda>s. Inr (take n b, s))"

definition marshalIfIndex :: "int \<Rightarrow> InterfaceInfo \<Rightarrow> bytes \<Rightarrow> (bytes \<times> bytes) icmp" where
  "marshalIfIndex proto ifi b =
     (case ii_Interface ifi of
        None \<Rightarrow> Inl (Panic NilDereference)
      | Some ifc \<Rightarrow> bind_go (put32_at b 0 (word_of_int (if_Index ifc))) (\<lambda>b. advance b 4))"

definition marshalIPAddr :: "int \<Rightarrow> InterfaceInfo \<Rightarrow> bytes \<Rightarrow> (bytes \<times> bytes) icmp" where
  "marshalIPAddr proto ifi b =
     (case ii_Addr ifi of
        None \<Rightarrow> Inl (Panic NilDereference)
      | Some ad \<Rightarrow>
          if proto = 1 then
            bind_go (put16_at b 0 1) (\<lambda>b.
            bind_go (copy_range b 4 (4 + 4) (case To4 (ip_IP ad) of None \<Rightarrow> [] | Some ip \<Rightarrow> ip)) (\<lambda>b. advance b (4 + 4)))
          else if proto = 58 then
            bind_go (put16_at b 0 2) (\<lambda>b.
            bind_go (copy_range b 4 (4 + 16) (case To16 (ip_IP ad) of None \<Rightarrow> [] | Some ip \<Rightarrow> ip)) (\<lambda>b. advance b (4 + 16)))
          else Inr ([], b))"

definition marshalName :: "int \<Rightarrow> InterfaceInfo \<Rightarrow> bytes \<Rightarrow> (bytes \<times> bytes) icmp" where
  "marshalName proto ifi b =
     (case ii_Interface ifi of
        None \<Rightarrow> Inl (Panic NilDereference)
      | Some ifc \<Rightarrow>
          let l = word_of_nat (nameLen ifc) :: byte in
          bind_go (store b 0 l) (\<lambda>b.
          bind_go (copy_from b 1 (if_Name ifc)) (\<lambda>b. advance b (unat l))))"

definition marshalMTU :: "int \<Rightarrow> InterfaceInfo \<Rightarrow> bytes \<Rightarrow> (bytes \<times> bytes) icmp" where
  "marshalMTU proto ifi b =
     (case ii_Interface ifi of
        None \<Rightarrow> Inl (Panic NilDereference)
      | Some ifc \<Rightarrow> bind_go (put32_at b 0 (word_of_int (if_MTU ifc))) (\<lambda>b. advance b 4))"

lemma attrs_clear_less:
  assumes "at AND m \<noteq> 0"
  shows "unat (at AND NOT m) < unat (at :: attrs)"
proof -
  have "at AND NOT m \<le> at" by (simp add: word_and_le2)
  then have "unat (at AND NOT m) \<le> unat at" by (simp add: word_le_nat_alt)
  moreover have "at AND NOT m \<noteq> at"
  proof
    assume eq: "at AND NOT m = at"
    have "(at AND NOT m) AND m = 0" by (rule bit_word_eqI) (auto simp: bit_simps)
    with assms show False by (simp only: eq)
  qed
  ultimately show ?thesis by (metis le_neq_implies_less word_unat_eq_iff)
qed

function info_marshal_loop :: "int \<Rightarrow> InterfaceInfo \<Rightarrow> attrs \<Rightarrow> bytes \<Rightarrow> bytes icmp" where
  "info_marshal_loop proto ifi at b =
     (if \<not> (length b > 0 \<and> at \<noteq> 0) then Inr b
      else if at AND attrIfIndex \<noteq> 0 then
        bind_go (marshalIfIndex proto ifi b) (\<lambda>(w, b).
        bind_go (info_marshal_loop proto ifi (at AND NOT attrIfIndex) b) (\<lambda>b. Inr (w @ b)))
      else if at AND attrIPAddr \<noteq> 0 then
        bind_go (marshalIPAddr proto ifi b) (\<lambda>(w, b).
        bind_go (info_marshal_loop proto ifi (at AND NOT attrIPAddr) b) (\<lambda>b. Inr (w @ b)))
      else if at AND attrName \<noteq> 0 then
        bind_go (marshalName proto ifi b) (\<lambda>(w, b).
        bind_go (info_marshal_loop proto ifi (at AND NOT attrName) b) (\<lambda>b. Inr (w @ b)))
      else if at AND attrMTU \<noteq> 0 then
        bind_go (marshalMTU proto ifi b) (\<lambda>(w, b).
        bind_go (info_marshal_loop proto ifi (at AND NOT attrMTU) b) (\<lambda>b. Inr (w @ b)))
      else Inr b)"
  by pat_completeness auto
termination
  by (relation "measure (\<lambda>(proto, ifi, at, b). unat at)") (auto intro: attrs_clear_less)

declare info_marshal_loop.simps [simp del]

definition info_marshal :: "int \<Rightarrow> InterfaceInfo \<Rightarrow> bytes \<Rightarrow> attrs \<Rightarrow> nat \<Rightarrow> bytes icmp" where
  "info_marshal proto ifi b at l =
     bind_go (put16_at b 0 (word_of_nat l)) (\<lambda>b.
     bind_go (store b 2 classInterfaceInfo) (\<lambda>b.
     bind_go (store b 3 (word_of_int (ii_Type ifi))) (\<lambda>b.
     bind_go (slice_from b 4) (\<lambda>s.
     bind_go (info_marshal_loop proto ifi at s) (\<lambda>s. Inr (take 4 b @ s))))))"

definition info_Marshal :: "int \<Rightarrow> InterfaceInfo \<Rightarrow> bytes icmp" where
  "info_Marshal proto ifi =
     (let (at, l) = attrsAndLen proto ifi in info_marshal proto ifi (replicate l 0) at l)"

definition parseIfIndex :: "InterfaceInfo \<Rightarrow> bytes \<Rightarrow> (InterfaceInfo \<times> bytes) icmp" where
  "parseIfIndex ifi b =
     (if length b < 4 then Inl (Error errMessageTooShort)
      else bind_go (slice b 0 4) (\<lambda>s. bind_go (getUint32 s) (\<lambda>v.
        case ii_Interface ifi of
          None \<Rightarrow> Inl (Panic NilDereference)
        | Some ifc \<Rightarrow> bind_go (slice_from b 4) (\<lambda>b. Inr (ifi\<lparr>ii_Interface := Some (ifc\<lparr>if_Index := uint v\<rparr>)\<rparr>, b)))))"

definition parseIPAddr :: "InterfaceInfo \<Rightarrow> bytes \<Rightarrow> (InterfaceInfo \<times> bytes) icmp" where
  "parseIPAddr ifi b =
     (if length b < 4 then Inl (Error errMessageTooShort)
      else bind_go (slice b 0 2) (\<lambda>s. bind_go (getUint16 s) (\<lambda>afi.
      bind_go (slice_from b 4) (\<lambda>b.
        if afi = 1 then
          (if length b < 4 then Inl (Error errMessageTooShort)
           else case ii_Addr ifi of
             None \<Rightarrow> Inl (Panic NilDereference)
           | Some ad \<Rightarrow> bind_go (slice b 0 4) (\<lambda>ip. bind_go (slice_from b 4) (\<lambda>b.
               Inr (ifi\<lparr>ii_Addr := Some (ad\<lparr>ip_IP := go_copy (replicate 4 0) ip\<rparr>)\<rparr>, b))))
        else if afi = 2 then
          (if length b < 16 then Inl (Error errMessageTooShort)
           else case ii_Addr ifi of
             None \<Rightarrow> Inl (Panic NilDereference)
           | Some ad \<Rightarrow> bind_go (slice b 0 16) (\<lambda>ip. bind_go (slice_from b 16) (\<lambda>b.
               Inr (ifi\<lparr>ii_Addr := Some (ad\<lparr>ip_IP := go_copy (replicate 16 0) ip\<rparr>)\<rparr>, b))))
        else Inr (ifi, b)))))"

definition parseName :: "InterfaceInfo \<Rightarrow> bytes \<Rightarrow> (InterfaceInfo \<times> bytes) icmp" where
  "parseName ifi b =
     (if 4 > length b then Inl (Error errMessageTooShort)
      else bind_go (idx b 0) (\<lambda>b0.
        if length b < unat b0 then Inl (Error errMessageTooShort)
        else let l = unat b0 in
          if l mod 4 \<noteq> 0 \<or> 4 > l \<or> l > 64 then Inl (Error errInvalidExtension)
          else bind_go (slice b 1 l) (\<lambda>s.
            case ii_Interface ifi of
              None \<Rightarrow> Inl (Panic NilDereference)
            | Some ifc \<Rightarrow> bind_go (slice_from b l) (\<lambda>b.
                Inr (ifi\<lparr>ii_Interface := Some (ifc\<lparr>if_Name := trimNul (go_copy (replicate 63 0) s)\<rparr>)\<rparr>, b)))))"

definition parseMTU :: "InterfaceInfo \<Rightarrow> bytes \<Rightarrow> (InterfaceInfo \<times> bytes) icmp" where
  "parseMTU ifi b =
     (if length b < 4 then Inl (Error errMessageTooShort)
      else bind_go (slice b 0 4) (\<lambda>s. bind_go (getUint32 s) (\<lambda>v.
        case ii_Interface ifi of
          None \<Rightarrow> Inl (Panic NilDereference)
        | Some ifc \<Rightarrow> bind_go (slice_from b 4) (\<lambda>b. Inr (ifi\<lparr>ii_Interface := Some (ifc\<lparr>if_MTU := uint v\<rparr>)\<rparr>, b)))))"

function info_parse_loop :: "InterfaceInfo \<Rightarrow> attrs \<Rightarrow> bytes \<Rightarrow> InterfaceInfo icmp" where
  "info_parse_loop ifi at b =
     (if \<not> (length b > 0 \<and> at \<noteq> 0) then Inr ifi
      else if at AND attrIfIndex \<noteq> 0 then
        bind_go (parseIfIndex ifi b) (\<lambda>(ifi, b). info_parse_loop ifi (at AND NOT attrIfIndex) b)
      else if at AND attrIPAddr \<noteq> 0 then
        bind_go (parseIPAddr ifi b) (\<lambda>(ifi, b). info_parse_loop ifi (at AND NOT attrIPAddr) b)
      else if at AND attrName \<noteq> 0 then
        bind_go (parseName ifi b) (\<lambda>(ifi, b). info_parse_loop ifi (at AND NOT attrName) b)
      else if at AND attrMTU \<noteq> 0 then
        bind_go (parseMTU ifi b) (\<lambda>(ifi, b). info_parse_loop ifi (at AND NOT attrMTU) b)
      else Inr ifi)"
  by pat_completeness auto
termination
  by (relation "measure (\<lambda>(ifi, at, b). unat at)") (auto intro: attrs_clear_less)

declare info_parse_loop.simps [simp del]

definition zero_Interface :: net_Interface where
  "zero_Interface = \<lparr>if_Index = 0, if_MTU = 0, if_Name = []\<rparr>"

definition zero_IPAddr :: net_IPAddr where
  "zero_IPAddr = \<lparr>ip_IP = [], ip_Zone = []\<rparr>"

text \<open>The zone of an IPv6 address is the interface name, once both have been read.\<close>

definition setZone :: "InterfaceInfo \<Rightarrow> InterfaceInfo" where
  "setZone ifi =
     (case (ii_Interface ifi, ii_Addr ifi) of
        (Some ifc, Some ad) \<Rightarrow>
          if if_Name ifc \<noteq> [] \<and> To16 (ip_IP ad) \<noteq> None \<and> To4 (ip_IP ad) = None
          then ifi\<lparr>ii_Addr := Some (ad\<lparr>ip_Zone := if_Name ifc\<rparr>)\<rparr> else ifi
      | _ \<Rightarrow> ifi)"

definition parseInterfaceInfo :: "bytes \<Rightarrow> InterfaceInfo icmp" where
  "parseInterfaceInfo b =
     bind_go (idx b 2) (\<lambda>c. bind_go (idx b 3) (\<lambda>t.
       let at = ucast t :: attrs;
           ifi = \<lparr>ii_Class = uint c, ii_Type = uint t,
             ii_Interface = (if at AND (attrIfIndex OR attrName OR attrMTU) \<noteq> 0 then Some zero_Interface else None),
             ii_Addr = (if at AND attrIPAddr \<noteq> 0 then Some zero_IPAddr else None)\<rparr>
       in bind_go (slice_from b 4) (\<lambda>b. bind_go (info_parse_loop ifi at b) (\<lambda>ifi. Inr (setZone ifi)))))"

section \<open>Interface identification\<close>

definition classInterfaceIdent :: byte where "classInterfaceIdent = 3"
definition typeInterfaceByName :: int where "typeInterfaceByName = 1"
definition typeInterfaceByIndex :: int where "typeInterfaceByIndex = 2"
definition typeInterfaceByAddress :: int where "typeInterfaceByAddress = 3"

definition ident_Len :: "InterfaceIdent \<Rightarrow> nat" where
  "ident_Len ifi =
     (if id_Type ifi = typeInterfaceByName then
        let l = length (id_Name ifi); l = (if l > 255 then 255 else l) in 4 + alignDown (l + 3) 4
      else if id_Type ifi = typeInterfaceByIndex then 4 + 4
      else if id_Type ifi = typeInterfaceByAddress then 4 + 4 + alignDown (length (id_Addr ifi) + 3) 4
      else 4)"

definition ident_marshal :: "InterfaceIdent \<Rightarrow> bytes \<Rightarrow> bytes icmp" where
  "ident_marshal ifi b =
     bind_go (put16_at b 0 (word_of_nat (ident_Len ifi))) (\<lambda>b.
     bind_go (store b 2 classInterfaceIdent) (\<lambda>b.
     bind_go (store b 3 (word_of_int (id_Type ifi))) (\<lambda>b.
       if id_Type ifi = typeInterfaceByName then copy_from b 4 (id_Name ifi)
       else if id_Type ifi = typeInterfaceByIndex then put32_at b 4 (word_of_int (id_Index ifi))
       else if id_Type ifi = typeInterfaceByAddress then
         bind_go (put16_at b 4 (word_of_int (id_AFI ifi))) (\<lambda>b.
         bind_go (store b (4 + 2) (word_of_nat (length (id_Addr ifi)))) (\<lambda>b.
           copy_from b (4 + 4) (id_Addr ifi)))
       else Inr b)))"

definition ident_Marshal :: "InterfaceIdent \<Rightarrow> bytes icmp" where
  "ident_Marshal ifi = ident_marshal ifi (replicate (ident_Len ifi) 0)"

definition parseInterfaceIdent :: "bytes \<Rightarrow> InterfaceIdent icmp" where
  "parseInterfaceIdent b =
     bind_go (idx b 2) (\<lambda>c. bind_go (idx b 3) (\<lambda>t.
       let ifi = \<lparr>id_Class = uint c, id_Type = uint t, id_Name = [], id_Index = 0, id_AFI = 0, id_Addr = []\<rparr> in
       if id_Type ifi = typeInterfaceByName then
         bind_go (slice_from b 4) (\<lambda>s. Inr (ifi\<lparr>id_Name := trimNul s\<rparr>))
       else if id_Type ifi = typeInterfaceByIndex then
         bind_go (slice_from b 4) (\<lambda>s.
           if length s < 4 then Inl (Error errInvalidExtension)
           else bind_go (slice b 4 (4 + 4)) (\<lambda>s. bind_go (getUint32 s) (\<lambda>v. Inr (ifi\<lparr>id_Index := uint v\<rparr>))))
       else if id_Type ifi = typeInterfaceByAddress then
         bind_go (slice_from b 4) (\<lambda>s.
           if length s < 4 then Inl (Error errInvalidExtension)
           else bind_go (slice b 4 (4 + 2)) (\<lambda>s. bind_go (getUint16 s) (\<lambda>afi.
             bind_go (idx b (4 + 2)) (\<lambda>l. bind_go (slice_from b (4 + 4)) (\<lambda>s.
               if length s < unat l then Inl (Error errInvalidExtension)
               else Inr (ifi\<lparr>id_AFI := uint afi, id_Addr := go_copy (replicate (unat l) 0) s\<rparr>))))))
       else Inr ifi))"

section \<open>Writing into a zeroed buffer\<close>

lemma put16_at_Inr [simp]: "i + 2 \<le> length b \<Longrightarrow> put16_at b i v = Inr (take i b @ be16 v @ drop (i + 2) b)"
  by (simp add: put16_at_def putUint16_def go_copy_def)

lemma put32_at_Inr [simp]: "i + 4 \<le> length b \<Longrightarrow> put32_at b i v = Inr (take i b @ be32 v @ drop (i + 4) b)"
  by (simp add: put32_at_def putUint32_def go_copy_def)

lemma copy_from_Inr [simp]: "i \<le> length b \<Longrightarrow> copy_from b i src = Inr (take i b @ go_copy (drop i b) src)"
  by (simp add: copy_from_def)

lemma copy_range_Inr [simp]:
  "i \<le> j \<Longrightarrow> j \<le> length b \<Longrightarrow> copy_range b i j src = Inr (take i b @ go_copy (take (j - i) (drop i b)) src @ drop j b)"
  by (simp add: copy_range_def)

lemma advance_Inr [simp]: "n \<le> length b \<Longrightarrow> advance b n = Inr (take n b, drop n b)"
  by (simp add: advance_def)

lemma go_copy_zeros: "length src \<le> n \<Longrightarrow> go_copy (replicate n 0) src = src @ replicate (n - length src) 0"
  by (simp add: go_copy_def)

definition trimmed :: "bytes \<Rightarrow> bool" where
  "trimmed s \<longleftrightarrow> s = [] \<or> (hd s \<noteq> 0 \<and> last s \<noteq> 0)"

lemma trimNul_pad:
  assumes "trimmed s"
  shows "trimNul (s @ replicate k 0) = s"
proof (cases "s = []")
  case True
  then show ?thesis by (simp add: trimNul_def)
next
  case False
  then have "hd s \<noteq> 0" "last s \<noteq> 0" using assms by (auto simp: trimmed_def)
  with False have "dropWhile (\<lambda>c. c = 0) (s @ replicate k 0) = s @ replicate k 0"
    by (cases s) auto
  moreover have "dropWhile (\<lambda>c. c = 0) (replicate k 0 @ rev s) = rev s"
  proof -
    obtain c t where "rev s = c # t" "c = last s" using False by (metis hd_rev list.collapse rev_is_Nil_conv)
    then show ?thesis using \<open>last s \<noteq> 0\<close> by (simp add: dropWhile_append del: rev_eq_Cons_iff)
  qed
  ultimately show ?thesis by (simp add: trimNul_def)
qed

lemma alignDown_4: "alignDown (l + 3) 4 \<ge> l" "alignDown (l + 3) 4 \<le> l + 3" "alignDown (l + 3) 4 mod 4 = 0"
proof -
  have "(l + 3) mod 4 < 4" by simp
  then show "alignDown (l + 3) 4 \<ge> l" "alignDown (l + 3) 4 \<le> l + 3" unfolding alignDown_def by linarith+
  show "alignDown (l + 3) 4 mod 4 = 0" by (simp add: alignDown_def minus_mod_eq_mult_div)
qed

section \<open>Identification objects round trip\<close>

definition ident_ok :: "InterfaceIdent \<Rightarrow> bool" where
  "ident_ok ifi \<longleftrightarrow> id_Class ifi = 3 \<and> 0 \<le> id_Type ifi \<and> id_Type ifi < 256 \<and>
     (if id_Type ifi = typeInterfaceByName then trimmed (id_Name ifi) \<and> length (id_Name ifi) \<le> 255 else id_Name ifi = []) \<and>
     (if id_Type ifi = typeInterfaceByIndex then 0 \<le> id_Index ifi \<and> id_Index ifi < 2 ^ 32 else id_Index ifi = 0) \<and>
     (if id_Type ifi = typeInterfaceByAddress then 0 \<le> id_AFI ifi \<and> id_AFI ifi < 2 ^ 16 \<and> length (id_Addr ifi) \<le> 255
      else id_AFI ifi = 0 \<and> id_Addr ifi = [])"

definition ident_image :: "InterfaceIdent \<Rightarrow> bytes" where
  "ident_image ifi = be16 (word_of_nat (ident_Len ifi)) @ [classInterfaceIdent, word_of_int (id_Type ifi)] @
     (if id_Type ifi = typeInterfaceByName then
        id_Name ifi @ replicate (ident_Len ifi - 4 - length (id_Name ifi)) 0
      else if id_Type ifi = typeInterfaceByIndex then be32 (word_of_int (id_Index ifi))
      else if id_Type ifi = typeInterfaceByAddress then
        be16 (word_of_int (id_AFI ifi)) @ [word_of_nat (length (id_Addr ifi)), 0] @
        id_Addr ifi @ replicate (ident_Len ifi - 8 - length (id_Addr ifi)) 0
      else [])"

lemmas ident_types = typeInterfaceByName_def typeInterfaceByIndex_def typeInterfaceByAddress_def

lemma ident_Len_bounds:
  assumes "ident_ok ifi"
  shows "4 \<le> ident_Len ifi" "ident_Len ifi < 65536"
    "id_Type ifi = typeInterfaceByName \<Longrightarrow> 4 + length (id_Name ifi) \<le> ident_Len ifi"
    "id_Type ifi = typeInterfaceByIndex \<Longrightarrow> ident_Len ifi = 8"
    "id_Type ifi = typeInterfaceByAddress \<Longrightarrow> 8 + length (id_Addr ifi) \<le> ident_Len ifi"
    "id_Type ifi \<noteq> typeInterfaceByName \<Longrightarrow> id_Type ifi \<noteq> typeInterfaceByIndex \<Longrightarrow> id_Type ifi \<noteq> typeInterfaceByAddress \<Longrightarrow> ident_Len ifi = 4"
  using assms alignDown_4 [of "length (id_Name ifi)"] alignDown_4 [of "length (id_Addr ifi)"]
  by (auto simp: ident_ok_def ident_Len_def ident_types Let_def split: if_split_asm)

lemma ident_marshal_zeros:
  assumes "ident_ok ifi" and "ident_Len ifi \<le> n"
  shows "ident_marshal ifi (replicate n 0) = Inr (ident_image ifi @ replicate (n - ident_Len ifi) 0)"
proof -
  note b = ident_Len_bounds [OF assms(1)]
  consider (name) "id_Type ifi = typeInterfaceByName" | (index) "id_Type ifi = typeInterfaceByIndex"
    | (addr) "id_Type ifi = typeInterfaceByAddress"
    | (other) "id_Type ifi \<noteq> typeInterfaceByName" "id_Type ifi \<noteq> typeInterfaceByIndex" "id_Type ifi \<noteq> typeInterfaceByAddress" by blast
  then show ?thesis
  proof cases
    case name
    obtain m where n: "n = Suc (Suc (Suc (Suc m)))" using assms(2) b(1) by (intro that [of "n - 4"]) simp
    with name b(3) assms(2) show ?thesis
      by (simp add: ident_marshal_def ident_image_def be16_def go_copy_zeros flip: replicate_add)
  next
    case index
    obtain m where n: "n = Suc (Suc (Suc (Suc (Suc (Suc (Suc (Suc m)))))))" using assms(2) b(4) index by (intro that [of "n - 8"]) simp
    with index b(4) show ?thesis by (simp add: ident_marshal_def ident_image_def be16_def ident_types)
  next
    case addr
    obtain m where n: "n = Suc (Suc (Suc (Suc (Suc (Suc (Suc (Suc m)))))))" using assms(2) b(5) addr by (intro that [of "n - 8"]) simp
    with addr b(5) assms(2) show ?thesis
      by (simp add: ident_marshal_def ident_image_def be16_def go_copy_zeros ident_types flip: replicate_add)
  next
    case other
    obtain m where n: "n = Suc (Suc (Suc (Suc m)))" using assms(2) b(1) by (intro that [of "n - 4"]) simp
    with other b(6) show ?thesis by (simp add: ident_marshal_def ident_image_def be16_def)
  qed
qed

lemma parse_ident_image:
  assumes "ident_ok ifi"
  shows "parseInterfaceIdent (ident_image ifi) = Inr ifi"
proof -
  have t: "uint (word_of_int (id_Type ifi) :: byte) = id_Type ifi" "uint classInterfaceIdent = id_Class ifi"
    using assms by (simp_all add: ident_ok_def classInterfaceIdent_def)
  have l: "unat (word_of_nat (length (id_Addr ifi)) :: byte) = length (id_Addr ifi)" if "length (id_Addr ifi) \<le> 255"
    using that by (simp add: unat_of_nat)
  show ?thesis
    using assms trimNul_pad [of "id_Name ifi"] l
    by (auto simp: parseInterfaceIdent_def ident_image_def be16_def be32_def getUint32_def getUint16_def Let_def t
        ident_ok_def ident_types go_copy_def split: if_split_asm)
qed

interpretation ident: object_codec ident_Len ident_marshal ident_image parseInterfaceIdent ident_ok classInterfaceIdent
proof (unfold_locales, goal_cases)
  case (1 x)
  then show ?case using ident_Len_bounds by blast
next
  case (2 x)
  then show ?case using ident_Len_bounds [OF 2] by (auto simp: ident_image_def ident_types)
next
  case (3 x n)
  then show ?case by (rule ident_marshal_zeros)
next
  case (4 x)
  then show ?case by (simp add: ident_image_def be16_def)
next
  case (5 x)
  then show ?case by (rule parse_ident_image)
qed

section \<open>The attribute loops, unrolled\<close>

lemma attr_flags:
  "at AND attrIfIndex \<noteq> 0 \<longleftrightarrow> bit at 3" "at AND attrIPAddr \<noteq> 0 \<longleftrightarrow> bit at 2"
  "at AND attrName \<noteq> 0 \<longleftrightarrow> bit at 1" "at AND attrMTU \<noteq> 0 \<longleftrightarrow> bit at 0" for at :: attrs
proof -
  have *: "at AND push_bit k 1 \<noteq> 0 \<longleftrightarrow> bit at k" for k
    by (simp add: bit_iff_and_push_bit_not_eq_0)
  show "at AND attrIfIndex \<noteq> 0 \<longleftrightarrow> bit at 3" "at AND attrIPAddr \<noteq> 0 \<longleftrightarrow> bit at 2"
    "at AND attrName \<noteq> 0 \<longleftrightarrow> bit at 1" "at AND attrMTU \<noteq> 0 \<longleftrightarrow> bit at 0"
    using * [of 3] * [of 2] * [of 1] * [of 0]
    by (simp_all add: attrIfIndex_def attrIPAddr_def attrName_def attrMTU_def push_bit_eq_mult)
qed

lemma bit_attr: "bit attrIfIndex k \<longleftrightarrow> k = 3" "bit attrIPAddr k \<longleftrightarrow> k = 2" "bit attrName k \<longleftrightarrow> k = 1" "bit attrMTU k \<longleftrightarrow> k = 0"
proof -
  have *: "bit (2 ^ m :: attrs) k \<longleftrightarrow> k = m" if "m < 4" for m
    using that by (auto simp: bit_exp_iff)
  show "bit attrIfIndex k \<longleftrightarrow> k = 3" "bit attrIPAddr k \<longleftrightarrow> k = 2" "bit attrName k \<longleftrightarrow> k = 1" "bit attrMTU k \<longleftrightarrow> k = 0"
    using * [of 3] * [of 2] * [of 1] * [of 0]
    by (simp_all add: attrIfIndex_def attrIPAddr_def attrName_def attrMTU_def)
qed

lemma attr_clear:
  "bit (at AND NOT attrIfIndex) k \<longleftrightarrow> bit at k \<and> k \<noteq> 3" "bit (at AND NOT attrIPAddr) k \<longleftrightarrow> bit at k \<and> k \<noteq> 2"
  "bit (at AND NOT attrName) k \<longleftrightarrow> bit at k \<and> k \<noteq> 1" "bit (at AND NOT attrMTU) k \<longleftrightarrow> bit at k \<and> k \<noteq> 0" for at :: attrs
  by (auto simp: bit_and_iff bit_not_iff bit_attr dest: bit_imp_le_length)

lemma attrs_zero_iff: "at = 0 \<longleftrightarrow> \<not> bit at 0 \<and> \<not> bit at 1 \<and> \<not> bit at 2 \<and> \<not> bit at 3" for at :: attrs
proof -
  have "at = 0 \<longleftrightarrow> (\<forall>k < 4. \<not> bit at k)" by (auto intro!: bit_word_eqI)
  also have "\<dots> \<longleftrightarrow> \<not> bit at 0 \<and> \<not> bit at 1 \<and> \<not> bit at 2 \<and> \<not> bit at 3"
    by (auto simp: numeral_eq_Suc less_Suc_eq)
  finally show ?thesis .
qed

definition mstage :: "bool \<Rightarrow> (bytes \<Rightarrow> (bytes \<times> bytes) icmp) \<Rightarrow> (bytes \<Rightarrow> bytes icmp) \<Rightarrow> bytes \<Rightarrow> bytes icmp" where
  "mstage c f k b = (if c \<and> b \<noteq> [] then bind_go (f b) (\<lambda>(w, b). bind_go (k b) (\<lambda>b. Inr (w @ b))) else k b)"

definition pstage :: "bool \<Rightarrow> (InterfaceInfo \<Rightarrow> bytes \<Rightarrow> (InterfaceInfo \<times> bytes) icmp)
    \<Rightarrow> (InterfaceInfo \<Rightarrow> bytes \<Rightarrow> InterfaceInfo icmp) \<Rightarrow> InterfaceInfo \<Rightarrow> bytes \<Rightarrow> InterfaceInfo icmp" where
  "pstage c f k ifi b = (if c \<and> b \<noteq> [] then bind_go (f ifi b) (\<lambda>(ifi, b). k ifi b) else k ifi b)"

lemma mstage_Nil: "mstage c f k [] = k []"
  by (simp add: mstage_def)

lemma pstage_Nil: "pstage c f k ifi [] = k ifi []"
  by (simp add: pstage_def)

lemma info_marshal_loop_unroll:
  "info_marshal_loop proto ifi at b =
     mstage (bit at 3) (marshalIfIndex proto ifi) (mstage (bit at 2) (marshalIPAddr proto ifi)
       (mstage (bit at 1) (marshalName proto ifi) (mstage (bit at 0) (marshalMTU proto ifi) Inr))) b"
proof (induction proto ifi at b rule: info_marshal_loop.induct)
  case (1 proto ifi at b)
  show ?case
  proof (cases "b = [] \<or> at = 0")
    case True
    then show ?thesis by (subst info_marshal_loop.simps) (auto simp: mstage_Nil mstage_def)
  next
    case False
    then have b: "0 < length b \<and> at \<noteq> 0" by simp
    have one: "bit at 0" if "\<not> bit at 3" "\<not> bit at 2" "\<not> bit at 1" using that b attrs_zero_iff [of at] by simp
    show ?thesis
      using 1 b one
      by (subst info_marshal_loop.simps, simp only: attr_flags if_True if_False not_not simp_thms)
        (auto simp: mstage_def attr_flags attr_clear split: prod.split intro!: arg_cong2 [where f = bind_go] ext)
  qed
qed

lemma info_parse_loop_unroll:
  "info_parse_loop ifi at b =
     pstage (bit at 3) parseIfIndex (pstage (bit at 2) parseIPAddr (pstage (bit at 1) parseName
       (pstage (bit at 0) parseMTU (\<lambda>ifi b. Inr ifi)))) ifi b"
proof (induction ifi at b rule: info_parse_loop.induct)
  case (1 ifi at b)
  show ?case
  proof (cases "b = [] \<or> at = 0")
    case True
    then show ?thesis by (subst info_parse_loop.simps) (auto simp: pstage_Nil pstage_def)
  next
    case False
    then have b: "0 < length b \<and> at \<noteq> 0" by simp
    have one: "bit at 0" if "\<not> bit at 3" "\<not> bit at 2" "\<not> bit at 1" using that b attrs_zero_iff [of at] by simp
    show ?thesis
      using 1 b one
      by (subst info_parse_loop.simps, simp only: attr_flags if_True if_False not_not simp_thms)
        (auto simp: pstage_def attr_flags attr_clear split: prod.split intro!: arg_cong2 [where f = bind_go] ext)
  qed
qed

section \<open>Information objects round trip\<close>

definition interface_ok :: "net_Interface \<Rightarrow> bool" where
  "interface_ok ifc \<longleftrightarrow> 0 < if_Index ifc \<and> if_Index ifc < 2 ^ 32 \<and> 0 \<le> if_MTU ifc \<and> if_MTU ifc < 2 ^ 32 \<and>
     trimmed (if_Name ifc) \<and> length (if_Name ifc) \<le> 63"

text \<open>The zone that the parser gives to an address.\<close>

definition zoneOf :: "InterfaceInfo \<Rightarrow> bytes" where
  "zoneOf ifi = (case ii_Interface ifi of None \<Rightarrow> [] | Some ifc \<Rightarrow> if_Name ifc)"

text \<open>
  What an information object can carry under a protocol: the type announces exactly the attributes
  that are present, the name fits its field, and the address belongs to the protocol.
\<close>

definition info_ok :: "int \<Rightarrow> InterfaceInfo \<Rightarrow> bool" where
  "info_ok proto ifi \<longleftrightarrow> ii_Class ifi = 2 \<and> 0 \<le> ii_Type ifi \<and> ii_Type ifi < 256 \<and>
     word_of_int (ii_Type ifi) = fst (attrsAndLen proto ifi) \<and>
     (case ii_Interface ifi of None \<Rightarrow> True | Some ifc \<Rightarrow> interface_ok ifc) \<and>
     (case ii_Addr ifi of None \<Rightarrow> True
      | Some ad \<Rightarrow> proto = 1 \<and> length (ip_IP ad) = 4 \<and> ip_Zone ad = []
                  \<or> proto = 58 \<and> length (ip_IP ad) = 16 \<and> To4 (ip_IP ad) = None \<and> ip_Zone ad = zoneOf ifi)"

definition index_image :: "InterfaceInfo \<Rightarrow> bytes" where
  "index_image ifi = be32 (word_of_int (if_Index (the (ii_Interface ifi))))"

definition addr_image :: "int \<Rightarrow> InterfaceInfo \<Rightarrow> bytes" where
  "addr_image proto ifi = be16 (if proto = 1 then 1 else 2) @ [0, 0] @ ip_IP (the (ii_Addr ifi))"

definition name_image :: "InterfaceInfo \<Rightarrow> bytes" where
  "name_image ifi = (let ifc = the (ii_Interface ifi) in
     word_of_nat (nameLen ifc) # if_Name ifc @ replicate (nameLen ifc - 1 - length (if_Name ifc)) 0)"

definition mtu_image :: "InterfaceInfo \<Rightarrow> bytes" where
  "mtu_image ifi = be32 (word_of_int (if_MTU (the (ii_Interface ifi))))"

definition attrs_image :: "int \<Rightarrow> InterfaceInfo \<Rightarrow> bytes" where
  "attrs_image proto ifi = (let at = fst (attrsAndLen proto ifi) in
     (if bit at 3 then index_image ifi else []) @ (if bit at 2 then addr_image proto ifi else []) @
     (if bit at 1 then name_image ifi else []) @ (if bit at 0 then mtu_image ifi else []))"

definition info_image :: "int \<Rightarrow> InterfaceInfo \<Rightarrow> bytes" where
  "info_image proto ifi = be16 (word_of_nat (info_Len proto ifi)) @ [classInterfaceInfo, word_of_int (ii_Type ifi)] @ attrs_image proto ifi"

lemma nameLen_bounds:
  assumes "length (if_Name ifc) \<le> 63"
  shows "1 + length (if_Name ifc) \<le> nameLen ifc" "nameLen ifc \<le> 64" "nameLen ifc mod 4 = 0" "4 \<le> nameLen ifc"
    "unat (word_of_nat (nameLen ifc) :: byte) = nameLen ifc"
proof -
  have eq: "nameLen ifc = alignDown (1 + length (if_Name ifc) + 3) 4" using assms by (simp add: nameLen_def Let_def)
  note al = alignDown_4 [of "1 + length (if_Name ifc)"]
  show lo: "1 + length (if_Name ifc) \<le> nameLen ifc" and m: "nameLen ifc mod 4 = 0" using al eq by auto
  from al eq assms have "nameLen ifc \<le> 67" by simp
  with m show hi: "nameLen ifc \<le> 64" by presburger
  from lo m show "4 \<le> nameLen ifc" by presburger
  from hi show "unat (word_of_nat (nameLen ifc) :: byte) = nameLen ifc" by (simp add: unat_of_nat)
qed

text \<open>The attribute bits of a well-formed object.\<close>

lemma info_attrs:
  assumes "info_ok proto ifi"
  defines "at \<equiv> fst (attrsAndLen proto ifi)"
  shows "bit at 3 \<longleftrightarrow> ii_Interface ifi \<noteq> None" "bit at 2 \<longleftrightarrow> ii_Addr ifi \<noteq> None"
    "bit at 1 \<longleftrightarrow> (\<exists>ifc. ii_Interface ifi = Some ifc \<and> if_Name ifc \<noteq> [])"
    "bit at 0 \<longleftrightarrow> (\<exists>ifc. ii_Interface ifi = Some ifc \<and> if_MTU ifc > 0)"
    "info_Len proto ifi = 4 + length (attrs_image proto ifi)"
proof -
  have z: "\<not> bit (0 :: attrs) k" for k by simp
  show bits: "bit at 3 \<longleftrightarrow> ii_Interface ifi \<noteq> None" "bit at 2 \<longleftrightarrow> ii_Addr ifi \<noteq> None"
    "bit at 1 \<longleftrightarrow> (\<exists>ifc. ii_Interface ifi = Some ifc \<and> if_Name ifc \<noteq> [])"
    "bit at 0 \<longleftrightarrow> (\<exists>ifc. ii_Interface ifi = Some ifc \<and> if_MTU ifc > 0)"
    using assms(1)
    by (auto simp: at_def info_ok_def interface_ok_def attrsAndLen_def Let_def To4_def To16_def bit_or_iff bit_attr split: option.splits)
  show "info_Len proto ifi = 4 + length (attrs_image proto ifi)"
  proof (cases "ii_Interface ifi")
    case None
    with assms(1) bits show ?thesis
      by (auto simp: at_def info_Len_def attrs_image_def Let_def addr_image_def info_ok_def attrsAndLen_def To4_def To16_def split: option.splits)
  next
    case (Some ifc)
    with assms(1) have ifc: "interface_ok ifc" by (simp add: info_ok_def)
    then have nl: "length (name_image ifi) = nameLen ifc"
      using Some nameLen_bounds [of ifc] by (simp add: name_image_def interface_ok_def Let_def)
    show ?thesis using Some assms(1) bits nl ifc
      by (auto simp: at_def info_Len_def attrs_image_def Let_def addr_image_def index_image_def mtu_image_def interface_ok_def
          info_ok_def attrsAndLen_def To4_def To16_def split: option.splits)
  qed
qed

text \<open>A writer that fills the front of a zeroed buffer with an image and advances past it.\<close>

definition fills :: "(bytes \<Rightarrow> (bytes \<times> bytes) icmp) \<Rightarrow> bytes \<Rightarrow> bool" where
  "fills f im \<longleftrightarrow> im \<noteq> [] \<and> (\<forall>n \<ge> length im. f (replicate n 0) = Inr (im, replicate (n - length im) 0))"

definition emits :: "(bytes \<Rightarrow> bytes icmp) \<Rightarrow> bytes \<Rightarrow> bool" where
  "emits k im \<longleftrightarrow> (\<forall>n \<ge> length im. k (replicate n 0) = Inr (im @ replicate (n - length im) 0))"

lemma emits_stage:
  assumes "c \<Longrightarrow> fills f im" and "emits k im'"
  shows "emits (mstage c f k) ((if c then im else []) @ im')"
proof (cases c)
  case True
  with assms(1) have f: "im \<noteq> []" "\<And>n. length im \<le> n \<Longrightarrow> f (replicate n 0) = Inr (im, replicate (n - length im) 0)"
    by (simp_all add: fills_def)
  show ?thesis unfolding emits_def
  proof (intro allI impI)
    fix n assume n: "length ((if c then im else []) @ im') \<le> n"
    with True f(1) have "replicate n (0 :: byte) \<noteq> []" by (cases im) auto
    with True n f(2) [of n] assms(2) show "mstage c f k (replicate n 0) =
        Inr (((if c then im else []) @ im') @ replicate (n - length ((if c then im else []) @ im')) 0)"
      by (simp add: mstage_def emits_def)
  qed
qed (use assms(2) in \<open>simp add: emits_def mstage_def\<close>)

lemma fills_attrs:
  assumes "info_ok proto ifi"
  shows "ii_Interface ifi \<noteq> None \<Longrightarrow> fills (marshalIfIndex proto ifi) (index_image ifi)"
    and "ii_Addr ifi \<noteq> None \<Longrightarrow> fills (marshalIPAddr proto ifi) (addr_image proto ifi)"
    and "ii_Interface ifi \<noteq> None \<Longrightarrow> fills (marshalName proto ifi) (name_image ifi)"
    and "ii_Interface ifi \<noteq> None \<Longrightarrow> fills (marshalMTU proto ifi) (mtu_image ifi)"
proof -
  show "ii_Interface ifi \<noteq> None \<Longrightarrow> fills (marshalIfIndex proto ifi) (index_image ifi)"
    "ii_Interface ifi \<noteq> None \<Longrightarrow> fills (marshalMTU proto ifi) (mtu_image ifi)"
    by (auto simp: fills_def marshalIfIndex_def marshalMTU_def index_image_def mtu_image_def be32_def)
  show "fills (marshalIPAddr proto ifi) (addr_image proto ifi)" if some: "ii_Addr ifi \<noteq> None"
  proof -
    obtain ad where ad: "ii_Addr ifi = Some ad" using some by auto
    with assms have ip: "proto = 1 \<and> length (ip_IP ad) = 4 \<or> proto = 58 \<and> length (ip_IP ad) = 16" by (auto simp: info_ok_def)
    have "marshalIPAddr proto ifi (replicate n 0) = Inr (addr_image proto ifi, replicate (n - length (addr_image proto ifi)) 0)"
      if le: "length (addr_image proto ifi) \<le> n" for n
    proof -
      obtain m where n: "n = Suc (Suc (Suc (Suc m)))" using le by (intro that [of "n - 4"]) (simp add: addr_image_def)
      with le ip ad show ?thesis
        by (auto simp: marshalIPAddr_def addr_image_def be16_def To4_def To16_def go_copy_def)
    qed
    then show ?thesis by (auto simp: fills_def addr_image_def)
  qed
  show "fills (marshalName proto ifi) (name_image ifi)" if some: "ii_Interface ifi \<noteq> None"
  proof -
    obtain ifc where ifc: "ii_Interface ifi = Some ifc" using some by auto
    with assms have len: "length (if_Name ifc) \<le> 63" by (simp add: info_ok_def interface_ok_def)
    note nl = nameLen_bounds [OF len]
    have "marshalName proto ifi (replicate n 0) = Inr (name_image ifi, replicate (n - length (name_image ifi)) 0)"
      if le: "length (name_image ifi) \<le> n" for n
    proof -
      have n: "nameLen ifc \<le> n" using le nl ifc by (simp add: name_image_def Let_def)
      then obtain m where m: "n = Suc m" using nl by (cases n) auto
      show ?thesis using n nl ifc m
        by (simp add: marshalName_def name_image_def Let_def go_copy_zeros take_Cons' drop_Cons' min_def)
    qed
    then show ?thesis using nl ifc by (auto simp: fills_def name_image_def Let_def)
  qed
qed

definition info_enc :: "int \<Rightarrow> InterfaceInfo \<Rightarrow> bytes \<Rightarrow> bytes icmp" where
  "info_enc proto ifi b = (let (at, l) = attrsAndLen proto ifi in info_marshal proto ifi b at l)"

lemma info_marshal_zeros:
  assumes "info_ok proto ifi" and "info_Len proto ifi \<le> n"
  shows "info_enc proto ifi (replicate n 0) = Inr (info_image proto ifi @ replicate (n - info_Len proto ifi) 0)"
proof -
  note at = info_attrs [OF assms(1)]
  obtain m where n: "n = Suc (Suc (Suc (Suc m)))" using assms(2) at(5) by (intro that [of "n - 4"]) simp
  have nil: "emits Inr []" by (simp add: emits_def)
  have "emits (info_marshal_loop proto ifi (fst (attrsAndLen proto ifi))) (attrs_image proto ifi @ [])"
    unfolding info_marshal_loop_unroll attrs_image_def Let_def append_assoc
    by (intro emits_stage nil fills_attrs [OF assms(1)]) (use at(1-4) in auto)
  moreover have "length (attrs_image proto ifi) \<le> m" using assms(2) n at(5) by simp
  ultimately have "info_marshal_loop proto ifi (fst (attrsAndLen proto ifi)) (replicate m 0) =
      Inr (attrs_image proto ifi @ replicate (m - length (attrs_image proto ifi)) 0)"
    by (simp add: emits_def)
  then show ?thesis
    using n at(5) by (simp add: info_enc_def info_marshal_def info_image_def info_Len_def be16_def split_def)
qed

lemma parse_attr_images:
  "ii_Interface ifi = Some ifc \<Longrightarrow> parseIfIndex ifi (be32 v @ rest) = Inr (ifi\<lparr>ii_Interface := Some (ifc\<lparr>if_Index := uint v\<rparr>)\<rparr>, rest)"
  "ii_Interface ifi = Some ifc \<Longrightarrow> parseMTU ifi (be32 v @ rest) = Inr (ifi\<lparr>ii_Interface := Some (ifc\<lparr>if_MTU := uint v\<rparr>)\<rparr>, rest)"
  "ii_Addr ifi = Some ad \<Longrightarrow> length ip = 4 \<Longrightarrow> parseIPAddr ifi (be16 1 @ 0 # 0 # ip @ rest) = Inr (ifi\<lparr>ii_Addr := Some (ad\<lparr>ip_IP := ip\<rparr>)\<rparr>, rest)"
  "ii_Addr ifi = Some ad \<Longrightarrow> length ip = 16 \<Longrightarrow> parseIPAddr ifi (be16 2 @ 0 # 0 # ip @ rest) = Inr (ifi\<lparr>ii_Addr := Some (ad\<lparr>ip_IP := ip\<rparr>)\<rparr>, rest)"
proof -
  have one: "uint16_of (ucast (drop_bit 8 (1 :: u16))) (ucast (1 :: u16)) = 1" "uint16_of (ucast (drop_bit 8 (2 :: u16))) (ucast (2 :: u16)) = 2"
    by (rule uint16_of_be16)+
  show "ii_Addr ifi = Some ad \<Longrightarrow> length ip = 4 \<Longrightarrow> parseIPAddr ifi (be16 1 @ 0 # 0 # ip @ rest) = Inr (ifi\<lparr>ii_Addr := Some (ad\<lparr>ip_IP := ip\<rparr>)\<rparr>, rest)"
    "ii_Addr ifi = Some ad \<Longrightarrow> length ip = 16 \<Longrightarrow> parseIPAddr ifi (be16 2 @ 0 # 0 # ip @ rest) = Inr (ifi\<lparr>ii_Addr := Some (ad\<lparr>ip_IP := ip\<rparr>)\<rparr>, rest)"
    using one by (simp_all add: parseIPAddr_def be16_def getUint16_def go_copy_def)
qed (simp_all add: parseIfIndex_def parseMTU_def be32_def getUint32_def)

lemma parse_name_image:
  assumes "ii_Interface ifi = Some ifc" and "ii_Interface ifi0 = Some ifc0" and "trimmed (if_Name ifc)" and "length (if_Name ifc) \<le> 63"
  shows "parseName ifi0 (name_image ifi @ rest) = Inr (ifi0\<lparr>ii_Interface := Some (ifc0\<lparr>if_Name := if_Name ifc\<rparr>)\<rparr>, rest)"
proof -
  note nl = nameLen_bounds [OF assms(4)]
  let ?b = "name_image ifi @ rest"
  let ?k = "nameLen ifc - 1 - length (if_Name ifc)"
  have im: "name_image ifi = word_of_nat (nameLen ifc) # if_Name ifc @ replicate ?k 0"
    using assms(1) by (simp add: name_image_def Let_def)
  have len: "length (name_image ifi) = nameLen ifc" using im nl by simp
  have sl: "take (nameLen ifc - 1) (drop 1 ?b) = if_Name ifc @ replicate ?k 0"
    using nl by (simp add: im)
  have "go_copy (replicate 63 0) (if_Name ifc @ replicate ?k 0) = if_Name ifc @ replicate (63 - length (if_Name ifc)) 0"
    using nl by (simp add: go_copy_def flip: replicate_add)
  then have trim: "trimNul (go_copy (replicate 63 0) (if_Name ifc @ replicate ?k 0)) = if_Name ifc"
    using trimNul_pad [OF assms(3)] by simp
  have "drop (nameLen ifc) ?b = rest" using len by simp
  moreover have "?b ! 0 = word_of_nat (nameLen ifc)" "nameLen ifc \<le> length ?b" "0 < length ?b"
    using len nl by (simp_all add: im)
  ultimately have "?b ! 0 = word_of_nat (nameLen ifc)" "nameLen ifc \<le> length ?b" "0 < length ?b" "drop (nameLen ifc) ?b = rest"
    by blast+
  with nl sl trim assms(2) show ?thesis by (simp add: parseName_def Let_def)
qed

text \<open>The object a parser starts from: class, type, and empty values for the attributes that follow.\<close>

definition blank_info :: "InterfaceInfo \<Rightarrow> InterfaceInfo" where
  "blank_info ifi = \<lparr>ii_Class = ii_Class ifi, ii_Type = ii_Type ifi,
    ii_Interface = (if ii_Interface ifi \<noteq> None then Some zero_Interface else None),
    ii_Addr = (if ii_Addr ifi \<noteq> None then Some zero_IPAddr else None)\<rparr>"

lemma parse_info_start:
  assumes "info_ok proto ifi"
  shows "parseInterfaceInfo (info_image proto ifi) =
    bind_go (info_parse_loop (blank_info ifi) (fst (attrsAndLen proto ifi)) (attrs_image proto ifi)) (\<lambda>ifi. Inr (setZone ifi))"
proof -
  note at = info_attrs [OF assms]
  let ?at = "fst (attrsAndLen proto ifi)"
  have t: "uint (word_of_int (ii_Type ifi) :: byte) = ii_Type ifi" "uint classInterfaceInfo = ii_Class ifi"
    using assms by (simp_all add: info_ok_def classInterfaceInfo_def)
  have "ucast (word_of_int (ii_Type ifi) :: byte) = (word_of_int (ii_Type ifi) :: attrs)"
    by (rule bit_word_eqI) (auto simp: bit_simps)
  then have w: "ucast (word_of_int (ii_Type ifi) :: byte) = ?at" using assms by (simp add: info_ok_def)
  have any: "?at AND (attrIfIndex OR attrName OR attrMTU) \<noteq> 0 \<longleftrightarrow> ii_Interface ifi \<noteq> None"
    using attrs_zero_iff [of "?at AND (attrIfIndex OR attrName OR attrMTU)"] at(1-4)
    by (auto simp: bit_and_iff bit_or_iff bit_attr)
  show ?thesis
    by (simp add: parseInterfaceInfo_def info_image_def be16_def t w any attr_flags at(2) Let_def blank_info_def)
qed

text \<open>One stage of the loop per attribute.\<close>

lemma images_nonempty: "be32 v \<noteq> []" "be16 u \<noteq> []" "name_image ifi \<noteq> []"
  by (simp_all add: be32_def be16_def name_image_def Let_def)

lemma pstage_addr:
  assumes "info_ok proto ifi" and "ii_Addr i = (if ii_Addr ifi \<noteq> None then Some zero_IPAddr else None)"
  shows "pstage (ii_Addr ifi \<noteq> None) parseIPAddr k i ((if ii_Addr ifi \<noteq> None then addr_image proto ifi else []) @ rest) =
    k (i\<lparr>ii_Addr := map_option (\<lambda>ad. zero_IPAddr\<lparr>ip_IP := ip_IP ad\<rparr>) (ii_Addr ifi)\<rparr>) rest"
proof -
  have same: "i\<lparr>ii_Addr := None\<rparr> = i" if "ii_Addr i = None" for i :: InterfaceInfo
    using that by (cases i) simp
  show ?thesis
    using assms by (auto simp: pstage_def addr_image_def info_ok_def images_nonempty same parse_attr_images(3,4) split: option.splits)
qed

lemma pstage_interface:
  assumes "info_ok proto ifi" and "ii_Interface i = Some ifc" and "ii_Interface ifi \<noteq> None"
  shows "pstage True parseIfIndex k i (index_image ifi @ rest) = k (i\<lparr>ii_Interface := Some (ifc\<lparr>if_Index := if_Index (the (ii_Interface ifi))\<rparr>)\<rparr>) rest"
    "pstage True parseMTU k i (mtu_image ifi @ rest) = k (i\<lparr>ii_Interface := Some (ifc\<lparr>if_MTU := if_MTU (the (ii_Interface ifi))\<rparr>)\<rparr>) rest"
    "pstage True parseName k i (name_image ifi @ rest) = k (i\<lparr>ii_Interface := Some (ifc\<lparr>if_Name := if_Name (the (ii_Interface ifi))\<rparr>)\<rparr>) rest"
  using assms parse_name_image [of ifi _ i ifc rest]
  by (auto simp: pstage_def index_image_def mtu_image_def info_ok_def interface_ok_def images_nonempty parse_attr_images(1,2))

lemma info_parse_loop_image:
  assumes "info_ok proto ifi" and Some: "ii_Interface ifi = Some ifc"
  shows "info_parse_loop (blank_info ifi) (fst (attrsAndLen proto ifi)) (attrs_image proto ifi) =
    Inr ((blank_info ifi)\<lparr>ii_Interface := Some ifc, ii_Addr := map_option (\<lambda>ad. zero_IPAddr\<lparr>ip_IP := ip_IP ad\<rparr>) (ii_Addr ifi)\<rparr>)"
proof -
  let ?at = "fst (attrsAndLen proto ifi)"
  let ?ifi0 = "blank_info ifi"
  let ?ad = "map_option (\<lambda>ad. zero_IPAddr\<lparr>ip_IP := ip_IP ad\<rparr>) (ii_Addr ifi)"
  let ?i1 = "?ifi0\<lparr>ii_Interface := Some (zero_Interface\<lparr>if_Index := if_Index ifc\<rparr>), ii_Addr := ?ad\<rparr>"
  let ?i2 = "?ifi0\<lparr>ii_Interface := Some (zero_Interface\<lparr>if_Index := if_Index ifc, if_Name := if_Name ifc\<rparr>), ii_Addr := ?ad\<rparr>"
  note stage = pstage_interface [OF assms(1)]
  have ifc: "interface_ok ifc" using assms by (simp add: info_ok_def)
  have bits: "bit ?at 3 = True" "bit ?at 2 = (ii_Addr ifi \<noteq> None)" "bit ?at 1 = (if_Name ifc \<noteq> [])" "bit ?at 0 = (if_MTU ifc > 0)"
    using info_attrs(1-4) [OF assms(1)] Some by auto
  have "info_parse_loop ?ifi0 ?at (attrs_image proto ifi) =
      pstage (if_Name ifc \<noteq> []) parseName (pstage (if_MTU ifc > 0) parseMTU (\<lambda>i b. Inr i)) ?i1
        ((if if_Name ifc \<noteq> [] then name_image ifi else []) @ (if if_MTU ifc > 0 then mtu_image ifi else []))"
    unfolding info_parse_loop_unroll attrs_image_def Let_def bits if_True
    by (subst stage(1) [of _ zero_Interface], simp add: Some blank_info_def, simp add: Some,
        subst pstage_addr [OF assms(1)], simp add: blank_info_def, simp add: Some blank_info_def)
  also have "\<dots> = Inr (?ifi0\<lparr>ii_Interface := Some ifc, ii_Addr := ?ad\<rparr>)"
    using Some ifc stage(3) [of ?i1 "zero_Interface\<lparr>if_Index := if_Index ifc\<rparr>"]
      stage(3) [of ?i1 "zero_Interface\<lparr>if_Index := if_Index ifc\<rparr>" _ "[]"]
      stage(2) [of ?i1 "zero_Interface\<lparr>if_Index := if_Index ifc\<rparr>" _ "[]"]
      stage(2) [of ?i2 "zero_Interface\<lparr>if_Index := if_Index ifc, if_Name := if_Name ifc\<rparr>" _ "[]"]
    by (cases ifc; cases "if_Name ifc = []"; cases "if_MTU ifc > 0")
      (simp_all add: zero_Interface_def interface_ok_def blank_info_def pstage_def [of False])
  finally show ?thesis .
qed

lemma parse_info_image:
  assumes "info_ok proto ifi"
  shows "parseInterfaceInfo (info_image proto ifi) = Inr ifi"
proof (cases "ii_Interface ifi")
  case None
  then show ?thesis
    using assms info_attrs(1-4) [OF assms] pstage_addr [OF assms, of "blank_info ifi" _ "[]"]
    by (simp add: parse_info_start info_parse_loop_unroll attrs_image_def Let_def pstage_def [of False] zero_IPAddr_def blank_info_def)
      (cases ifi; auto simp: setZone_def info_ok_def zoneOf_def split: option.splits)
next
  case (Some ifc)
  then show ?thesis
    using assms info_parse_loop_image [OF assms Some]
    by (cases ifi) (auto simp: parse_info_start blank_info_def setZone_def info_ok_def zoneOf_def zero_IPAddr_def To4_def To16_def split: option.splits)
qed

lemma attrs_image_short:
  assumes "info_ok proto ifi"
  shows "length (attrs_image proto ifi) \<le> 100"
proof -
  note at = info_attrs [OF assms]
  let ?at = "fst (attrsAndLen proto ifi)"
  have "length (name_image ifi) \<le> 64" if b: "bit ?at 1"
  proof -
    obtain ifc where "ii_Interface ifi = Some ifc" using b at(3) by blast
    moreover from this assms have "length (if_Name ifc) \<le> 63" by (simp add: info_ok_def interface_ok_def)
    ultimately show ?thesis using nameLen_bounds [of ifc] by (simp add: name_image_def Let_def)
  qed
  moreover have "length (addr_image proto ifi) \<le> 20" if "bit ?at 2"
    using that at(2) assms by (auto simp: addr_image_def info_ok_def)
  ultimately show ?thesis by (auto simp: attrs_image_def Let_def index_image_def mtu_image_def)
qed

interpretation info: object_codec "info_Len proto" "info_enc proto" "info_image proto" parseInterfaceInfo "info_ok proto" classInterfaceInfo
  for proto
proof (unfold_locales, goal_cases)
  case (1 x)
  then show ?case using info_attrs(5) [OF 1] attrs_image_short [OF 1] by simp
next
  case (2 x)
  then show ?case using info_attrs(5) [OF 2] by (simp add: info_image_def)
next
  case (3 x n)
  then show ?case by (rule info_marshal_zeros)
next
  case (4 x)
  then show ?case by (simp add: info_image_def be16_def)
next
  case (5 x)
  then show ?case by (rule parse_info_image)
qed

section \<open>Parsing never panics\<close>

lemma parse_attr_keeps:
  assumes "f \<in> {parseIfIndex, parseIPAddr, parseName, parseMTU}" and "f ifi b = Inr (ifi', b')"
  shows "ii_Interface ifi' = None \<longleftrightarrow> ii_Interface ifi = None" "ii_Addr ifi' = None \<longleftrightarrow> ii_Addr ifi = None"
  using assms
  by (auto simp: parseIfIndex_def parseIPAddr_def parseName_def parseMTU_def Let_def bind_go_Inr_iff split: if_split_asm option.split_asm)

lemma parse_attr_no_panic:
  "ii_Interface ifi \<noteq> None \<Longrightarrow> no_panic (parseIfIndex ifi b)"
  "ii_Addr ifi \<noteq> None \<Longrightarrow> no_panic (parseIPAddr ifi b)"
  "ii_Interface ifi \<noteq> None \<Longrightarrow> no_panic (parseName ifi b)"
  "ii_Interface ifi \<noteq> None \<Longrightarrow> no_panic (parseMTU ifi b)"
  by (cases "b = []"; auto simp: parseIfIndex_def parseIPAddr_def parseName_def parseMTU_def getUint32_def getUint16_def Let_def)+

lemma pstage_no_panic:
  assumes "c \<Longrightarrow> no_panic (f ifi b)" and "\<And>b. no_panic (k ifi b)"
    and "\<And>ifi' b'. f ifi b = Inr (ifi', b') \<Longrightarrow> c \<Longrightarrow> no_panic (k ifi' b')"
  shows "no_panic (pstage c f k ifi b)"
  using assms by (auto simp: pstage_def)

lemma info_parse_loop_no_panic:
  assumes "bit at 3 \<or> bit at 1 \<or> bit at 0 \<longrightarrow> ii_Interface ifi \<noteq> None" and "bit at 2 \<longrightarrow> ii_Addr ifi \<noteq> None"
  shows "no_panic (info_parse_loop ifi at b)"
proof -
  let ?P = "\<lambda>i. (bit at 3 \<or> bit at 1 \<or> bit at 0 \<longrightarrow> ii_Interface i \<noteq> None) \<and> (bit at 2 \<longrightarrow> ii_Addr i \<noteq> None)"
  have keep: "?P i'" if "f \<in> {parseIfIndex, parseIPAddr, parseName, parseMTU}" "f i b = Inr (i', b')" "?P i" for f i b i' b'
    using parse_attr_keeps [OF that(1,2)] that(3) by auto
  have k0: "no_panic (pstage (bit at 0) parseMTU (\<lambda>i b. Inr i) i b)" if "?P i" for i b
    using that by (intro pstage_no_panic parse_attr_no_panic) auto
  have k1: "no_panic (pstage (bit at 1) parseName (pstage (bit at 0) parseMTU (\<lambda>i b. Inr i)) i b)" if "?P i" for i b
    using that keep [of parseName] by (intro pstage_no_panic k0 parse_attr_no_panic) auto
  have k2: "no_panic (pstage (bit at 2) parseIPAddr (pstage (bit at 1) parseName (pstage (bit at 0) parseMTU (\<lambda>i b. Inr i))) i b)"
    if "?P i" for i b
    using that keep [of parseIPAddr] by (intro pstage_no_panic k1 parse_attr_no_panic) auto
  show ?thesis unfolding info_parse_loop_unroll
    using assms keep [of parseIfIndex] by (intro pstage_no_panic k2 parse_attr_no_panic) auto
qed

lemma parseInterfaceInfo_no_panic: "4 \<le> length b \<Longrightarrow> no_panic (parseInterfaceInfo b)"
proof -
  assume b: "4 \<le> length b"
  let ?at = "ucast (b ! 3) :: attrs"
  have "bit ?at 3 \<or> bit ?at 1 \<or> bit ?at 0 \<longrightarrow> ?at AND (attrIfIndex OR attrName OR attrMTU) \<noteq> 0"
    using attrs_zero_iff [of "?at AND (attrIfIndex OR attrName OR attrMTU)"] by (auto simp: bit_and_iff bit_or_iff bit_attr)
  then show ?thesis using b
    by (auto simp: parseInterfaceInfo_def Let_def attr_flags intro!: no_panic_bind info_parse_loop_no_panic)
qed

lemma parseInterfaceIdent_no_panic: "4 \<le> length b \<Longrightarrow> no_panic (parseInterfaceIdent b)"
  by (auto simp: parseInterfaceIdent_def getUint32_def getUint16_def Let_def)

end
