(* ===== verification/Icmp_Extension.thy ===== *)
theory Icmp_Extension
  imports Icmp_Mpls Icmp_Interface
begin

text \<open>
  ICMP extensions (\<open>extension.go\<close>): the interface \<open>Extension\<close> is a datatype over the package's own
  implementations; an extension structure is a header followed by objects, each with its own length
  and class. Parsing walks over the objects and stops at one whose length does not fit.
\<close>

datatype Extension =
    ExtMPLS MPLSLabelStack | ExtInfo InterfaceInfo | ExtIdent InterfaceIdent | ExtRaw bytes

fun ext_Len :: "int \<Rightarrow> Extension \<Rightarrow> nat" where
  "ext_Len proto (ExtMPLS ls) = mpls_Len ls"
| "ext_Len proto (ExtInfo ifi) = info_Len proto ifi"
| "ext_Len proto (ExtIdent ifi) = ident_Len ifi"
| "ext_Len proto (ExtRaw d) = length d"

fun ext_Marshal :: "int \<Rightarrow> Extension \<Rightarrow> bytes icmp" where
  "ext_Marshal proto (ExtMPLS ls) = mpls_Marshal ls"
| "ext_Marshal proto (ExtInfo ifi) = info_Marshal proto ifi"
| "ext_Marshal proto (ExtIdent ifi) = ident_Marshal ifi"
| "ext_Marshal proto (ExtRaw d) = Inr d"

definition extensionVersion :: byte where "extensionVersion = 2"

definition validExtensionHeader :: "bytes \<Rightarrow> bool icmp" where
  "validExtensionHeader b =
     bind_go (idx b 0) (\<lambda>b0. bind_go (slice b 2 4) (\<lambda>c. bind_go (getUint16 c) (\<lambda>s.
       let v = drop_bit 4 (b0 AND 0xf0);
           s = (if s \<noteq> 0 then checksum b else s)
       in Inr (\<not> (v \<noteq> extensionVersion \<or> s \<noteq> 0)))))"

text \<open>The loop over the objects that follow the extension header.\<close>

definition parseObject :: "byte \<Rightarrow> bytes \<Rightarrow> Extension icmp" where
  "parseObject c b =
     (if c = classMPLSLabelStack then bind_go (parseMPLSLabelStack b) (\<lambda>e. Inr (ExtMPLS e))
      else if c = classInterfaceInfo then bind_go (parseInterfaceInfo b) (\<lambda>e. Inr (ExtInfo e))
      else if c = classInterfaceIdent then bind_go (parseInterfaceIdent b) (\<lambda>e. Inr (ExtIdent e))
      else Inr (ExtRaw (go_copy (replicate (length b) 0) b)))"

function parseObjects :: "bytes \<Rightarrow> Extension list \<Rightarrow> Extension list icmp" where
  "parseObjects b exts =
     (if \<not> length b \<ge> 4 then Inr exts
      else bind_go (slice b 0 2) (\<lambda>s. bind_go (getUint16 s) (\<lambda>u.
        let ol = unat u in
        if 4 > ol \<or> ol > length b then Inr exts
        else bind_go (idx b 2) (\<lambda>c. bind_go (slice b 0 ol) (\<lambda>ob.
          bind_go (parseObject c ob) (\<lambda>e. parseObjects (drop ol b) (exts @ [e])))))))"
  by pat_completeness auto
termination
  by (relation "measure (\<lambda>(b, exts). length b)") auto

declare parseObjects.simps [simp del]

definition isExtendedEchoRequest :: "Type \<Rightarrow> bool" where
  "isExtendedEchoRequest typ \<longleftrightarrow> typ = v4ExtendedEchoRequest \<or> typ = v6ExtendedEchoRequest"

definition parseExtensions :: "Type \<Rightarrow> bytes \<Rightarrow> nat \<Rightarrow> (Extension list \<times> nat) icmp" where
  "parseExtensions typ b l =
     bind_go
       (if isExtendedEchoRequest typ then
          (if length b < 8 then Inl (Error errNoExtension)
           else bind_go (validExtensionHeader b) (\<lambda>v. if \<not> v then Inl (Error errNoExtension) else Inr 0))
        else
          (let l = (if 128 > l \<or> l + 8 > length b then 128 else l) in
           if l + 8 > length b then Inl (Error errNoExtension)
           else bind_go (slice_from b l) (\<lambda>s. bind_go (validExtensionHeader s) (\<lambda>v.
             if \<not> v then
               (if l = 128 then Inl (Error errNoExtension)
                else bind_go (slice_from b 128) (\<lambda>s. bind_go (validExtensionHeader s) (\<lambda>v.
                  if \<not> v then Inl (Error errNoExtension) else Inr 128)))
             else Inr l))))
       (\<lambda>l. bind_go (slice_from b (l + 4)) (\<lambda>s. bind_go (parseObjects s []) (\<lambda>exts. Inr (exts, l))))"

fun onlyUnreachExts :: "Extension list \<Rightarrow> bool" where
  "onlyUnreachExts [] = True"
| "onlyUnreachExts (ExtIdent i # es) = False"
| "onlyUnreachExts (e # es) = onlyUnreachExts es"

fun countIdents :: "Extension list \<Rightarrow> nat \<Rightarrow> nat option" where
  "countIdents [] n = Some n"
| "countIdents (ExtIdent i # es) n = countIdents es (n + 1)"
| "countIdents (ExtRaw d # es) n = countIdents es n"
| "countIdents (e # es) n = None"

definition validExtensions :: "Type \<Rightarrow> Extension list \<Rightarrow> bool" where
  "validExtensions typ exts =
     (if typ = v4DestinationUnreachable \<or> typ = v4TimeExceeded \<or> typ = v4ParameterProblem
         \<or> typ = v6DestinationUnreachable \<or> typ = v6TimeExceeded then onlyUnreachExts exts
      else if typ = v4ExtendedEchoRequest \<or> typ = v6ExtendedEchoRequest then
        (case countIdents exts 0 of None \<Rightarrow> False | Some n \<Rightarrow> \<not> (n = 1 \<and> length exts > 1))
      else False)"

section \<open>Objects survive the wire\<close>

text \<open>A raw object keeps its contents as long as it announces its own length and no known class.\<close>

definition raw_ok :: "bytes \<Rightarrow> bool" where
  "raw_ok d \<longleftrightarrow> 4 \<le> length d \<and> length d < 65536 \<and> take 2 d = be16 (word_of_nat (length d)) \<and>
     d ! 2 \<noteq> classMPLSLabelStack \<and> d ! 2 \<noteq> classInterfaceInfo \<and> d ! 2 \<noteq> classInterfaceIdent"

fun ext_ok :: "int \<Rightarrow> Extension \<Rightarrow> bool" where
  "ext_ok proto (ExtMPLS ls) = mpls_ok ls"
| "ext_ok proto (ExtInfo ifi) = info_ok proto ifi"
| "ext_ok proto (ExtIdent ifi) = ident_ok ifi"
| "ext_ok proto (ExtRaw d) = raw_ok d"

fun ext_image :: "int \<Rightarrow> Extension \<Rightarrow> bytes" where
  "ext_image proto (ExtMPLS ls) = mpls_image ls"
| "ext_image proto (ExtInfo ifi) = info_image proto ifi"
| "ext_image proto (ExtIdent ifi) = ident_image ifi"
| "ext_image proto (ExtRaw d) = d"

fun ext_class :: "Extension \<Rightarrow> byte" where
  "ext_class (ExtMPLS ls) = classMPLSLabelStack"
| "ext_class (ExtInfo ifi) = classInterfaceInfo"
| "ext_class (ExtIdent ifi) = classInterfaceIdent"
| "ext_class (ExtRaw d) = d ! 2"

lemma raw_header:
  assumes "raw_ok d"
  shows "getUint16 (take 2 (d @ rest)) = (Inr (word_of_nat (length d)) :: u16 icmp)" "(d @ rest) ! 2 = d ! 2"
proof -
  have "take 2 (d @ rest) = be16 (word_of_nat (length d))" using assms by (simp add: raw_ok_def)
  then show "getUint16 (take 2 (d @ rest)) = (Inr (word_of_nat (length d)) :: u16 icmp)"
    by (simp add: getUint16_def be16_def)
  show "(d @ rest) ! 2 = d ! 2" using assms by (simp add: raw_ok_def nth_append)
qed

lemma ext_object:
  assumes "ext_ok proto e"
  shows "4 \<le> ext_Len proto e" "ext_Len proto e < 65536" "length (ext_image proto e) = ext_Len proto e"
    "getUint16 (take 2 (ext_image proto e @ rest)) = (Inr (word_of_nat (ext_Len proto e)) :: u16 icmp)"
    "(ext_image proto e @ rest) ! 2 = ext_class e" "parseObject (ext_class e) (ext_image proto e) = Inr e"
proof -
  have "4 \<le> ext_Len proto e \<and> ext_Len proto e < 65536 \<and> length (ext_image proto e) = ext_Len proto e \<and>
    getUint16 (take 2 (ext_image proto e @ rest)) = (Inr (word_of_nat (ext_Len proto e)) :: u16 icmp) \<and>
    (ext_image proto e @ rest) ! 2 = ext_class e \<and> parseObject (ext_class e) (ext_image proto e) = Inr e"
  proof (cases e)
    case (ExtMPLS ls)
    then have "mpls_ok ls" using assms by simp
    then show ?thesis
      using ExtMPLS mpls.size_bounds mpls.length_img mpls.object_header(1,2) mpls.dec_img
      by (auto simp: parseObject_def)
  next
    case (ExtInfo ifi)
    then have "info_ok proto ifi" using assms by simp
    then show ?thesis
      using ExtInfo info.size_bounds info.length_img info.object_header(1,2) info.dec_img
      by (auto simp: parseObject_def classMPLSLabelStack_def classInterfaceInfo_def)
  next
    case (ExtIdent ifi)
    then have "ident_ok ifi" using assms by simp
    then show ?thesis
      using ExtIdent ident.size_bounds ident.length_img ident.object_header(1,2) ident.dec_img
      by (auto simp: parseObject_def classMPLSLabelStack_def classInterfaceInfo_def classInterfaceIdent_def)
  next
    case (ExtRaw d)
    then have "raw_ok d" using assms by simp
    then show ?thesis using ExtRaw raw_header [of d rest] by (simp add: parseObject_def raw_ok_def go_copy_def)
  qed
  then show "4 \<le> ext_Len proto e" "ext_Len proto e < 65536" "length (ext_image proto e) = ext_Len proto e"
    "getUint16 (take 2 (ext_image proto e @ rest)) = (Inr (word_of_nat (ext_Len proto e)) :: u16 icmp)"
    "(ext_image proto e @ rest) ! 2 = ext_class e" "parseObject (ext_class e) (ext_image proto e) = Inr e" by blast+
qed

lemma parseObjects_images:
  "\<forall>e \<in> set es. ext_ok proto e \<Longrightarrow> parseObjects (concat (map (ext_image proto) es)) acc = Inr (acc @ es)"
proof (induction es arbitrary: acc)
  case Nil
  then show ?case by (simp add: parseObjects.simps)
next
  case (Cons e es)
  let ?rest = "concat (map (ext_image proto) es)"
  have ok: "ext_ok proto e" using Cons.prems by simp
  note obj = ext_object [OF ok]
  have ol: "unat (word_of_nat (ext_Len proto e) :: u16) = ext_Len proto e"
    using obj(2) by (simp add: unat_of_nat)
  have len: "4 \<le> length (ext_image proto e @ ?rest)" using obj(1,3) by simp
  have "parseObjects (ext_image proto e @ ?rest) acc = parseObjects ?rest (acc @ [e])"
    using len obj(1,3,6) obj(4) [of ?rest] obj(5) [of ?rest] ol
    by (subst parseObjects.simps) simp
  then show ?case using Cons by simp
qed

section \<open>Parsing never panics\<close>

lemma parseObject_no_panic: "4 \<le> length b \<Longrightarrow> no_panic (parseObject c b)"
  using parseInterfaceInfo_no_panic [of b] parseInterfaceIdent_no_panic [of b]
  by (auto simp: parseObject_def parseMPLSLabelStack_def)

lemma parseObjects_no_panic: "no_panic (parseObjects b exts)"
proof (induction b exts rule: parseObjects.induct)
  case (1 b exts)
  show ?case
    by (subst parseObjects.simps) (auto simp: getUint16_def Let_def intro!: no_panic_bind 1 parseObject_no_panic)
qed

lemma validExtensionHeader_Inr: "4 \<le> length b \<Longrightarrow> \<exists>v. validExtensionHeader b = Inr v"
  by (cases b) (auto simp: validExtensionHeader_def getUint16_def Let_def)

lemma validExtensionHeader_no_panic: "4 \<le> length b \<Longrightarrow> no_panic (validExtensionHeader b)"
  using validExtensionHeader_Inr by fastforce

lemma parseExtensions_no_panic: "no_panic (parseExtensions typ b l)"
  unfolding parseExtensions_def
  by (auto simp: Let_def bind_go_Inr_iff intro!: no_panic_bind validExtensionHeader_no_panic parseObjects_no_panic split: if_split_asm)

lemma parseExtensions_bound:
  assumes "parseExtensions typ b l = Inr (exts, l')"
  shows "l' + 8 \<le> length b"
  using assms by (auto simp: parseExtensions_def Let_def bind_go_Inr_iff split: if_split_asm)

end
