(* ===== verification/Icmp_Multipart.thy ===== *)
theory Icmp_Multipart
  imports Icmp_Extension
begin

text \<open>
  Multi-part message bodies (\<open>multipart.go\<close>): four leading octets, the original datagram padded as
  RFC 4884 asks, the extension header with its checksum, and the extension objects. The body is built
  in one zeroed buffer into which every object writes from its offset on.
\<close>

definition roundup :: "bytes \<Rightarrow> nat \<Rightarrow> nat" where
  "roundup b align = (if length b < 128 then 128 else alignDown (length b + align - 1) align)"

definition multipartMessageOrigDatagramLen :: "int \<Rightarrow> bytes \<Rightarrow> nat" where
  "multipartMessageOrigDatagramLen proto b =
     (if proto = 1 then roundup b 4 else if proto = 58 then roundup b 8 else length b)"

fun isRawExtension :: "Extension \<Rightarrow> bool" where
  "isRawExtension (ExtRaw d) = True"
| "isRawExtension e = False"

definition multipartMessageBodyDataLen :: "int \<Rightarrow> bool \<Rightarrow> bytes \<Rightarrow> Extension list \<Rightarrow> nat \<times> nat" where
  "multipartMessageBodyDataLen proto withOrigDgram b exts =
     (let extLen = sum_list (map (ext_Len proto) exts);
          rawExt = list_ex isRawExtension exts;
          dataLen = (if extLen > 0 \<and> withOrigDgram then multipartMessageOrigDatagramLen proto b else length b);
          bodyLen = 4 + (if extLen > 0 \<or> rawExt then 4 else 0) + (dataLen + extLen)
      in (bodyLen, dataLen))"

fun marshalExts :: "int \<Rightarrow> Extension list \<Rightarrow> nat \<Rightarrow> bytes \<Rightarrow> bytes icmp" where
  "marshalExts proto [] off b = Inr b"
| "marshalExts proto (ExtMPLS ls # es) off b =
     bind_go (slice_from b off) (\<lambda>s. bind_go (mpls_marshal ls s) (\<lambda>s.
       marshalExts proto es (off + mpls_Len ls) (take off b @ s)))"
| "marshalExts proto (ExtInfo ifi # es) off b =
     (let (at, l) = attrsAndLen proto ifi in
      bind_go (slice_from b off) (\<lambda>s. bind_go (info_marshal proto ifi s at l) (\<lambda>s.
        marshalExts proto es (off + info_Len proto ifi) (take off b @ s))))"
| "marshalExts proto (ExtIdent ifi # es) off b =
     bind_go (slice_from b off) (\<lambda>s. bind_go (ident_marshal ifi s) (\<lambda>s.
       marshalExts proto es (off + ident_Len ifi) (take off b @ s)))"
| "marshalExts proto (ExtRaw d # es) off b =
     bind_go (copy_from b off d) (\<lambda>b. marshalExts proto es (off + length d) b)"

definition marshalMultipartMessageBody :: "int \<Rightarrow> bool \<Rightarrow> bytes \<Rightarrow> Extension list \<Rightarrow> bytes icmp" where
  "marshalMultipartMessageBody proto withOrigDgram data exts =
     (let (bodyLen, dataLen) = multipartMessageBodyDataLen proto withOrigDgram data exts in
      bind_go (copy_from (replicate bodyLen 0) 4 data) (\<lambda>b.
        if \<not> length exts > 0 then Inr b
        else
          bind_go (store b (4 + dataLen) (push_bit 4 extensionVersion)) (\<lambda>b.
          bind_go (marshalExts proto exts (4 + dataLen + 4) b) (\<lambda>b.
          bind_go (slice_from b (4 + dataLen)) (\<lambda>x.
            let s = checksum x in
            bind_go (xor_at b (4 + dataLen + 2) (ucast s)) (\<lambda>b.
            bind_go (xor_at b (4 + dataLen + 3) (ucast (drop_bit 8 s))) (\<lambda>b.
              if withOrigDgram then
                (if proto = 1 then store b 1 (word_of_nat (dataLen div 4))
                 else if proto = 58 then store b 0 (word_of_nat (dataLen div 8))
                 else Inr b)
              else Inr b)))))))"

definition parseMultipartMessageBody :: "int \<Rightarrow> Type \<Rightarrow> bytes \<Rightarrow> (bytes \<times> Extension list) icmp" where
  "parseMultipartMessageBody proto typ b =
     bind_go (if proto = 1 then bind_go (idx b 1) (\<lambda>x. Inr (4 * unat x))
              else if proto = 58 then bind_go (idx b 0) (\<lambda>x. Inr (8 * unat x)) else Inr 0) (\<lambda>l.
       if length b = 4 then Inr ([], [])
       else bind_go (slice_from b 4) (\<lambda>s.
         case parseExtensions typ s l of
           Inl (Panic p) \<Rightarrow> Inl (Panic p)
         | Inl (Error e) \<Rightarrow>
             let l = length b - 4 in Inr (if l > 0 then go_copy (replicate l 0) s else [], [])
         | Inr (exts, l) \<Rightarrow> Inr (if l > 0 then go_copy (replicate l 0) s else [], exts)))"

section \<open>The encoded body\<close>

lemma roundup_facts:
  assumes "a = 4 \<or> a = 8"
  shows "length b \<le> roundup b a" "128 \<le> roundup b a" "roundup b a mod a = 0"
proof -
  let ?x = "length b + a - 1"
  have m: "?x mod a < a" using assms by auto
  have al: "alignDown ?x a = ?x - ?x mod a" by (simp add: alignDown_def)
  have ge: "length b \<le> alignDown ?x a" using m al by linarith
  show "length b \<le> roundup b a" using ge by (simp add: roundup_def)
  show "128 \<le> roundup b a" using ge by (auto simp: roundup_def)
  have "alignDown ?x a mod a = 0" by (simp only: al minus_mod_eq_mult_div) simp
  then show "roundup b a mod a = 0" using assms by (auto simp: roundup_def)
qed

definition exts_image :: "int \<Rightarrow> Extension list \<Rightarrow> bytes" where
  "exts_image proto exts = concat (map (ext_image proto) exts)"

lemma length_exts_image:
  "\<forall>e \<in> set exts. ext_ok proto e \<Longrightarrow> length (exts_image proto exts) = sum_list (map (ext_Len proto) exts)"
  by (induction exts) (auto simp: exts_image_def ext_object(3))

lemma exts_image_min:
  assumes "\<forall>e \<in> set exts. ext_ok proto e" and "exts \<noteq> []"
  shows "4 \<le> length (exts_image proto exts)"
  using assms ext_object(1,3) by (cases exts) (force simp: exts_image_def)+

lemma marshalExts_zeros:
  "\<forall>e \<in> set es. ext_ok proto e \<Longrightarrow> length pre = off \<Longrightarrow> length (exts_image proto es) \<le> n \<Longrightarrow>
   marshalExts proto es off (pre @ replicate n 0) =
     Inr (pre @ exts_image proto es @ replicate (n - length (exts_image proto es)) 0)"
proof (induction es arbitrary: pre off n)
  case Nil
  then show ?case by (simp add: exts_image_def)
next
  case (Cons e es)
  have ok: "ext_ok proto e" using Cons.prems by simp
  have len: "length (ext_image proto e) = ext_Len proto e" "ext_Len proto e \<le> n"
    using ext_object(3) [OF ok] Cons.prems(3) by (simp_all add: exts_image_def)
  have "marshalExts proto (e # es) off (pre @ replicate n 0) =
      marshalExts proto es (off + ext_Len proto e) ((pre @ ext_image proto e) @ replicate (n - ext_Len proto e) 0)"
  proof (cases e)
    case (ExtMPLS ls)
    then show ?thesis using ok len Cons.prems(2) mpls.enc_zeros [of ls n] by simp
  next
    case (ExtInfo ifi)
    then show ?thesis using ok len Cons.prems(2) info.enc_zeros [of proto ifi n]
      by (simp add: info_enc_def split_def Let_def)
  next
    case (ExtIdent ifi)
    then show ?thesis using ok len Cons.prems(2) ident.enc_zeros [of ifi n] by simp
  next
    case (ExtRaw d)
    then show ?thesis using len Cons.prems(2) by (simp add: go_copy_zeros)
  qed
  also have "\<dots> = Inr ((pre @ ext_image proto e) @ exts_image proto es @
      replicate (n - ext_Len proto e - length (exts_image proto es)) 0)"
    using Cons.prems len by (intro Cons.IH) (auto simp: exts_image_def)
  finally show ?case using len by (simp add: exts_image_def)
qed

lemma write_at:
  assumes "length q = m" and "k < length h"
  shows "(q @ h @ t)[m + k := v] = q @ h[k := v] @ t" "(q @ h @ t) ! (m + k) = h ! k"
  using assms by (simp_all add: list_update_append nth_append)

text \<open>The extension structure: header with version and checksum, then the objects.\<close>

definition ext_structure :: "int \<Rightarrow> Extension list \<Rightarrow> bytes" where
  "ext_structure proto exts =
     withChecksum [0x20, 0] (checksum (withChecksum [0x20, 0] 0 (exts_image proto exts))) (exts_image proto exts)"

definition leading :: "int \<Rightarrow> bool \<Rightarrow> nat \<Rightarrow> bytes" where
  "leading proto withOrigDgram dataLen =
     (if withOrigDgram \<and> proto = 1 then [0, word_of_nat (dataLen div 4), 0, 0]
      else if withOrigDgram \<and> proto = 58 then [word_of_nat (dataLen div 8), 0, 0, 0]
      else [0, 0, 0, 0])"

definition padded :: "bytes \<Rightarrow> nat \<Rightarrow> bytes" where
  "padded data n = data @ replicate (n - length data) 0"

definition origLen :: "int \<Rightarrow> bool \<Rightarrow> bytes \<Rightarrow> nat" where
  "origLen proto withOrigDgram data = (if withOrigDgram then multipartMessageOrigDatagramLen proto data else length data)"

lemma origLen_ge: "proto = 1 \<or> proto = 58 \<Longrightarrow> length data \<le> origLen proto wo data"
  using roundup_facts(1) by (auto simp: origLen_def multipartMessageOrigDatagramLen_def)

lemma marshalMultipart_image:
  fixes data :: bytes and wo :: bool
  assumes "proto = 1 \<or> proto = 58" and "\<forall>e \<in> set exts. ext_ok proto e" and "exts \<noteq> []"
  defines "n \<equiv> origLen proto wo data"
  shows "marshalMultipartMessageBody proto wo data exts =
    Inr (leading proto wo n @ padded data n @ ext_structure proto exts)"
    and "multipartMessageBodyDataLen proto wo data exts = (8 + n + length (exts_image proto exts), n)"
proof -
  let ?E = "exts_image proto exts"
  let ?P = "padded data n"
  have E: "length ?E = sum_list (map (ext_Len proto) exts)" "4 \<le> length ?E"
    using length_exts_image [OF assms(2)] exts_image_min [OF assms(2,3)] by auto
  have n: "length data \<le> n" unfolding n_def by (rule origLen_ge [OF assms(1)])
  then have P: "length ?P = n" by (simp add: padded_def)
  show dl: "multipartMessageBodyDataLen proto wo data exts = (8 + n + length ?E, n)"
    using E by (auto simp: multipartMessageBodyDataLen_def Let_def n_def origLen_def)
  have copy: "copy_from (replicate (8 + n + length ?E) 0) 4 data = Inr ([0, 0, 0, 0] @ ?P @ [0, 0, 0, 0] @ replicate (length ?E) 0)"
  proof -
    have "replicate (8 + n + length ?E) (0 :: byte) = [0, 0, 0, 0] @ replicate (n + 4 + length ?E) 0"
      by (simp add: numeral_eq_Suc)
    moreover have "replicate (n + 4 + length ?E - length data) (0 :: byte) = replicate (n - length data) 0 @ [0, 0, 0, 0] @ replicate (length ?E) 0"
    proof -
      have "replicate (n + 4 + length ?E - length data) (0 :: byte) = replicate (n - length data + (4 + length ?E)) 0" using n by simp
      then show ?thesis by (simp only: replicate_add) (simp add: numeral_eq_Suc)
    qed
    ultimately show ?thesis using n by (simp add: go_copy_zeros padded_def)
  qed
  let ?c = "checksum (withChecksum [0x20, 0] 0 ?E)"
  have exts: "marshalExts proto exts (4 + n + 4) ([0, 0, 0, 0] @ ?P @ [0x20, 0, 0, 0] @ replicate (length ?E) 0) =
      Inr ([0, 0, 0, 0] @ ?P @ [0x20, 0, 0, 0] @ ?E)"
    using marshalExts_zeros [OF assms(2), of "[0, 0, 0, 0] @ ?P @ [0x20, 0, 0, 0]" "4 + n + 4" "length ?E"] P by simp
  have upd: "([0, 0, 0, 0] @ ?P @ h @ t)[4 + n + k := v] = [0, 0, 0, 0] @ ?P @ h[k := v] @ t"
    "([0, 0, 0, 0] @ ?P @ h @ t) ! (4 + n + k) = h ! k" if "k < length h" for h t k v
    using write_at [of "[0, 0, 0, 0] @ ?P" "4 + n" k h t] P that by simp_all
  have version: "push_bit 4 extensionVersion = 0x20" by (simp add: extensionVersion_def)
  have w: "withChecksum [0x20, 0] 0 ?E = [0x20, 0, 0, 0] @ ?E" by (simp add: withChecksum_def)
  have s1: "store ([0, 0, 0, 0] @ ?P @ [0, 0, 0, 0] @ replicate (length ?E) 0) (4 + n) 0x20 =
      (Inr ([0, 0, 0, 0] @ ?P @ [0x20, 0, 0, 0] @ replicate (length ?E) 0) :: bytes icmp)"
    using P upd(1) [of 0 "[0, 0, 0, 0]"] by simp
  have x1: "xor_at ([0, 0, 0, 0] @ ?P @ [0x20, 0, 0, 0] @ ?E) (4 + n + 2) v = Inr ([0, 0, 0, 0] @ ?P @ [0x20, 0, v, 0] @ ?E)" for v
    using P upd [of 2 "[0x20, 0, 0, 0]"] by simp
  have x2: "xor_at ([0, 0, 0, 0] @ ?P @ [0x20, 0, u, 0] @ ?E) (4 + n + 3) v = Inr ([0, 0, 0, 0] @ ?P @ [0x20, 0, u, v] @ ?E)" for u v
    using P upd [of 3 "[0x20, 0, u, 0]"] by simp
  have dr: "drop (4 + n) (0 # 0 # 0 # 0 # ?P @ t) = t" for t
    using P by (simp add: add.commute [of 4 n] flip: drop_drop)
  show "marshalMultipartMessageBody proto wo data exts = Inr (leading proto wo n @ ?P @ ext_structure proto exts)"
    unfolding marshalMultipartMessageBody_def dl Let_def split version copy bind_go_simps s1 exts
    using assms(1,3) P
    by (simp add: x1 [simplified] x2 [simplified] w [symmetric] leading_def ext_structure_def) (auto simp: withChecksum_def dr)
qed

section \<open>Decoding\<close>

lemma ext_structure_bytes:
  "ext_structure proto exts = [0x20, 0, ucast c, ucast (drop_bit 8 c)] @ exts_image proto exts"
  if "c = checksum (withChecksum [0x20, 0] 0 (exts_image proto exts))"
  using that by (simp add: ext_structure_def withChecksum_def)

lemma length_ext_structure: "length (ext_structure proto exts) = 4 + length (exts_image proto exts)"
  by (simp add: ext_structure_def withChecksum_def)

lemma valid_ext_structure:
  assumes "length (exts_image proto exts) \<le> 131068"
  shows "validExtensionHeader (ext_structure proto exts) = Inr True"
proof -
  have "checksum (ext_structure proto exts) = 0"
    unfolding ext_structure_def using assms by (intro checksum_withChecksum) auto
  moreover have "drop_bit 4 ((0x20 :: byte) AND 0xf0) = extensionVersion" by (simp add: extensionVersion_def)
  ultimately show ?thesis
    by (simp add: validExtensionHeader_def length_ext_structure getUint16_def)
      (simp add: ext_structure_def withChecksum_def extensionVersion_def)
qed

lemma drop_ext_structure: "drop 4 (ext_structure proto exts) = exts_image proto exts"
  by (simp add: ext_structure_def withChecksum_def)

lemma parseExtensions_structure:
  assumes "\<forall>e \<in> set exts. ext_ok proto e" and "exts \<noteq> []" and "length (exts_image proto exts) \<le> 131068"
    and "\<not> isExtendedEchoRequest typ" and "length pd = n" and "128 \<le> n"
  shows "parseExtensions typ (pd @ ext_structure proto exts) n = Inr (exts, n)"
proof -
  have E: "4 \<le> length (exts_image proto exts)" by (rule exts_image_min [OF assms(1,2)])
  have "drop (n + 4) (pd @ ext_structure proto exts) = exts_image proto exts"
    using assms(5) drop_ext_structure by (simp add: drop_append)
  then show ?thesis
    using assms(4-6) E valid_ext_structure [OF assms(3)] parseObjects_images [OF assms(1), of "[]"]
    by (simp add: parseExtensions_def Let_def length_ext_structure exts_image_def)
qed

lemma parseExtensions_echo:
  assumes "\<forall>e \<in> set exts. ext_ok proto e" and "exts \<noteq> []" and "length (exts_image proto exts) \<le> 131068"
    and "isExtendedEchoRequest typ"
  shows "parseExtensions typ (ext_structure proto exts) l = Inr (exts, 0)"
  using assms(4) exts_image_min [OF assms(1,2)] valid_ext_structure [OF assms(3)] parseObjects_images [OF assms(1), of "[]"]
    drop_ext_structure
  by (simp add: parseExtensions_def length_ext_structure exts_image_def)

lemma parseMultipart_unfold:
  assumes "4 < length b"
  shows "parseMultipartMessageBody proto typ b =
    (case parseExtensions typ (drop 4 b) (if proto = 1 then 4 * unat (b ! 1) else if proto = 58 then 8 * unat (b ! 0) else 0) of
       Inl (Panic p) \<Rightarrow> Inl (Panic p)
     | Inl (Error e) \<Rightarrow> Inr (drop 4 b, [])
     | Inr (exts, l) \<Rightarrow> Inr (if l > 0 then go_copy (replicate l 0) (drop 4 b) else [], exts))"
proof -
  have "0 < length b" "1 < length b" using assms by auto
  then have "idx b 0 = (Inr (b ! 0) :: byte icmp)" "idx b 1 = (Inr (b ! 1) :: byte icmp)" by (auto simp only: idx_Inr)
  moreover have "go_copy (replicate (length b - 4) 0) (drop 4 b) = drop 4 b" by (rule go_copy_exact) simp
  ultimately show ?thesis using assms by (simp add: parseMultipartMessageBody_def Let_def split: sum.split fault.split)
qed

text \<open>A body of at least four octets never fails to parse: what is not a valid extension is data.\<close>

lemma parseMultipart_total: "4 \<le> length b \<Longrightarrow> \<exists>data exts. parseMultipartMessageBody proto typ b = Inr (data, exts)"
proof -
  assume b: "4 \<le> length b"
  have np: "parseExtensions typ x l \<noteq> Inl (Panic p)" for x l p
    using parseExtensions_no_panic [of "typ" x l] by (auto simp: no_panic_iff)
  show ?thesis
  proof (cases "length b = 4")
    case True
    then have "0 < length b" "1 < length b" by auto
    then have "idx b 0 = (Inr (b ! 0) :: byte icmp)" "idx b 1 = (Inr (b ! 1) :: byte icmp)" by (auto simp only: idx_Inr)
    with True show ?thesis by (simp add: parseMultipartMessageBody_def)
  next
    case False
    with b np show ?thesis by (auto simp: parseMultipart_unfold split: sum.split fault.split)
  qed
qed

text \<open>The length attribute is one byte, counting words of four octets (ICMPv4) or eight (ICMPv6).\<close>

definition fitsLength :: "int \<Rightarrow> nat \<Rightarrow> bool" where
  "fitsLength proto n \<longleftrightarrow> (proto = 1 \<and> n \<le> 1020) \<or> (proto = 58 \<and> n \<le> 2040)"

lemma origLen_facts:
  assumes "proto = 1 \<or> proto = 58"
  shows "128 \<le> origLen proto True data" "origLen 1 True data mod 4 = 0" "origLen 58 True data mod 8 = 0"
  using assms roundup_facts [of 4 data] roundup_facts [of 8 data] by (auto simp: origLen_def multipartMessageOrigDatagramLen_def)

lemma parseMultipart_image:
  fixes data :: bytes
  assumes "proto = 1 \<or> proto = 58" and "\<forall>e \<in> set exts. ext_ok proto e" and "exts \<noteq> []"
    and "length (exts_image proto exts) \<le> 131068" and "\<not> isExtendedEchoRequest typ"
  defines "n \<equiv> origLen proto True data"
  assumes "fitsLength proto n" and "length lead = 4"
    and "proto = 1 \<Longrightarrow> lead ! 1 = word_of_nat (n div 4)" and "proto = 58 \<Longrightarrow> lead ! 0 = word_of_nat (n div 8)"
  shows "parseMultipartMessageBody proto typ (lead @ padded data n @ ext_structure proto exts) = Inr (padded data n, exts)"
proof -
  let ?s = "padded data n @ ext_structure proto exts"
  have n: "128 \<le> n" "length data \<le> n" using origLen_facts(1) [OF assms(1)] origLen_ge [OF assms(1)] by (simp_all add: n_def)
  have P: "length (padded data n) = n" using n by (simp add: padded_def)
  have mod: "proto = 1 \<Longrightarrow> n mod 4 = 0" "proto = 58 \<Longrightarrow> n mod 8 = 0"
    using origLen_facts(2,3) assms(1) by (auto simp: n_def)
  have l: "proto = 1 \<Longrightarrow> 4 * unat ((lead @ ?s) ! 1) = n" "proto = 58 \<Longrightarrow> 8 * unat ((lead @ ?s) ! 0) = n"
    using assms(7-10) mod by (auto simp: fitsLength_def nth_append unat_of_nat)
  have pe: "parseExtensions typ ?s n = Inr (exts, n)"
    by (rule parseExtensions_structure [OF assms(2,3,4,5) P n(1)])
  have "4 < length (lead @ ?s)" "drop 4 (lead @ ?s) = ?s"
    using assms(8) n P by (simp_all add: length_ext_structure)
  moreover have "go_copy (replicate n 0) ?s = padded data n" using P by (simp add: go_copy_def)
  ultimately show ?thesis
    using l pe n assms(1) by (auto simp: parseMultipart_unfold)
qed

end
