(* ===== verification/Icmp_Body.thy ===== *)
theory Icmp_Body
  imports Icmp_Multipart
begin

text \<open>
  The message bodies: echo, extended echo request and reply (\<open>echo.go\<close>), timestamp (\<open>timestamp.go\<close>),
  destination unreachable (\<open>dstunreach.go\<close>), time exceeded (\<open>timeexceeded.go\<close>), parameter problem
  (\<open>paramprob.go\<close>), packet too big (\<open>packettoobig.go\<close>) and raw bodies (\<open>messagebody.go\<close>). A body
  that is a nil pointer of one of these types is \<open>BNil\<close>. For each kind of body, a locale states what the message layer relies on,
  and the interpretations are the round trips.
\<close>

section \<open>Echo\<close>

record Echo =
  ec_ID :: int
  ec_Seq :: int
  ec_Data :: bytes

definition echo_Len :: "int \<Rightarrow> Echo \<Rightarrow> nat" where
  "echo_Len proto p = 4 + length (ec_Data p)"

definition echo_Marshal :: "int \<Rightarrow> Echo \<Rightarrow> bytes icmp" where
  "echo_Marshal proto p =
     bind_go (put16_at (replicate (4 + length (ec_Data p)) 0) 0 (word_of_int (ec_ID p))) (\<lambda>b.
     bind_go (put16_at b 2 (word_of_int (ec_Seq p))) (\<lambda>b.
       copy_from b 4 (ec_Data p)))"

definition parseEcho :: "int \<Rightarrow> Type \<Rightarrow> bytes \<Rightarrow> Echo icmp" where
  "parseEcho proto typ b =
     (if length b < 4 then Inl (Error errMessageTooShort)
      else bind_go (slice b 0 2) (\<lambda>s. bind_go (getUint16 s) (\<lambda>i.
        bind_go (slice b 2 4) (\<lambda>s. bind_go (getUint16 s) (\<lambda>q.
        bind_go (if length b > 4 then bind_go (slice_from b 4) (\<lambda>s. Inr (go_copy (replicate (length b - 4) 0) s)) else Inr []) (\<lambda>d.
          Inr \<lparr>ec_ID = uint i, ec_Seq = uint q, ec_Data = d\<rparr>))))))"

record ExtendedEchoRequest =
  xr_ID :: int
  xr_Seq :: int
  xr_Local :: bool
  xr_Extensions :: "Extension list"

definition extreq_Len :: "int \<Rightarrow> ExtendedEchoRequest \<Rightarrow> nat" where
  "extreq_Len proto p = fst (multipartMessageBodyDataLen proto False [] (xr_Extensions p))"

definition extreq_Marshal :: "int \<Rightarrow> ExtendedEchoRequest \<Rightarrow> bytes icmp" where
  "extreq_Marshal proto p =
     bind_go (if proto = 1 then Inr v4ExtendedEchoRequest
              else if proto = 58 then Inr v6ExtendedEchoRequest else Inl (Error errInvalidProtocol)) (\<lambda>typ.
     if \<not> validExtensions typ (xr_Extensions p) then Inl (Error errInvalidExtension)
     else bind_go (marshalMultipartMessageBody proto False [] (xr_Extensions p)) (\<lambda>b.
       bind_go (put16_at b 0 (word_of_int (xr_ID p))) (\<lambda>b.
       bind_go (store b 2 (word_of_int (xr_Seq p))) (\<lambda>b.
         if xr_Local p then or_at b 3 0x01 else Inr b))))"

definition parseExtendedEchoRequest :: "int \<Rightarrow> Type \<Rightarrow> bytes \<Rightarrow> ExtendedEchoRequest icmp" where
  "parseExtendedEchoRequest proto typ b =
     (if length b < 4 then Inl (Error errMessageTooShort)
      else bind_go (slice b 0 2) (\<lambda>s. bind_go (getUint16 s) (\<lambda>i.
        bind_go (idx b 2) (\<lambda>q. bind_go (idx b 3) (\<lambda>f.
        bind_go (parseMultipartMessageBody proto typ b) (\<lambda>(d, exts).
          Inr \<lparr>xr_ID = uint i, xr_Seq = uint q, xr_Local = (f AND 0x01 \<noteq> 0), xr_Extensions = exts\<rparr>))))))"

record ExtendedEchoReply =
  xp_ID :: int
  xp_Seq :: int
  xp_State :: int
  xp_Active :: bool
  xp_IPv4 :: bool
  xp_IPv6 :: bool

definition extrep_Len :: "int \<Rightarrow> ExtendedEchoReply \<Rightarrow> nat" where
  "extrep_Len proto p = 4"

definition extrep_Marshal :: "int \<Rightarrow> ExtendedEchoReply \<Rightarrow> bytes icmp" where
  "extrep_Marshal proto p =
     bind_go (put16_at (replicate 4 0) 0 (word_of_int (xp_ID p))) (\<lambda>b.
     bind_go (store b 2 (word_of_int (xp_Seq p))) (\<lambda>b.
     bind_go (store b 3 (word_of_int (push_bit 5 (xp_State p)) AND 0xe0)) (\<lambda>b.
     bind_go (if xp_Active p then or_at b 3 0x04 else Inr b) (\<lambda>b.
     bind_go (if xp_IPv4 p then or_at b 3 0x02 else Inr b) (\<lambda>b.
       if xp_IPv6 p then or_at b 3 0x01 else Inr b)))))"

definition parseExtendedEchoReply :: "int \<Rightarrow> Type \<Rightarrow> bytes \<Rightarrow> ExtendedEchoReply icmp" where
  "parseExtendedEchoReply proto typ b =
     (if length b < 4 then Inl (Error errMessageTooShort)
      else bind_go (slice b 0 2) (\<lambda>s. bind_go (getUint16 s) (\<lambda>i.
        bind_go (idx b 2) (\<lambda>q. bind_go (idx b 3) (\<lambda>f.
          Inr \<lparr>xp_ID = uint i, xp_Seq = uint q, xp_State = drop_bit 5 (uint f), xp_Active = (f AND 0x04 \<noteq> 0),
               xp_IPv4 = (f AND 0x02 \<noteq> 0), xp_IPv6 = (f AND 0x01 \<noteq> 0)\<rparr>)))))"

section \<open>Timestamp\<close>

record Timestamp =
  ts_ID :: int
  ts_Seq :: int
  ts_Originate :: int
  ts_Receive :: int
  ts_Transmit :: int

definition timestamp_Len :: "int \<Rightarrow> Timestamp \<Rightarrow> nat" where
  "timestamp_Len proto p = 4 + 4 * 3"

definition timestamp_Marshal :: "int \<Rightarrow> Timestamp \<Rightarrow> bytes icmp" where
  "timestamp_Marshal proto p =
     bind_go (put16_at (replicate (4 + 4 * 3) 0) 0 (word_of_int (ts_ID p))) (\<lambda>b.
     bind_go (put16_at b 2 (word_of_int (ts_Seq p))) (\<lambda>b.
     bind_go (put32_at b 4 (word_of_int (ts_Originate p))) (\<lambda>b.
     bind_go (put32_at b 8 (word_of_int (ts_Receive p))) (\<lambda>b.
       put32_at b 12 (word_of_int (ts_Transmit p))))))"

definition parseTimestamp :: "int \<Rightarrow> Type \<Rightarrow> bytes \<Rightarrow> Timestamp icmp" where
  "parseTimestamp proto typ b =
     (if length b < 4 + 4 * 3 then Inl (Error errMessageTooShort)
      else bind_go (slice b 0 2) (\<lambda>s. bind_go (getUint16 s) (\<lambda>i.
        bind_go (slice b 2 4) (\<lambda>s. bind_go (getUint16 s) (\<lambda>q.
        bind_go (slice b 4 8) (\<lambda>s. bind_go (getUint32 s) (\<lambda>or.
        bind_go (slice b 8 12) (\<lambda>s. bind_go (getUint32 s) (\<lambda>re.
        bind_go (slice b 12 16) (\<lambda>s. bind_go (getUint32 s) (\<lambda>tr.
          Inr \<lparr>ts_ID = uint i, ts_Seq = uint q, ts_Originate = uint or, ts_Receive = uint re, ts_Transmit = uint tr\<rparr>)))))))))))"

section \<open>Error messages\<close>

record DstUnreach =
  du_Data :: bytes
  du_Extensions :: "Extension list"

definition dst_Len :: "int \<Rightarrow> DstUnreach \<Rightarrow> nat" where
  "dst_Len proto p = fst (multipartMessageBodyDataLen proto True (du_Data p) (du_Extensions p))"

definition dst_Marshal :: "int \<Rightarrow> DstUnreach \<Rightarrow> bytes icmp" where
  "dst_Marshal proto p =
     bind_go (if proto = 1 then Inr v4DestinationUnreachable
              else if proto = 58 then Inr v6DestinationUnreachable else Inl (Error errInvalidProtocol)) (\<lambda>typ.
     if \<not> validExtensions typ (du_Extensions p) then Inl (Error errInvalidExtension)
     else marshalMultipartMessageBody proto True (du_Data p) (du_Extensions p))"

definition parseDstUnreach :: "int \<Rightarrow> Type \<Rightarrow> bytes \<Rightarrow> DstUnreach icmp" where
  "parseDstUnreach proto typ b =
     (if length b < 4 then Inl (Error errMessageTooShort)
      else bind_go (parseMultipartMessageBody proto typ b) (\<lambda>(d, exts). Inr \<lparr>du_Data = d, du_Extensions = exts\<rparr>))"

record TimeExceeded =
  te_Data :: bytes
  te_Extensions :: "Extension list"

definition time_Len :: "int \<Rightarrow> TimeExceeded \<Rightarrow> nat" where
  "time_Len proto p = fst (multipartMessageBodyDataLen proto True (te_Data p) (te_Extensions p))"

definition time_Marshal :: "int \<Rightarrow> TimeExceeded \<Rightarrow> bytes icmp" where
  "time_Marshal proto p =
     bind_go (if proto = 1 then Inr v4TimeExceeded
              else if proto = 58 then Inr v6TimeExceeded else Inl (Error errInvalidProtocol)) (\<lambda>typ.
     if \<not> validExtensions typ (te_Extensions p) then Inl (Error errInvalidExtension)
     else marshalMultipartMessageBody proto True (te_Data p) (te_Extensions p))"

definition parseTimeExceeded :: "int \<Rightarrow> Type \<Rightarrow> bytes \<Rightarrow> TimeExceeded icmp" where
  "parseTimeExceeded proto typ b =
     (if length b < 4 then Inl (Error errMessageTooShort)
      else bind_go (parseMultipartMessageBody proto typ b) (\<lambda>(d, exts). Inr \<lparr>te_Data = d, te_Extensions = exts\<rparr>))"

record ParamProb =
  pp_Pointer :: u64
  pp_Data :: bytes
  pp_Extensions :: "Extension list"

definition param_Len :: "int \<Rightarrow> ParamProb \<Rightarrow> nat" where
  "param_Len proto p = fst (multipartMessageBodyDataLen proto True (pp_Data p) (pp_Extensions p))"

definition param_Marshal :: "int \<Rightarrow> ParamProb \<Rightarrow> bytes icmp" where
  "param_Marshal proto p =
     (if proto = 1 then
        (if \<not> validExtensions v4ParameterProblem (pp_Extensions p) then Inl (Error errInvalidExtension)
         else bind_go (marshalMultipartMessageBody proto True (pp_Data p) (pp_Extensions p)) (\<lambda>b.
           store b 0 (ucast (pp_Pointer p))))
      else if proto = 58 then
        bind_go (put32_at (replicate (param_Len proto p) 0) 0 (ucast (pp_Pointer p))) (\<lambda>b. copy_from b 4 (pp_Data p))
      else Inl (Error errInvalidProtocol))"

definition parseParamProb :: "int \<Rightarrow> Type \<Rightarrow> bytes \<Rightarrow> ParamProb icmp" where
  "parseParamProb proto typ b =
     (if length b < 4 then Inl (Error errMessageTooShort)
      else if proto = 58 then
        bind_go (slice b 0 4) (\<lambda>s. bind_go (getUint32 s) (\<lambda>v.
        bind_go (slice_from b 4) (\<lambda>s.
          Inr \<lparr>pp_Pointer = ucast v, pp_Data = go_copy (replicate (length b - 4) 0) s, pp_Extensions = []\<rparr>)))
      else bind_go (idx b 0) (\<lambda>v. bind_go (parseMultipartMessageBody proto typ b) (\<lambda>(d, exts).
        Inr \<lparr>pp_Pointer = ucast v, pp_Data = d, pp_Extensions = exts\<rparr>)))"

record PacketTooBig =
  tb_MTU :: int
  tb_Data :: bytes

definition toobig_Len :: "int \<Rightarrow> PacketTooBig \<Rightarrow> nat" where
  "toobig_Len proto p = 4 + length (tb_Data p)"

definition toobig_Marshal :: "int \<Rightarrow> PacketTooBig \<Rightarrow> bytes icmp" where
  "toobig_Marshal proto p =
     bind_go (put32_at (replicate (4 + length (tb_Data p)) 0) 0 (word_of_int (tb_MTU p))) (\<lambda>b. copy_from b 4 (tb_Data p))"

definition parsePacketTooBig :: "int \<Rightarrow> Type \<Rightarrow> bytes \<Rightarrow> PacketTooBig icmp" where
  "parsePacketTooBig proto typ b =
     (if length b < 4 then Inl (Error errMessageTooShort)
      else bind_go (slice b 0 4) (\<lambda>s. bind_go (getUint32 s) (\<lambda>v.
        bind_go (if length b > 4 then bind_go (slice_from b 4) (\<lambda>s. Inr (go_copy (replicate (length b - 4) 0) s)) else Inr []) (\<lambda>d.
          Inr \<lparr>tb_MTU = uint v, tb_Data = d\<rparr>))))"

section \<open>The interface\<close>

datatype MessageBody =
    BEcho Echo | BExtReq ExtendedEchoRequest | BExtRep ExtendedEchoReply | BTimestamp Timestamp
  | BDst DstUnreach | BTime TimeExceeded | BParam ParamProb | BTooBig PacketTooBig | BRaw bytes
  | BNil

fun body_Len :: "int \<Rightarrow> MessageBody \<Rightarrow> nat" where
  "body_Len proto (BEcho p) = echo_Len proto p"
| "body_Len proto (BExtReq p) = extreq_Len proto p"
| "body_Len proto (BExtRep p) = extrep_Len proto p"
| "body_Len proto (BTimestamp p) = timestamp_Len proto p"
| "body_Len proto (BDst p) = dst_Len proto p"
| "body_Len proto (BTime p) = time_Len proto p"
| "body_Len proto (BParam p) = param_Len proto p"
| "body_Len proto (BTooBig p) = toobig_Len proto p"
| "body_Len proto (BRaw d) = length d"
| "body_Len proto BNil = 0"

fun body_Marshal :: "int \<Rightarrow> MessageBody \<Rightarrow> bytes icmp" where
  "body_Marshal proto (BEcho p) = echo_Marshal proto p"
| "body_Marshal proto (BExtReq p) = extreq_Marshal proto p"
| "body_Marshal proto (BExtRep p) = extrep_Marshal proto p"
| "body_Marshal proto (BTimestamp p) = timestamp_Marshal proto p"
| "body_Marshal proto (BDst p) = dst_Marshal proto p"
| "body_Marshal proto (BTime p) = time_Marshal proto p"
| "body_Marshal proto (BParam p) = param_Marshal proto p"
| "body_Marshal proto (BTooBig p) = toobig_Marshal proto p"
| "body_Marshal proto (BRaw d) = Inr d"
| "body_Marshal proto BNil = Inl (Panic NilDereference)"

definition parseRawBody :: "int \<Rightarrow> bytes \<Rightarrow> MessageBody icmp" where
  "parseRawBody proto b = Inr (BRaw (go_copy (replicate (length b) 0) b))"

section \<open>Round trips\<close>

locale body_codec =
  fixes len :: "'a \<Rightarrow> nat" and mar :: "'a \<Rightarrow> bytes icmp" and par :: "bytes \<Rightarrow> 'a icmp"
    and ok :: "'a \<Rightarrow> bool" and norm :: "'a \<Rightarrow> 'a"
  assumes mar_par: "ok x \<Longrightarrow> \<exists>b. mar x = Inr b \<and> length b = len x \<and> par b = Inr (norm x)"
    and len_pos: "ok x \<Longrightarrow> 0 < len x"
begin

lemma roundtrip: "ok x \<Longrightarrow> bind_go (mar x) par = Inr (norm x)"
  using mar_par by fastforce

lemma encoded:
  assumes "ok x"
  obtains b where "mar x = Inr b" "length b = len x" "b \<noteq> []" "par b = Inr (norm x)"
  using mar_par [OF assms] len_pos [OF assms] by force

end

definition echo_ok :: "Echo \<Rightarrow> bool" where
  "echo_ok p \<longleftrightarrow> 0 \<le> ec_ID p \<and> ec_ID p < 65536 \<and> 0 \<le> ec_Seq p \<and> ec_Seq p < 65536"

definition extrep_ok :: "ExtendedEchoReply \<Rightarrow> bool" where
  "extrep_ok p \<longleftrightarrow> 0 \<le> xp_ID p \<and> xp_ID p < 65536 \<and> 0 \<le> xp_Seq p \<and> xp_Seq p < 256 \<and> 0 \<le> xp_State p \<and> xp_State p < 2 ^ 3"

definition timestamp_ok :: "Timestamp \<Rightarrow> bool" where
  "timestamp_ok p \<longleftrightarrow> 0 \<le> ts_ID p \<and> ts_ID p < 65536 \<and> 0 \<le> ts_Seq p \<and> ts_Seq p < 65536 \<and>
     0 \<le> ts_Originate p \<and> ts_Originate p < 4294967296 \<and> 0 \<le> ts_Receive p \<and> ts_Receive p < 4294967296 \<and>
     0 \<le> ts_Transmit p \<and> ts_Transmit p < 4294967296"

definition toobig_ok :: "PacketTooBig \<Rightarrow> bool" where
  "toobig_ok p \<longleftrightarrow> 0 \<le> tb_MTU p \<and> tb_MTU p < 4294967296"

interpretation echo: body_codec "echo_Len proto" "echo_Marshal proto" "parseEcho proto typ" echo_ok "\<lambda>p. p"
  for proto "typ"
proof (unfold_locales, goal_cases)
  case (1 x)
  have "echo_Marshal proto x = Inr (be16 (word_of_int (ec_ID x)) @ be16 (word_of_int (ec_Seq x)) @ ec_Data x)"
    by (simp add: echo_Marshal_def be16_def go_copy_def)
  moreover have "parseEcho proto typ (be16 (word_of_int (ec_ID x)) @ be16 (word_of_int (ec_Seq x)) @ ec_Data x) = Inr x"
    using 1 by (auto simp: parseEcho_def be16_def getUint16_def echo_ok_def go_copy_def)
  ultimately show ?case by (simp add: echo_Len_def)
qed (simp add: echo_Len_def)

interpretation timestamp: body_codec "timestamp_Len proto" "timestamp_Marshal proto" "parseTimestamp proto typ" timestamp_ok "\<lambda>p. p"
  for proto "typ"
proof (unfold_locales, goal_cases)
  case (1 x)
  let ?b = "be16 (word_of_int (ts_ID x)) @ be16 (word_of_int (ts_Seq x)) @ be32 (word_of_int (ts_Originate x)) @
      be32 (word_of_int (ts_Receive x)) @ be32 (word_of_int (ts_Transmit x))"
  have "replicate (4 + 4 * 3) (0 :: byte) = [0, 0, 0, 0, 0, 0, 0, 0, 0, 0, 0, 0, 0, 0, 0, 0]" by (simp add: numeral_eq_Suc)
  then have "timestamp_Marshal proto x = Inr ?b"
    by (simp add: timestamp_Marshal_def be16_def be32_def)
  moreover have "parseTimestamp proto typ ?b = Inr x"
    using 1 by (simp add: parseTimestamp_def be16_def be32_def getUint16_def getUint32_def timestamp_ok_def)
  ultimately show ?case by (simp add: timestamp_Len_def)
qed (simp add: timestamp_Len_def)

interpretation toobig: body_codec "toobig_Len proto" "toobig_Marshal proto" "parsePacketTooBig proto typ" toobig_ok "\<lambda>p. p"
  for proto "typ"
proof (unfold_locales, goal_cases)
  case (1 x)
  have "toobig_Marshal proto x = Inr (be32 (word_of_int (tb_MTU x)) @ tb_Data x)"
    by (simp add: toobig_Marshal_def be32_def go_copy_def)
  moreover have "parsePacketTooBig proto typ (be32 (word_of_int (tb_MTU x)) @ tb_Data x) = Inr x"
    using 1 by (auto simp: parsePacketTooBig_def be32_def getUint32_def toobig_ok_def go_copy_def)
  ultimately show ?case by (simp add: toobig_Len_def)
qed (simp add: toobig_Len_def)

text \<open>The flag byte of an extended echo reply.\<close>

definition reply_flags :: "ExtendedEchoReply \<Rightarrow> byte" where
  "reply_flags p = (word_of_int (push_bit 5 (xp_State p)) AND 0xe0) OR (if xp_Active p then 0x04 else 0) OR
     (if xp_IPv4 p then 0x02 else 0) OR (if xp_IPv6 p then 0x01 else 0)"

lemma bit_byte_consts:
  "bit (0xe0 :: byte) n \<longleftrightarrow> 5 \<le> n \<and> n < 8" "bit (0x04 :: byte) n \<longleftrightarrow> n = 2" "bit (0x02 :: byte) n \<longleftrightarrow> n = 1"
  "bit (0xe0 :: int) n \<longleftrightarrow> 5 \<le> n \<and> n < 8" "bit (0x04 :: int) n \<longleftrightarrow> n = 2" "bit (0x02 :: int) n \<longleftrightarrow> n = 1"
proof -
  have "(0xe0 :: int) = push_bit 5 (mask 3)" by (simp add: mask_eq_exp_minus_1 push_bit_eq_mult)
  then show "bit (0xe0 :: int) n \<longleftrightarrow> 5 \<le> n \<and> n < 8" by (auto simp only: bit_simps) auto
  have "bit (2 ^ m :: int) k \<longleftrightarrow> k = m" for m k by (auto simp: bit_exp_iff)
  from this [of 2 n] this [of 1 n] show "bit (0x04 :: int) n \<longleftrightarrow> n = 2" "bit (0x02 :: int) n \<longleftrightarrow> n = 1" by simp_all
  have "(0xe0 :: byte) = push_bit 5 (mask 3)" by (simp add: mask_eq_exp_minus_1 push_bit_eq_mult)
  then show "bit (0xe0 :: byte) n \<longleftrightarrow> 5 \<le> n \<and> n < 8" by (auto simp only: bit_simps) auto
  have *: "bit (2 ^ m :: byte) k \<longleftrightarrow> k = m" if "m < 8" for m k using that by (auto simp: bit_exp_iff)
  show "bit (0x04 :: byte) n \<longleftrightarrow> n = 2" "bit (0x02 :: byte) n \<longleftrightarrow> n = 1"
    using * [of 2 n] * [of 1 n] by simp_all
qed

lemma reply_flags_bits:
  assumes "extrep_ok p"
  shows "drop_bit 5 (uint (reply_flags p)) = xp_State p" "(reply_flags p AND 0x04 \<noteq> 0) = xp_Active p"
    "(reply_flags p AND 0x02 \<noteq> 0) = xp_IPv4 p" "(reply_flags p AND 0x01 \<noteq> 0) = xp_IPv6 p"
proof -
  let ?f = "reply_flags p"
  have fb: "bit ?f n \<longleftrightarrow> n < 8 \<and> (5 \<le> n \<and> bit (xp_State p) (n - 5) \<or> n = 2 \<and> xp_Active p \<or> n = 1 \<and> xp_IPv4 p \<or> n = 0 \<and> xp_IPv6 p)" for n
    by (auto simp: reply_flags_def bit_simps bit_byte_consts)
  have S: "bit (xp_State p) n \<Longrightarrow> n < 3" for n using assms bit_bounded [of "xp_State p" 3 n] by (simp add: extrep_ok_def)
  show "drop_bit 5 (uint ?f) = xp_State p"
  proof (rule bit_eqI)
    fix n :: nat
    have "bit (drop_bit 5 (uint ?f)) n \<longleftrightarrow> bit ?f (5 + n)"
      by (simp only: bit_drop_bit_eq comp_apply bit_uint_iff) (auto dest: bit_imp_le_length)
    then show "bit (drop_bit 5 (uint ?f)) n = bit (xp_State p) n" using S [of n] by (auto simp: fb)
  qed
  have one: "?f AND 2 ^ n \<noteq> 0 \<longleftrightarrow> bit ?f n" for n by (simp add: and_exp_eq_0_iff_not_bit)
  show "(?f AND 0x04 \<noteq> 0) = xp_Active p" "(?f AND 0x02 \<noteq> 0) = xp_IPv4 p" "(?f AND 0x01 \<noteq> 0) = xp_IPv6 p"
    using one [of 2] one [of 1] one [of 0] by (simp_all add: fb)
qed

interpretation extrep: body_codec "extrep_Len proto" "extrep_Marshal proto" "parseExtendedEchoReply proto typ" extrep_ok "\<lambda>p. p"
  for proto "typ"
proof (unfold_locales, goal_cases)
  case (1 x)
  let ?b = "be16 (word_of_int (xp_ID x)) @ [word_of_int (xp_Seq x), reply_flags x]"
  have "replicate 4 (0 :: byte) = [0, 0, 0, 0]" by (simp add: numeral_eq_Suc)
  then have "extrep_Marshal proto x = Inr ?b"
    by (simp add: extrep_Marshal_def be16_def reply_flags_def or.assoc)
  moreover have "parseExtendedEchoReply proto typ ?b = Inr x"
    using 1 reply_flags_bits [OF 1] by (simp add: parseExtendedEchoReply_def be16_def getUint16_def extrep_ok_def)
  ultimately show ?case by (simp add: extrep_Len_def)
qed (simp add: extrep_Len_def)

section \<open>Round trips of multi-part bodies\<close>

text \<open>
  Data that is not followed by extensions is read back only if its octet 128 does not look like the
  start of an extension structure (the parser accepts senders that do not set the length attribute).
\<close>

definition plainData :: "bytes \<Rightarrow> bool" where
  "plainData data \<longleftrightarrow> length data < 136 \<or> validExtensionHeader (drop 128 data) = Inr False"

definition multipart_ok :: "int \<Rightarrow> bytes \<Rightarrow> Extension list \<Rightarrow> bool" where
  "multipart_ok proto data exts \<longleftrightarrow> (proto = 1 \<or> proto = 58) \<and>
     (\<forall>e \<in> set exts. ext_ok proto e) \<and> length (exts_image proto exts) \<le> 131068 \<and>
     (if exts = [] then plainData data else fitsLength proto (origLen proto True data))"

definition multipart_norm :: "int \<Rightarrow> bytes \<Rightarrow> Extension list \<Rightarrow> bytes" where
  "multipart_norm proto data exts = (if exts = [] then data else padded data (origLen proto True data))"

lemma parse_plainData:
  assumes "plainData data" and "length lead = 4" and "\<not> isExtendedEchoRequest typ"
    and "proto = 1 \<Longrightarrow> lead ! 1 = 0" and "proto = 58 \<Longrightarrow> lead ! 0 = 0"
  shows "parseMultipartMessageBody proto typ (lead @ data) = Inr (data, [])"
proof (cases "data = []")
  case True
  have "0 < length lead" "1 < length lead" using assms(2) by auto
  then have "idx lead 0 = (Inr (lead ! 0) :: byte icmp)" "idx lead 1 = (Inr (lead ! 1) :: byte icmp)" by (auto simp only: idx_Inr)
  then show ?thesis using True assms(2) by (simp add: parseMultipartMessageBody_def)
next
  case False
  have "parseExtensions typ data 0 = Inl (Error errNoExtension)"
  proof (cases "length data < 136")
    case False
    then have "128 \<le> length data" by simp
    with False assms(1,3) show ?thesis by (simp add: parseExtensions_def plainData_def)
  qed (use assms(3) in \<open>simp add: parseExtensions_def\<close>)
  moreover have "(lead @ data) ! 1 = lead ! 1" "(lead @ data) ! 0 = lead ! 0" using assms(2) by (simp_all add: nth_append)
  ultimately show ?thesis
    using False assms(2,4,5) parseMultipart_unfold [of "lead @ data" proto "typ"] by auto
qed

lemma multipart_wire:
  assumes "multipart_ok proto data exts"
  obtains lead tail where "marshalMultipartMessageBody proto True data exts = Inr (lead @ tail)" "length lead = 4"
    "length (lead @ tail) = fst (multipartMessageBodyDataLen proto True data exts)"
    "\<And>lead' typ. length lead' = 4 \<Longrightarrow> (proto = 1 \<Longrightarrow> lead' ! 1 = lead ! 1) \<Longrightarrow> (proto = 58 \<Longrightarrow> lead' ! 0 = lead ! 0) \<Longrightarrow>
       \<not> isExtendedEchoRequest typ \<Longrightarrow> parseMultipartMessageBody proto typ (lead' @ tail) = Inr (multipart_norm proto data exts, exts)"
proof (cases "exts = []")
  case True
  have "replicate (4 + length data) (0 :: byte) = [0, 0, 0, 0] @ replicate (length data) 0" by (simp add: numeral_eq_Suc)
  then have "marshalMultipartMessageBody proto True data exts = Inr ([0, 0, 0, 0] @ data)"
    using True by (simp add: marshalMultipartMessageBody_def multipartMessageBodyDataLen_def Let_def go_copy_def)
  then show ?thesis
    using assms True
    by (intro that [of "[0, 0, 0, 0]" data])
      (auto simp: multipartMessageBodyDataLen_def Let_def multipart_ok_def multipart_norm_def intro!: parse_plainData)
next
  case False
  let ?n = "origLen proto True data"
  have pr: "proto = 1 \<or> proto = 58" and eo: "\<forall>e \<in> set exts. ext_ok proto e" and sz: "length (exts_image proto exts) \<le> 131068"
    and fit: "fitsLength proto ?n" using assms False by (auto simp: multipart_ok_def)
  have n: "length data \<le> ?n" using origLen_ge [OF pr] .
  show ?thesis
  proof (rule that [of "leading proto True ?n" "padded data ?n @ ext_structure proto exts"])
    show "marshalMultipartMessageBody proto True data exts = Inr (leading proto True ?n @ padded data ?n @ ext_structure proto exts)"
      by (rule marshalMultipart_image(1) [OF pr eo False])
    show "length (leading proto True ?n) = 4" by (simp add: leading_def)
    show "length (leading proto True ?n @ padded data ?n @ ext_structure proto exts) = fst (multipartMessageBodyDataLen proto True data exts)"
      using n marshalMultipart_image(2) [OF pr eo False, of True data] by (simp add: leading_def padded_def length_ext_structure)
    show "parseMultipartMessageBody proto typ (lead' @ padded data ?n @ ext_structure proto exts) = Inr (multipart_norm proto data exts, exts)"
      if "length lead' = 4" "proto = 1 \<Longrightarrow> lead' ! 1 = leading proto True ?n ! 1" "proto = 58 \<Longrightarrow> lead' ! 0 = leading proto True ?n ! 0"
        "\<not> isExtendedEchoRequest typ" for lead' "typ"
      using False parseMultipart_image [OF pr eo False sz that(4) fit that(1)] that(2,3) by (simp add: multipart_norm_def leading_def)
  qed
qed

definition dst_ok :: "int \<Rightarrow> DstUnreach \<Rightarrow> bool" where
  "dst_ok proto p \<longleftrightarrow> multipart_ok proto (du_Data p) (du_Extensions p) \<and> onlyUnreachExts (du_Extensions p)"

definition dst_norm :: "int \<Rightarrow> DstUnreach \<Rightarrow> DstUnreach" where
  "dst_norm proto p = p\<lparr>du_Data := multipart_norm proto (du_Data p) (du_Extensions p)\<rparr>"

lemma multipartLen_pos: "0 < fst (multipartMessageBodyDataLen proto wo data exts)"
  by (simp add: multipartMessageBodyDataLen_def Let_def)

lemma ucast_byte_u64: "unat (p :: u64) < 256 \<Longrightarrow> ucast (ucast p :: byte) = p"
  by (simp add: word_unat_eq_iff unsigned_ucast_eq take_bit_eq_mod unat_mod_distrib)

lemma ucast_u32_u64: "unat (p :: u64) < 2 ^ 32 \<Longrightarrow> ucast (ucast p :: u32) = p"
  by (simp add: word_unat_eq_iff unsigned_ucast_eq take_bit_eq_mod unat_mod_distrib)

lemma multipart_plain:
  assumes "multipart_ok proto data exts" and "\<not> isExtendedEchoRequest typ"
  obtains b where "marshalMultipartMessageBody proto True data exts = Inr b"
    "length b = fst (multipartMessageBodyDataLen proto True data exts)" "\<not> length b < 4"
    "parseMultipartMessageBody proto typ b = Inr (multipart_norm proto data exts, exts)"
proof (rule multipart_wire [OF assms(1)])
  fix lead tail
  assume "marshalMultipartMessageBody proto True data exts = Inr (lead @ tail)" "length lead = 4"
    "length (lead @ tail) = fst (multipartMessageBodyDataLen proto True data exts)"
    "\<And>lead' typ. length lead' = 4 \<Longrightarrow> (proto = 1 \<Longrightarrow> lead' ! 1 = lead ! 1) \<Longrightarrow> (proto = 58 \<Longrightarrow> lead' ! 0 = lead ! 0) \<Longrightarrow>
       \<not> isExtendedEchoRequest typ \<Longrightarrow> parseMultipartMessageBody proto typ (lead' @ tail) = Inr (multipart_norm proto data exts, exts)"
  then show thesis using assms(2) by (intro that [of "lead @ tail"]) auto
qed

definition dstType :: "int \<Rightarrow> Type" where
  "dstType proto = (if proto = 1 then v4DestinationUnreachable else v6DestinationUnreachable)"

interpretation dst: body_codec "dst_Len proto" "dst_Marshal proto" "parseDstUnreach proto (dstType proto)" "dst_ok proto" "dst_norm proto"
  for proto
proof (unfold_locales, goal_cases)
  case (1 x)
  then have ok: "multipart_ok proto (du_Data x) (du_Extensions x)" and v: "onlyUnreachExts (du_Extensions x)" by (auto simp: dst_ok_def)
  then have pr: "proto = 1 \<or> proto = 58" by (simp add: multipart_ok_def)
  have "\<not> isExtendedEchoRequest (dstType proto)" by (simp add: isExtendedEchoRequest_def dstType_def)
  then obtain b where "marshalMultipartMessageBody proto True (du_Data x) (du_Extensions x) = Inr b"
    "length b = dst_Len proto x" "\<not> length b < 4"
    "parseMultipartMessageBody proto (dstType proto) b = Inr (multipart_norm proto (du_Data x) (du_Extensions x), du_Extensions x)"
    unfolding dst_Len_def by (rule multipart_plain [OF ok])
  then show ?case
    using pr v by (intro exI [of _ b]) (auto simp: dst_Marshal_def validExtensions_def parseDstUnreach_def dst_norm_def)
qed (simp add: dst_Len_def multipartLen_pos)

definition time_ok :: "int \<Rightarrow> TimeExceeded \<Rightarrow> bool" where
  "time_ok proto p \<longleftrightarrow> multipart_ok proto (te_Data p) (te_Extensions p) \<and> onlyUnreachExts (te_Extensions p)"

definition time_norm :: "int \<Rightarrow> TimeExceeded \<Rightarrow> TimeExceeded" where
  "time_norm proto p = p\<lparr>te_Data := multipart_norm proto (te_Data p) (te_Extensions p)\<rparr>"

definition timeType :: "int \<Rightarrow> Type" where
  "timeType proto = (if proto = 1 then v4TimeExceeded else v6TimeExceeded)"

interpretation time: body_codec "time_Len proto" "time_Marshal proto" "parseTimeExceeded proto (timeType proto)" "time_ok proto" "time_norm proto"
  for proto
proof (unfold_locales, goal_cases)
  case (1 x)
  then have ok: "multipart_ok proto (te_Data x) (te_Extensions x)" and v: "onlyUnreachExts (te_Extensions x)" by (auto simp: time_ok_def)
  then have pr: "proto = 1 \<or> proto = 58" by (simp add: multipart_ok_def)
  have "\<not> isExtendedEchoRequest (timeType proto)" by (simp add: isExtendedEchoRequest_def timeType_def)
  then obtain b where "marshalMultipartMessageBody proto True (te_Data x) (te_Extensions x) = Inr b"
    "length b = time_Len proto x" "\<not> length b < 4"
    "parseMultipartMessageBody proto (timeType proto) b = Inr (multipart_norm proto (te_Data x) (te_Extensions x), te_Extensions x)"
    unfolding time_Len_def by (rule multipart_plain [OF ok])
  then show ?case
    using pr v by (intro exI [of _ b]) (auto simp: time_Marshal_def validExtensions_def parseTimeExceeded_def time_norm_def)
qed (simp add: time_Len_def multipartLen_pos)

text \<open>
  The pointer of a parameter problem is one byte in ICMPv4 and four in ICMPv6, where the body carries
  no extensions.
\<close>

definition param_ok :: "int \<Rightarrow> ParamProb \<Rightarrow> bool" where
  "param_ok proto p \<longleftrightarrow>
     (proto = 1 \<and> multipart_ok 1 (pp_Data p) (pp_Extensions p) \<and> onlyUnreachExts (pp_Extensions p) \<and> unat (pp_Pointer p) < 256)
   \<or> (proto = 58 \<and> pp_Extensions p = [] \<and> unat (pp_Pointer p) < 2 ^ 32)"

definition param_norm :: "int \<Rightarrow> ParamProb \<Rightarrow> ParamProb" where
  "param_norm proto p = p\<lparr>pp_Data := multipart_norm proto (pp_Data p) (pp_Extensions p)\<rparr>"

definition paramType :: "int \<Rightarrow> Type" where
  "paramType proto = (if proto = 1 then v4ParameterProblem else v6ParameterProblem)"

lemma param_v4:
  assumes "param_ok 1 x"
  shows "\<exists>b. param_Marshal 1 x = Inr b \<and> length b = param_Len 1 x \<and> parseParamProb 1 (paramType 1) b = Inr (param_norm 1 x)"
proof -
  have ok: "multipart_ok 1 (pp_Data x) (pp_Extensions x)" and v: "onlyUnreachExts (pp_Extensions x)" and p: "unat (pp_Pointer x) < 256"
    using assms by (auto simp: param_ok_def)
  have t: "\<not> isExtendedEchoRequest (paramType 1)" by (simp add: isExtendedEchoRequest_def paramType_def)
  show ?thesis
  proof (rule multipart_wire [OF ok])
    fix lead tail
    assume a: "marshalMultipartMessageBody 1 True (pp_Data x) (pp_Extensions x) = Inr (lead @ tail)" "length lead = 4"
      "length (lead @ tail) = fst (multipartMessageBodyDataLen 1 True (pp_Data x) (pp_Extensions x))"
      and rd: "\<And>lead' typ. length lead' = 4 \<Longrightarrow> ((1 :: int) = 1 \<Longrightarrow> lead' ! 1 = lead ! 1) \<Longrightarrow> ((1 :: int) = 58 \<Longrightarrow> lead' ! 0 = lead ! 0) \<Longrightarrow>
       \<not> isExtendedEchoRequest typ \<Longrightarrow> parseMultipartMessageBody 1 typ (lead' @ tail) = Inr (multipart_norm 1 (pp_Data x) (pp_Extensions x), pp_Extensions x)"
    let ?l = "lead[0 := ucast (pp_Pointer x)]"
    have u: "(lead @ tail)[0 := v] = lead[0 := v] @ tail" for v using a(2) by (simp add: list_update_append)
    have "parseMultipartMessageBody 1 (paramType 1) (?l @ tail) = Inr (multipart_norm 1 (pp_Data x) (pp_Extensions x), pp_Extensions x)"
      using a(2) t by (intro rd) simp_all
    moreover have "(?l @ tail) ! 0 = ucast (pp_Pointer x)" using a(2) by (cases lead) auto
    moreover have "param_Marshal 1 x = Inr (?l @ tail)"
      using a v u by (simp add: param_Marshal_def validExtensions_def)
    ultimately show ?thesis
      using a ucast_byte_u64 [OF p] by (simp add: param_Len_def parseParamProb_def param_norm_def)
  qed
qed

lemma param_v6:
  assumes "param_ok 58 x"
  shows "\<exists>b. param_Marshal 58 x = Inr b \<and> length b = param_Len 58 x \<and> parseParamProb 58 (paramType 58) b = Inr (param_norm 58 x)"
proof -
  have e: "pp_Extensions x = []" and p: "unat (pp_Pointer x) < 2 ^ 32" using assms by (auto simp: param_ok_def)
  have l: "param_Len 58 x = 4 + length (pp_Data x)" using e by (simp add: param_Len_def multipartMessageBodyDataLen_def Let_def)
  let ?b = "be32 (ucast (pp_Pointer x)) @ pp_Data x"
  have "param_Marshal 58 x = Inr ?b" by (simp add: param_Marshal_def l be32_def go_copy_def)
  moreover have "parseParamProb 58 (paramType 58) ?b = Inr (param_norm 58 x)"
    using e ucast_u32_u64 [OF p]
    by (simp add: parseParamProb_def be32_def getUint32_def go_copy_def param_norm_def multipart_norm_def)
  ultimately show ?thesis using l by simp
qed

interpretation param: body_codec "param_Len proto" "param_Marshal proto" "parseParamProb proto (paramType proto)" "param_ok proto" "param_norm proto"
  for proto
proof (unfold_locales, goal_cases)
  case (1 x)
  then have "proto = 1 \<or> proto = 58" by (auto simp: param_ok_def)
  then show ?case using 1 param_v4 [of x] param_v6 [of x] by auto
qed (simp add: param_Len_def multipartLen_pos)

text \<open>
  An extended echo request carries no datagram: after its four octets comes the extension structure,
  whatever a length attribute would say.
\<close>

definition extreqType :: "int \<Rightarrow> Type" where
  "extreqType proto = (if proto = 1 then v4ExtendedEchoRequest else v6ExtendedEchoRequest)"

definition extreq_ok :: "int \<Rightarrow> ExtendedEchoRequest \<Rightarrow> bool" where
  "extreq_ok proto p \<longleftrightarrow> (proto = 1 \<or> proto = 58) \<and> 0 \<le> xr_ID p \<and> xr_ID p < 65536 \<and> 0 \<le> xr_Seq p \<and> xr_Seq p < 256 \<and>
     (\<forall>e \<in> set (xr_Extensions p). ext_ok proto e) \<and> length (exts_image proto (xr_Extensions p)) \<le> 131068 \<and>
     validExtensions (extreqType proto) (xr_Extensions p)"

definition ext_tail :: "int \<Rightarrow> Extension list \<Rightarrow> bytes" where
  "ext_tail proto exts = (if exts = [] then [] else ext_structure proto exts)"

lemma marshalMultipart_bare:
  assumes "proto = 1 \<or> proto = 58" and "\<forall>e \<in> set exts. ext_ok proto e"
  shows "marshalMultipartMessageBody proto False [] exts = Inr ([0, 0, 0, 0] @ ext_tail proto exts)"
    "fst (multipartMessageBodyDataLen proto False [] exts) = 4 + length (ext_tail proto exts)"
proof -
  have z: "replicate 4 (0 :: byte) = [0, 0, 0, 0]" by (simp add: numeral_eq_Suc)
  have "marshalMultipartMessageBody proto False [] exts = Inr ([0, 0, 0, 0] @ ext_tail proto exts) \<and>
    fst (multipartMessageBodyDataLen proto False [] exts) = 4 + length (ext_tail proto exts)"
  proof (cases "exts = []")
    case True
    then show ?thesis
      by (simp add: marshalMultipartMessageBody_def multipartMessageBodyDataLen_def Let_def go_copy_def ext_tail_def z)
  next
    case False
    then show ?thesis
      using marshalMultipart_image [OF assms False, of False "[]"]
      by (simp add: leading_def padded_def origLen_def ext_tail_def length_ext_structure)
  qed
  then show "marshalMultipartMessageBody proto False [] exts = Inr ([0, 0, 0, 0] @ ext_tail proto exts)"
    "fst (multipartMessageBodyDataLen proto False [] exts) = 4 + length (ext_tail proto exts)" by auto
qed

lemma parseMultipart_bare:
  assumes "\<forall>e \<in> set exts. ext_ok proto e" and "length (exts_image proto exts) \<le> 131068"
    and "isExtendedEchoRequest typ" and "length lead = 4"
  shows "parseMultipartMessageBody proto typ (lead @ ext_tail proto exts) = Inr ([], exts)"
proof (cases "exts = []")
  case True
  have "0 < length lead" "1 < length lead" using assms(4) by auto
  then have "idx lead 0 = (Inr (lead ! 0) :: byte icmp)" "idx lead 1 = (Inr (lead ! 1) :: byte icmp)" by (auto simp only: idx_Inr)
  then show ?thesis using True assms(4) by (simp add: parseMultipartMessageBody_def ext_tail_def)
next
  case False
  then have "4 < length (lead @ ext_tail proto exts)" using assms(4) by (simp add: ext_tail_def length_ext_structure)
  then show ?thesis
    using False assms(4) parseExtensions_echo [OF assms(1) False assms(2,3)]
    by (simp add: parseMultipart_unfold ext_tail_def)
qed

interpretation extreq: body_codec "extreq_Len proto" "extreq_Marshal proto" "parseExtendedEchoRequest proto (extreqType proto)" "extreq_ok proto" "\<lambda>p. p"
  for proto
proof (unfold_locales, goal_cases)
  case (1 x)
  then have pr: "proto = 1 \<or> proto = 58" and eo: "\<forall>e \<in> set (xr_Extensions x). ext_ok proto e"
    and sz: "length (exts_image proto (xr_Extensions x)) \<le> 131068" by (auto simp: extreq_ok_def)
  let ?lead = "be16 (word_of_int (xr_ID x)) @ [word_of_int (xr_Seq x), if xr_Local x then 1 else 0]"
  let ?b = "?lead @ ext_tail proto (xr_Extensions x)"
  have "isExtendedEchoRequest (extreqType proto)" by (simp add: isExtendedEchoRequest_def extreqType_def)
  from parseMultipart_bare [OF eo sz this, of ?lead]
  have "parseMultipartMessageBody proto (extreqType proto) ?b = Inr ([], xr_Extensions x)" by simp
  then have "parseExtendedEchoRequest proto (extreqType proto) ?b = Inr x"
    using 1 by (simp add: parseExtendedEchoRequest_def be16_def getUint16_def extreq_ok_def)
  moreover have "extreq_Marshal proto x = Inr ?b"
    using 1 pr marshalMultipart_bare(1) [OF pr eo]
    by (auto simp: extreq_Marshal_def extreq_ok_def extreqType_def be16_def)
  ultimately show ?case using marshalMultipart_bare(2) [OF pr eo] by (simp add: extreq_Len_def)
qed (simp add: extreq_Len_def multipartLen_pos)

end
