(* ===== verification/Icmp_Message.thy ===== *)
theory Icmp_Message
  imports Icmp_Body
begin

text \<open>
  ICMP messages (\<open>message.go\<close>) and the two headers around them (\<open>ipv4.go\<close>, \<open>ipv6.go\<close>): marshalling with
  the checksum, over the IPv6 pseudo header where one is given, and parsing by the type's parser. A
  pseudo header is \<open>None\<close> for Go's nil; its capacity is its length, so that appending to it copies.
\<close>

record Message =
  m_Type :: Type
  m_Code :: int
  m_Checksum :: int
  m_Body :: "MessageBody option"

definition msg_Marshal :: "Message \<Rightarrow> bytes option \<Rightarrow> bytes icmp" where
  "msg_Marshal m psh =
     bind_go (case m_Type m of IPv4Type t \<Rightarrow> Inr (word_of_int t) | IPv6Type t \<Rightarrow> Inr (word_of_int t)
                | OtherType \<Rightarrow> Inl (Error errInvalidProtocol)) (\<lambda>mtype.
       let b = [mtype, word_of_int (m_Code m), 0, 0];
           proto = typeProtocol (m_Type m);
           plen = (case psh of None \<Rightarrow> 0 | Some p \<Rightarrow> length p);
           b = (case psh of None \<Rightarrow> b | Some p \<Rightarrow> if proto = 58 then p @ b else b)
       in bind_go (case m_Body m of None \<Rightarrow> Inr b
                     | Some body \<Rightarrow> if body_Len proto body \<noteq> 0 then bind_go (body_Marshal proto body) (\<lambda>mb. Inr (b @ mb)) else Inr b) (\<lambda>b.
            if proto = 58 \<and> psh = None then Inr b
            else bind_go (if proto = 58 then put32_at b (2 * 16) (word_of_nat (length b - plen)) else Inr b) (\<lambda>b.
              let s = checksum b in
              bind_go (xor_at b (plen + 2) (ucast s)) (\<lambda>b.
              bind_go (xor_at b (plen + 3) (ucast (drop_bit 8 s))) (\<lambda>b.
                slice_from b plen)))))"

text \<open>The table of parsers, each returning a body of its own kind.\<close>

definition parsed :: "('a \<Rightarrow> MessageBody) \<Rightarrow> 'a icmp \<Rightarrow> MessageBody icmp" where
  "parsed f r = bind_go r (\<lambda>x. Inr (f x))"

definition parseFns :: "Type \<Rightarrow> (int \<Rightarrow> Type \<Rightarrow> bytes \<Rightarrow> MessageBody icmp) option" where
  "parseFns typ =
     (if typ = v4DestinationUnreachable \<or> typ = v6DestinationUnreachable then Some (\<lambda>p t b. parsed BDst (parseDstUnreach p t b))
      else if typ = v4TimeExceeded \<or> typ = v6TimeExceeded then Some (\<lambda>p t b. parsed BTime (parseTimeExceeded p t b))
      else if typ = v4ParameterProblem \<or> typ = v6ParameterProblem then Some (\<lambda>p t b. parsed BParam (parseParamProb p t b))
      else if typ = v4Echo \<or> typ = v4EchoReply \<or> typ = v6EchoRequest \<or> typ = v6EchoReply then Some (\<lambda>p t b. parsed BEcho (parseEcho p t b))
      else if typ = v4ExtendedEchoRequest \<or> typ = v6ExtendedEchoRequest then Some (\<lambda>p t b. parsed BExtReq (parseExtendedEchoRequest p t b))
      else if typ = v4ExtendedEchoReply \<or> typ = v6ExtendedEchoReply then Some (\<lambda>p t b. parsed BExtRep (parseExtendedEchoReply p t b))
      else if typ = v4Timestamp \<or> typ = v4TimestampReply then Some (\<lambda>p t b. parsed BTimestamp (parseTimestamp p t b))
      else if typ = v6PacketTooBig then Some (\<lambda>p t b. parsed BTooBig (parsePacketTooBig p t b))
      else None)"

definition ParseMessage :: "int \<Rightarrow> bytes \<Rightarrow> Message icmp" where
  "ParseMessage proto b =
     (if length b < 4 then Inl (Error errMessageTooShort)
      else bind_go (idx b 1) (\<lambda>code. bind_go (slice b 2 4) (\<lambda>s. bind_go (getUint16 s) (\<lambda>c. bind_go (idx b 0) (\<lambda>t0.
        bind_go (if proto = 1 then Inr (IPv4Type (uint t0)) else if proto = 58 then Inr (IPv6Type (uint t0))
                 else Inl (Error errInvalidProtocol)) (\<lambda>typ.
        bind_go (slice_from b 4) (\<lambda>rest.
        bind_go (case parseFns typ of None \<Rightarrow> parseRawBody proto rest | Some fn \<Rightarrow> fn proto typ rest) (\<lambda>body.
          Inr \<lparr>m_Type = typ, m_Code = uint code, m_Checksum = uint c, m_Body = Some body\<rparr>))))))))"

section \<open>The headers around a message\<close>

definition IPv6PseudoHeader :: "bytes \<Rightarrow> bytes \<Rightarrow> bytes icmp" where
  "IPv6PseudoHeader src dst =
     (let b = replicate 40 0;
          b = go_copy b (case To16 src of None \<Rightarrow> [] | Some ip \<Rightarrow> ip)
      in bind_go (copy_from b 16 (case To16 dst of None \<Rightarrow> [] | Some ip \<Rightarrow> ip)) (\<lambda>b.
           store b (length b - 1) 58))"

datatype goos = Darwin | FreeBSD | OtherOS

datatype byte_order = LittleEndian | BigEndian

fun native_Uint16 :: "byte_order \<Rightarrow> bytes \<Rightarrow> u16 icmp" where
  "native_Uint16 BigEndian b = getUint16 b"
| "native_Uint16 LittleEndian b = bind_go (idx b 1) (\<lambda>b1. bind_go (idx b 0) (\<lambda>b0. Inr (uint16_of b1 b0)))"

record ipv4_Header =
  h_Version :: int
  h_Len :: int
  h_TOS :: int
  h_TotalLen :: int
  h_ID :: int
  h_Flags :: int
  h_FragOff :: int
  h_TTL :: int
  h_Protocol :: int
  h_Checksum :: int
  h_Src :: bytes
  h_Dst :: bytes
  h_Options :: bytes

definition net_IPv4 :: "bytes \<Rightarrow> bytes" where
  "net_IPv4 b = v4InV6Prefix @ b"

definition ParseIPv4Header :: "goos \<Rightarrow> u32 \<Rightarrow> byte_order \<Rightarrow> bytes \<Rightarrow> ipv4_Header icmp" where
  "ParseIPv4Header GOOS freebsdVersion NativeEndian b =
     (if length b < 20 then Inl (Error errHeaderTooShort)
      else bind_go (idx b 0) (\<lambda>b0.
        let hdrlen = push_bit 2 (unat (b0 AND 0x0f)) in
        if hdrlen > length b then Inl (Error errBufferTooShort)
        else bind_go (idx b 1) (\<lambda>tos.
          bind_go (slice b 4 6) (\<lambda>s. bind_go (getUint16 s) (\<lambda>i.
          bind_go (slice b 6 8) (\<lambda>s. bind_go (getUint16 s) (\<lambda>off.
          bind_go (idx b 8) (\<lambda>ttl. bind_go (idx b 9) (\<lambda>pr.
          bind_go (slice b 10 12) (\<lambda>s. bind_go (getUint16 s) (\<lambda>c.
          bind_go (slice b 12 16) (\<lambda>src. bind_go (slice b 16 20) (\<lambda>dst.
          bind_go (slice b 2 4) (\<lambda>s.
          bind_go (case GOOS of Darwin \<Rightarrow> native_Uint16 NativeEndian s
                     | FreeBSD \<Rightarrow> if freebsdVersion \<ge> 1000000 then getUint16 s else native_Uint16 NativeEndian s
                     | OtherOS \<Rightarrow> getUint16 s) (\<lambda>tl.
          bind_go (if hdrlen - 20 > 0 then bind_go (slice_from b 20) (\<lambda>s. Inr (go_copy (replicate (hdrlen - 20) 0) s)) else Inr []) (\<lambda>opts.
            Inr \<lparr>h_Version = uint (drop_bit 4 b0), h_Len = int hdrlen, h_TOS = uint tos, h_TotalLen = uint tl, h_ID = uint i,
                 h_Flags = drop_bit 13 (uint off AND 0xe000), h_FragOff = uint off AND 0x1fff, h_TTL = uint ttl,
                 h_Protocol = uint pr, h_Checksum = uint c, h_Src = net_IPv4 src, h_Dst = net_IPv4 dst, h_Options = opts\<rparr>))))))))))))))))"

section \<open>The bytes of a message\<close>

definition body_bytes :: "int \<Rightarrow> MessageBody option \<Rightarrow> bytes icmp" where
  "body_bytes proto mb = (case mb of None \<Rightarrow> Inr [] | Some body \<Rightarrow> if body_Len proto body \<noteq> 0 then body_Marshal proto body else Inr [])"

fun type_value :: "Type \<Rightarrow> int" where
  "type_value (IPv4Type t) = t"
| "type_value (IPv6Type t) = t"
| "type_value OtherType = 0"

definition msg_header :: "Message \<Rightarrow> bytes" where
  "msg_header m = [word_of_int (type_value (m_Type m)), word_of_int (m_Code m)]"

text \<open>The pseudo header with the upper-layer length filled in.\<close>

definition withLength :: "bytes \<Rightarrow> nat \<Rightarrow> bytes" where
  "withLength p l = take 32 p @ be32 (word_of_nat l) @ drop 36 p"

lemma length_withLength [simp]: "36 \<le> length p \<Longrightarrow> length (withLength p l) = length p"
  by (simp add: withLength_def)

text \<open>What the checksum covers before the message: nothing for ICMPv4, the pseudo header for ICMPv6.\<close>

definition covered :: "bytes option \<Rightarrow> nat \<Rightarrow> bytes" where
  "covered psh l = (case psh of None \<Rightarrow> [] | Some p \<Rightarrow> withLength p l)"

definition psh_ok :: "Message \<Rightarrow> bytes option \<Rightarrow> bool" where
  "psh_ok m psh \<longleftrightarrow> (case m_Type m of IPv4Type t \<Rightarrow> psh = None
     | IPv6Type t \<Rightarrow> (case psh of None \<Rightarrow> True | Some p \<Rightarrow> 36 \<le> length p)
     | OtherType \<Rightarrow> False)"

definition msg_checksum :: "Message \<Rightarrow> bytes option \<Rightarrow> bytes \<Rightarrow> u16" where
  "msg_checksum m psh mb =
     (case m_Type m of IPv6Type t \<Rightarrow> if psh = None then 0 else checksum (withChecksum (covered psh (4 + length mb) @ msg_header m) 0 mb)
      | _ \<Rightarrow> checksum (withChecksum (covered psh (4 + length mb) @ msg_header m) 0 mb))"

lemma put32_at_32:
  assumes "36 \<le> length p"
  shows "put32_at (p @ r) 32 v = Inr (take 32 p @ be32 v @ drop 36 p @ r)"
  using assms by (simp add: put32_at_def putUint32_def go_copy_def)

lemma store_checksum:
  assumes "length p = n"
  shows "bind_go (xor_at (p @ [x, y, 0, 0] @ mb) (n + 2) u) (\<lambda>b. bind_go (xor_at b (n + 3) v) (\<lambda>b. slice_from b n)) =
    Inr ([x, y, u, v] @ mb)"
  using assms write_at [of p n 2 "[x, y, 0, 0]" mb] write_at [of p n 3 "[x, y, u, 0]" mb] by (simp add: numeral_eq_Suc)

lemma msg_Marshal_image:
  assumes "psh_ok m psh" and "body_bytes (typeProtocol (m_Type m)) (m_Body m) = Inr mb"
  shows "msg_Marshal m psh = Inr (withChecksum (msg_header m) (msg_checksum m psh mb) mb)"
proof (cases "m_Type m")
  case (IPv4Type t)
  then have "psh = None" and mb: "body_bytes 1 (m_Body m) = Inr mb"
    using assms by (auto simp: psh_ok_def protocolICMP_def)
  have bind: "(case m_Body m of None \<Rightarrow> Inr b | Some body \<Rightarrow> if body_Len 1 body \<noteq> 0 then bind_go (body_Marshal 1 body) (\<lambda>mb. Inr (b @ mb)) else Inr b)
    = (Inr (b @ mb) :: bytes icmp)" for b using mb by (auto simp: body_bytes_def split: option.splits if_splits)
  show ?thesis
    using IPv4Type \<open>psh = None\<close> store_checksum [of "[]" 0 "word_of_int t" "word_of_int (m_Code m)" mb]
    by (simp add: msg_Marshal_def protocolICMP_def bind msg_checksum_def covered_def withChecksum_def msg_header_def Let_def)
next
  case (IPv6Type t)
  have mb: "body_bytes 58 (m_Body m) = Inr mb" using assms IPv6Type by (simp add: protocolIPv6ICMP_def)
  have bind: "(case m_Body m of None \<Rightarrow> Inr b | Some body \<Rightarrow> if body_Len 58 body \<noteq> 0 then bind_go (body_Marshal 58 body) (\<lambda>mb. Inr (b @ mb)) else Inr b)
    = (Inr (b @ mb) :: bytes icmp)" for b using mb by (auto simp: body_bytes_def split: option.splits if_splits)
  show ?thesis
  proof (cases psh)
    case None
    then show ?thesis using IPv6Type by (simp add: msg_Marshal_def protocolIPv6ICMP_def bind msg_checksum_def withChecksum_def msg_header_def)
  next
    case (Some p)
    then have p: "36 \<le> length p" using assms(1) IPv6Type by (simp add: psh_ok_def)
    have l: "length (p @ [x, y, 0, 0] @ mb) - length p = 4 + length mb" for x y :: byte by simp
    show ?thesis
      using IPv6Type Some p store_checksum [of "withLength p (4 + length mb)" "length p" "word_of_int t" "word_of_int (m_Code m)" mb]
        put32_at_32 [OF p]
      by (simp add: msg_Marshal_def protocolIPv6ICMP_def bind l msg_checksum_def covered_def withChecksum_def msg_header_def Let_def withLength_def)
  qed
qed (use assms in \<open>simp add: psh_ok_def\<close>)

section \<open>Whole messages\<close>

text \<open>A body that fits its message type and keeps its contents on the wire.\<close>

fun body_ok :: "Type \<Rightarrow> MessageBody \<Rightarrow> bool" where
  "body_ok typ (BEcho p) \<longleftrightarrow> typ \<in> {v4Echo, v4EchoReply, v6EchoRequest, v6EchoReply} \<and> echo_ok p"
| "body_ok typ (BExtReq p) \<longleftrightarrow> typ \<in> {v4ExtendedEchoRequest, v6ExtendedEchoRequest} \<and> extreq_ok (typeProtocol typ) p"
| "body_ok typ (BExtRep p) \<longleftrightarrow> typ \<in> {v4ExtendedEchoReply, v6ExtendedEchoReply} \<and> extrep_ok p"
| "body_ok typ (BTimestamp p) \<longleftrightarrow> typ \<in> {v4Timestamp, v4TimestampReply} \<and> timestamp_ok p"
| "body_ok typ (BDst p) \<longleftrightarrow> typ \<in> {v4DestinationUnreachable, v6DestinationUnreachable} \<and> dst_ok (typeProtocol typ) p"
| "body_ok typ (BTime p) \<longleftrightarrow> typ \<in> {v4TimeExceeded, v6TimeExceeded} \<and> time_ok (typeProtocol typ) p"
| "body_ok typ (BParam p) \<longleftrightarrow> typ \<in> {v4ParameterProblem, v6ParameterProblem} \<and> param_ok (typeProtocol typ) p"
| "body_ok typ (BTooBig p) \<longleftrightarrow> typ = v6PacketTooBig \<and> toobig_ok p"
| "body_ok typ (BRaw d) \<longleftrightarrow> typ \<noteq> OtherType \<and> parseFns typ = None"
| "body_ok typ BNil \<longleftrightarrow> False"

text \<open>What the padding of RFC 4884 does to a body: the datagram of an error message grows to its padded length.\<close>

fun body_norm :: "int \<Rightarrow> MessageBody \<Rightarrow> MessageBody" where
  "body_norm proto (BDst p) = BDst (dst_norm proto p)"
| "body_norm proto (BTime p) = BTime (time_norm proto p)"
| "body_norm proto (BParam p) = BParam (param_norm proto p)"
| "body_norm proto body = body"

definition message_ok :: "Message \<Rightarrow> bool" where
  "message_ok m \<longleftrightarrow> 0 \<le> type_value (m_Type m) \<and> type_value (m_Type m) < 256 \<and> 0 \<le> m_Code m \<and> m_Code m < 256 \<and>
     (case m_Body m of None \<Rightarrow> False | Some body \<Rightarrow> body_ok (m_Type m) body)"

definition parseBody :: "Type \<Rightarrow> bytes \<Rightarrow> MessageBody icmp" where
  "parseBody typ b = (case parseFns typ of None \<Rightarrow> parseRawBody (typeProtocol typ) b | Some fn \<Rightarrow> fn (typeProtocol typ) typ b)"

lemmas protocols = protocolICMP_def protocolIPv6ICMP_def
lemmas codec_types = dstType_def timeType_def paramType_def extreqType_def

context body_codec
begin

lemma framed: "ok x \<Longrightarrow> \<exists>b. mar x = Inr b \<and> parsed C (par b) = Inr (C (norm x))"
  using mar_par by (force simp: parsed_def)

end

lemma parseBody_types [simp]:
  "parseBody v4Echo b = parsed BEcho (parseEcho 1 v4Echo b)"
  "parseBody v4EchoReply b = parsed BEcho (parseEcho 1 v4EchoReply b)"
  "parseBody v6EchoRequest b = parsed BEcho (parseEcho 58 v6EchoRequest b)"
  "parseBody v6EchoReply b = parsed BEcho (parseEcho 58 v6EchoReply b)"
  "parseBody v4ExtendedEchoRequest b = parsed BExtReq (parseExtendedEchoRequest 1 (extreqType 1) b)"
  "parseBody v6ExtendedEchoRequest b = parsed BExtReq (parseExtendedEchoRequest 58 (extreqType 58) b)"
  "parseBody v4ExtendedEchoReply b = parsed BExtRep (parseExtendedEchoReply 1 v4ExtendedEchoReply b)"
  "parseBody v6ExtendedEchoReply b = parsed BExtRep (parseExtendedEchoReply 58 v6ExtendedEchoReply b)"
  "parseBody v4Timestamp b = parsed BTimestamp (parseTimestamp 1 v4Timestamp b)"
  "parseBody v4TimestampReply b = parsed BTimestamp (parseTimestamp 1 v4TimestampReply b)"
  "parseBody v4DestinationUnreachable b = parsed BDst (parseDstUnreach 1 (dstType 1) b)"
  "parseBody v6DestinationUnreachable b = parsed BDst (parseDstUnreach 58 (dstType 58) b)"
  "parseBody v4TimeExceeded b = parsed BTime (parseTimeExceeded 1 (timeType 1) b)"
  "parseBody v6TimeExceeded b = parsed BTime (parseTimeExceeded 58 (timeType 58) b)"
  "parseBody v4ParameterProblem b = parsed BParam (parseParamProb 1 (paramType 1) b)"
  "parseBody v6ParameterProblem b = parsed BParam (parseParamProb 58 (paramType 58) b)"
  "parseBody v6PacketTooBig b = parsed BTooBig (parsePacketTooBig 58 v6PacketTooBig b)"
  by (simp_all add: parseBody_def parseFns_def protocols codec_types)

lemma body_roundtrip:
  assumes "body_ok typ body"
  shows "\<exists>b. body_bytes (typeProtocol typ) (Some body) = Inr b \<and> parseBody typ b = Inr (body_norm (typeProtocol typ) body)"
proof (cases body)
  case (BEcho p)
  then show ?thesis using assms by (auto simp: body_bytes_def protocols echo.len_pos echo.framed)
next
  case (BExtReq p)
  then show ?thesis using assms by (auto simp: body_bytes_def protocols extreq.len_pos extreq.framed)
next
  case (BExtRep p)
  then show ?thesis using assms by (auto simp: body_bytes_def protocols extrep.len_pos extrep.framed)
next
  case (BTimestamp p)
  then show ?thesis using assms by (auto simp: body_bytes_def protocols timestamp.len_pos timestamp.framed)
next
  case (BDst p)
  then show ?thesis using assms by (auto simp: body_bytes_def protocols dst.len_pos dst.framed)
next
  case (BTime p)
  then show ?thesis using assms by (auto simp: body_bytes_def protocols time.len_pos time.framed)
next
  case (BParam p)
  then show ?thesis using assms by (auto simp: body_bytes_def protocols param.len_pos param.framed)
next
  case (BTooBig p)
  then show ?thesis using assms by (auto simp: body_bytes_def protocols toobig.len_pos toobig.framed)
next
  case (BRaw d)
  then show ?thesis using assms by (auto simp: body_bytes_def parseBody_def parseRawBody_def go_copy_def)
next
  case BNil
  then show ?thesis using assms by simp
qed

text \<open>A nil body is marshalled like a missing one: its length is zero, so that its encoder is not called.\<close>

lemma msg_Marshal_nil_body: "msg_Marshal (m\<lparr>m_Body := Some BNil\<rparr>) psh = msg_Marshal (m\<lparr>m_Body := None\<rparr>) psh"
  by (simp add: msg_Marshal_def)

lemma ParseMessage_unfold:
  assumes "4 \<le> length b" and "typ = (if proto = 1 then IPv4Type (uint (b ! 0)) else IPv6Type (uint (b ! 0)))" and "proto = 1 \<or> proto = 58"
  shows "ParseMessage proto b = bind_go (parseBody typ (drop 4 b)) (\<lambda>body.
    Inr \<lparr>m_Type = typ, m_Code = uint (b ! 1), m_Checksum = uint (uint16_of (b ! 2) (b ! 3)), m_Body = Some body\<rparr>)"
proof -
  have "1 < length b" "0 < length b" "take 2 (drop 2 b) = [b ! 2, b ! 3]"
    using assms(1) by (auto simp: take_Suc_conv_app_nth numeral_2_eq_2 numeral_3_eq_3)
  then show ?thesis
    using assms by (auto simp: ParseMessage_def getUint16_def parseBody_def protocols split: option.split)
qed

lemma ParseMessage_image:
  assumes "m_Type m \<noteq> OtherType" and "0 \<le> type_value (m_Type m)" and "type_value (m_Type m) < 256" and "0 \<le> m_Code m" and "m_Code m < 256"
    and "parseBody (m_Type m) mb = Inr body"
  shows "ParseMessage (typeProtocol (m_Type m)) (withChecksum (msg_header m) c mb) =
    Inr (m\<lparr>m_Checksum := uint (uint16_of (ucast c) (ucast (drop_bit 8 c))), m_Body := Some body\<rparr>)"
  using assms ParseMessage_unfold [of "withChecksum (msg_header m) c mb" "m_Type m" "typeProtocol (m_Type m)"]
  by (cases "m_Type m") (simp_all add: withChecksum_def msg_header_def protocols)

section \<open>Properties of messages\<close>

text \<open>
  C20. Marshalling and parsing are inverse: a message whose type and code are bytes and whose body fits
  its type (identifiers, sequence numbers, timestamps and pointers within their fields, extensions
  that survive the wire and are allowed for the type, a datagram whose padded length the length
  attribute can express) is marshalled without an error and parsed back with the same type, code and
  body; only the original datagram of an error message with extensions comes back padded with zeros.
\<close>

theorem message_roundtrip:
  assumes "message_ok m" and "psh_ok m psh"
  shows "\<exists>b c body. msg_Marshal m psh = Inr b \<and> m_Body m = Some body \<and>
    ParseMessage (typeProtocol (m_Type m)) b =
      Inr (m\<lparr>m_Checksum := c, m_Body := Some (body_norm (typeProtocol (m_Type m)) body)\<rparr>)"
proof -
  obtain body where body: "m_Body m = Some body" "body_ok (m_Type m) body"
    using assms(1) by (auto simp: message_ok_def split: option.splits)
  obtain mb where mb: "body_bytes (typeProtocol (m_Type m)) (m_Body m) = Inr mb"
      "parseBody (m_Type m) mb = Inr (body_norm (typeProtocol (m_Type m)) body)"
    using body_roundtrip [OF body(2)] body(1) by auto
  have "m_Type m \<noteq> OtherType" using assms(2) by (auto simp: psh_ok_def)
  then show ?thesis
    using msg_Marshal_image [OF assms(2) mb(1)] ParseMessage_image [OF _ _ _ _ _ mb(2)] assms(1) body(1)
    by (auto simp: message_ok_def)
qed

theorem message_roundtrip_witness:
  "message_ok \<lparr>m_Type = v4DestinationUnreachable, m_Code = 15, m_Checksum = 0,
      m_Body = Some (BDst \<lparr>du_Data = [69, 0, 1], du_Extensions = [ExtRaw [0, 5, 9, 1, 7]]\<rparr>)\<rparr> \<and>
   (\<exists>b. msg_Marshal \<lparr>m_Type = v4DestinationUnreachable, m_Code = 15, m_Checksum = 0,
      m_Body = Some (BDst \<lparr>du_Data = [69, 0, 1], du_Extensions = [ExtRaw [0, 5, 9, 1, 7]]\<rparr>)\<rparr> None = Inr b \<and>
      (\<exists>c. ParseMessage 1 b = Inr \<lparr>m_Type = v4DestinationUnreachable, m_Code = 15, m_Checksum = c,
        m_Body = Some (BDst \<lparr>du_Data = [69, 0, 1] @ replicate 125 0, du_Extensions = [ExtRaw [0, 5, 9, 1, 7]]\<rparr>)\<rparr>))"
proof -
  let ?m = "\<lparr>m_Type = v4DestinationUnreachable, m_Code = 15, m_Checksum = 0,
      m_Body = Some (BDst \<lparr>du_Data = [69, 0, 1], du_Extensions = [ExtRaw [0, 5, 9, 1, 7]]\<rparr>)\<rparr>"
  have raw: "raw_ok [0, 5, 9, 1, 7]"
    by (simp add: raw_ok_def be16_def classMPLSLabelStack_def classInterfaceInfo_def classInterfaceIdent_def)
  have len: "origLen 1 True [69, 0, 1] = 128" by (simp add: origLen_def multipartMessageOrigDatagramLen_def roundup_def)
  have ok: "message_ok ?m"
    using raw len by (simp add: message_ok_def dst_ok_def multipart_ok_def protocols exts_image_def fitsLength_def)
  have "dst_norm 1 \<lparr>du_Data = [69, 0, 1], du_Extensions = [ExtRaw [0, 5, 9, 1, 7]]\<rparr> =
      \<lparr>du_Data = [69, 0, 1] @ replicate 125 0, du_Extensions = [ExtRaw [0, 5, 9, 1, 7]]\<rparr>"
    by (simp add: dst_norm_def multipart_norm_def len padded_def)
  then show ?thesis using message_roundtrip [OF ok, of None] ok by (auto simp: psh_ok_def protocols)
qed

lemma msg_Marshal_error:
  "m_Type m \<noteq> OtherType \<Longrightarrow> body_bytes (typeProtocol (m_Type m)) (m_Body m) = Inl e \<Longrightarrow> msg_Marshal m psh = Inl e"
  by (cases "m_Type m") (auto simp: msg_Marshal_def body_bytes_def Let_def protocols split: option.splits if_splits)

lemma msg_Marshal_body:
  assumes "msg_Marshal m psh = Inr b" and "psh_ok m psh"
  obtains mb where "body_bytes (typeProtocol (m_Type m)) (m_Body m) = Inr mb"
    "b = withChecksum (msg_header m) (msg_checksum m psh mb) mb"
proof (cases "body_bytes (typeProtocol (m_Type m)) (m_Body m)")
  case (Inl e)
  then show thesis using assms msg_Marshal_error [of m e psh] by (auto simp: psh_ok_def split: Type.splits)
next
  case (Inr mb)
  then show thesis using that assms msg_Marshal_image [OF assms(2) Inr] by simp
qed

text \<open>The checksum of a marshalled message verifies over all that it covers.\<close>

lemma covered_checksum:
  assumes "psh_ok m psh" and "msg_Marshal m psh = Inr b" and "\<And>t. m_Type m = IPv6Type t \<Longrightarrow> psh \<noteq> None"
    and "even (length (covered psh (length b)))" and "length (covered psh (length b)) + length b \<le> 131072"
  shows "checksum (covered psh (length b) @ b) = 0"
proof -
  obtain mb where b: "b = withChecksum (msg_header m) (msg_checksum m psh mb) mb"
    using msg_Marshal_body [OF assms(2,1)] .
  then have l: "length b = 4 + length mb" by (simp add: withChecksum_def msg_header_def)
  let ?p = "covered psh (4 + length mb) @ msg_header m"
  have "msg_checksum m psh mb = checksum (withChecksum ?p 0 mb)"
    using assms(3) by (auto simp: msg_checksum_def split: Type.split)
  moreover have "covered psh (length b) @ b = withChecksum ?p (msg_checksum m psh mb) mb"
    unfolding l by (subst b) (simp add: withChecksum_def)
  moreover have "even (length ?p)" "length ?p + length mb + 2 \<le> 131072"
    using assms(4,5) l by (simp_all add: msg_header_def)
  ultimately show ?thesis using checksum_withChecksum by simp
qed

text \<open>
  C22. A marshalled ICMPv4 message checks as a receiver verifies it: the Internet checksum over all its
  bytes, the checksum field included, is zero.
\<close>

theorem icmpv4_checksum_verifies:
  assumes "m_Type m = IPv4Type t" and "msg_Marshal m None = Inr b" and "length b \<le> 131072"
  shows "checksum b = 0"
  using covered_checksum [OF _ assms(2)] assms by (simp add: psh_ok_def covered_def)

theorem icmpv4_checksum_verifies_witness:
  "\<exists>b. msg_Marshal \<lparr>m_Type = v4Timestamp, m_Code = 0, m_Checksum = 0, m_Body = Some (BRaw [1, 2, 3])\<rparr> None = Inr b \<and>
    length b = 7 \<and> checksum b = 0"
proof -
  let ?m = "\<lparr>m_Type = v4Timestamp, m_Code = 0, m_Checksum = 0, m_Body = Some (BRaw [1, 2, 3])\<rparr>"
  have "body_bytes (typeProtocol (m_Type ?m)) (m_Body ?m) = Inr [1, 2, 3]" by (simp add: body_bytes_def)
  from msg_Marshal_image [OF _ this, of None] obtain b where b: "msg_Marshal ?m None = Inr b" "length b = 7"
    by (simp add: withChecksum_def msg_header_def psh_ok_def)
  then show ?thesis using icmpv4_checksum_verifies [OF _ b(1)] by auto
qed

text \<open>The shortest body each parser accepts.\<close>

definition minBody :: "Type \<Rightarrow> nat" where
  "minBody typ = (if typ = v4Timestamp \<or> typ = v4TimestampReply then 16 else if parseFns typ = None then 0 else 4)"

definition accepts :: "nat \<Rightarrow> bytes \<Rightarrow> 'a icmp \<Rightarrow> bool" where
  "accepts k b r \<longleftrightarrow> (if length b < k then r = Inl (Error errMessageTooShort) else \<exists>x. r = Inr x)"

lemma accepts_parsed [simp]: "accepts k b (parsed C r) \<longleftrightarrow> accepts k b r"
  by (cases r) (auto simp: accepts_def parsed_def)

lemma accepts_multipart [simp]:
  "accepts 4 b (parseDstUnreach proto typ b)" "accepts 4 b (parseTimeExceeded proto typ b)"
  "accepts 4 b (parseParamProb proto typ b)" "accepts 4 b (parseExtendedEchoRequest proto typ b)"
proof -
  have "\<exists>data exts. parseMultipartMessageBody proto typ b = Inr (data, exts)" "0 < length b" "2 < length b" "3 < length b"
    if "\<not> length b < 4" using that parseMultipart_total [of b proto "typ"] by auto
  then show "accepts 4 b (parseDstUnreach proto typ b)" "accepts 4 b (parseTimeExceeded proto typ b)"
    "accepts 4 b (parseParamProb proto typ b)" "accepts 4 b (parseExtendedEchoRequest proto typ b)"
    by (auto simp: accepts_def parseDstUnreach_def parseTimeExceeded_def parseParamProb_def parseExtendedEchoRequest_def
        getUint16_def getUint32_def)
qed

lemma accepts_plain [simp]:
  "accepts 4 b (parseEcho proto typ b)" "accepts 4 b (parseExtendedEchoReply proto typ b)"
  "accepts 4 b (parsePacketTooBig proto typ b)" "accepts 16 b (parseTimestamp proto typ b)"
proof -
  have "0 < length b" "2 < length b" "3 < length b" if "\<not> length b < 4" using that by auto
  then show "accepts 4 b (parseEcho proto typ b)" "accepts 4 b (parseExtendedEchoReply proto typ b)"
    "accepts 4 b (parsePacketTooBig proto typ b)" "accepts 16 b (parseTimestamp proto typ b)"
    by (auto simp: accepts_def parseEcho_def parseExtendedEchoReply_def parsePacketTooBig_def parseTimestamp_def
        getUint16_def getUint32_def)
qed

lemma accepts_body: "accepts (minBody typ) b (parseBody typ b)"
proof (cases "parseFns typ = None")
  case True
  then have "minBody typ = 0" by (auto simp: minBody_def parseFns_def)
  with True show ?thesis by (simp add: parseBody_def parseRawBody_def accepts_def)
next
  case False
  then have "typ \<in> {v4DestinationUnreachable, v6DestinationUnreachable, v4TimeExceeded, v6TimeExceeded, v4ParameterProblem,
      v6ParameterProblem, v4Echo, v4EchoReply, v6EchoRequest, v6EchoReply, v4ExtendedEchoRequest, v6ExtendedEchoRequest,
      v4ExtendedEchoReply, v6ExtendedEchoReply, v4Timestamp, v4TimestampReply, v6PacketTooBig}"
    by (auto simp: parseFns_def split: if_splits)
  moreover have "minBody typ = (if typ = v4Timestamp \<or> typ = v4TimestampReply then 16 else 4)"
    using False by (auto simp: minBody_def)
  ultimately show ?thesis by auto
qed

text \<open>
  C21. Parsing a message never panics, whatever the protocol and the bytes received. It fails exactly
  if there are fewer than four bytes, if the protocol is neither ICMPv4 nor ICMPv6, or if the body is
  shorter than its type needs (16 bytes for a timestamp, 4 for the other known types, none for an
  unknown one), with the error of that case.
\<close>

theorem ParseMessage_errors:
  "\<exists>typ. typ = (if proto = 1 then IPv4Type (uint (b ! 0)) else IPv6Type (uint (b ! 0))) \<and>
    (if length b < 4 then ParseMessage proto b = Inl (Error errMessageTooShort)
     else if proto \<noteq> 1 \<and> proto \<noteq> 58 then ParseMessage proto b = Inl (Error errInvalidProtocol)
     else if length b < 4 + minBody typ then ParseMessage proto b = Inl (Error errMessageTooShort)
     else \<exists>m. ParseMessage proto b = Inr m \<and> m_Type m = typ)"
proof (intro exI conjI, rule refl)
  let ?t = "if proto = 1 then IPv4Type (uint (b ! 0)) else IPv6Type (uint (b ! 0))"
  consider "length b < 4" | "4 \<le> length b" "proto \<noteq> 1" "proto \<noteq> 58" | "4 \<le> length b" "proto = 1 \<or> proto = 58" by linarith
  then show "if length b < 4 then ParseMessage proto b = Inl (Error errMessageTooShort)
     else if proto \<noteq> 1 \<and> proto \<noteq> 58 then ParseMessage proto b = Inl (Error errInvalidProtocol)
     else if length b < 4 + minBody ?t then ParseMessage proto b = Inl (Error errMessageTooShort)
     else \<exists>m. ParseMessage proto b = Inr m \<and> m_Type m = ?t"
  proof cases
    case 1
    then show ?thesis by (simp add: ParseMessage_def)
  next
    case 2
    then have "0 < length b" "1 < length b" by auto
    with 2 show ?thesis by (simp add: ParseMessage_def getUint16_def)
  next
    case 3
    then show ?thesis
      using ParseMessage_unfold [OF 3(1) refl 3(2)] accepts_body [of ?t "drop 4 b"] by (auto simp: accepts_def split: if_splits)
  qed
qed

section \<open>Properties of the headers\<close>

text \<open>The layout of RFC 791, with the total length in network byte order.\<close>

definition ipv4_image :: "ipv4_Header \<Rightarrow> bytes" where
  "ipv4_image h =
     [word_of_int (16 * h_Version h + h_Len h div 4), word_of_int (h_TOS h)] @ be16 (word_of_int (h_TotalLen h)) @
     be16 (word_of_int (h_ID h)) @ be16 (word_of_int (8192 * h_Flags h + h_FragOff h)) @
     [word_of_int (h_TTL h), word_of_int (h_Protocol h)] @ be16 (word_of_int (h_Checksum h)) @
     drop 12 (h_Src h) @ drop 12 (h_Dst h) @ h_Options h"

definition in_field :: "nat \<Rightarrow> int \<Rightarrow> bool" where
  "in_field n x \<longleftrightarrow> 0 \<le> x \<and> x < 2 ^ n"

definition v4Addr :: "bytes \<Rightarrow> bool" where
  "v4Addr a \<longleftrightarrow> length a = 16 \<and> take 12 a = v4InV6Prefix"

definition ipv4_ok :: "ipv4_Header \<Rightarrow> bool" where
  "ipv4_ok h \<longleftrightarrow> in_field 4 (h_Version h) \<and> h_Len h = 20 + int (length (h_Options h)) \<and> h_Len h mod 4 = 0 \<and> h_Len h \<le> 60 \<and>
     in_field 8 (h_TOS h) \<and> in_field 16 (h_TotalLen h) \<and> in_field 16 (h_ID h) \<and> in_field 3 (h_Flags h) \<and>
     in_field 13 (h_FragOff h) \<and> in_field 8 (h_TTL h) \<and> in_field 8 (h_Protocol h) \<and> in_field 16 (h_Checksum h) \<and>
     v4Addr (h_Src h) \<and> v4Addr (h_Dst h)"

lemma nibbles:
  assumes "in_field 4 v" and "in_field 4 l" and u: "uint (w :: byte) = 16 * v + l"
  shows "uint (drop_bit 4 w) = v" "unat (w AND 0x0f) = nat l"
proof -
  have a: "w AND 0x0f = take_bit 4 w" by (simp add: take_bit_eq_mask mask_eq_exp_minus_1)
  show "uint (drop_bit 4 w) = v"
    using assms by (simp add: in_field_def drop_bit_eq_div uint_div_distrib)
  have "uint (take_bit 4 w) = l"
    using assms by (simp add: in_field_def take_bit_eq_mod uint_mod_distrib)
  then show "unat (w AND 0x0f) = nat l" by (metis a nat_uint_eq)
qed

lemma flags_offset:
  assumes "in_field 3 f" and "in_field 13 k"
  shows "drop_bit 13 ((8192 * f + k) AND 0xe000) = f" "(8192 * f + k) AND 0x1fff = k"
proof -
  have "(x :: int) AND 0x1fff = take_bit 13 x" for x by (simp add: take_bit_eq_mask mask_eq_exp_minus_1)
  then show "(8192 * f + k) AND 0x1fff = k" using assms by (simp add: in_field_def take_bit_eq_mod)
  have "drop_bit 13 ((8192 * f + k) AND 0xe000) = drop_bit 13 (8192 * f + k) AND drop_bit 13 0xe000" by (rule drop_bit_and)
  also have "\<dots> = f AND 7" using assms by (simp add: in_field_def drop_bit_eq_div)
  also have "\<dots> = take_bit 3 f" by (simp add: take_bit_eq_mask mask_eq_exp_minus_1)
  finally show "drop_bit 13 ((8192 * f + k) AND 0xe000) = f" using assms by (simp add: in_field_def take_bit_eq_mod)
qed

lemma list_of_4:
  assumes "length x = 4"
  obtains p q r s where "x = [p, q, r, s]"
  using assms that by (auto simp: length_Suc_conv numeral_eq_Suc)

lemma v4Addr_split:
  assumes "v4Addr a"
  obtains p q r s where "drop 12 a = [p, q, r, s]" "a = v4InV6Prefix @ [p, q, r, s]"
proof -
  have "length (drop 12 a) = 4" using assms by (simp add: v4Addr_def)
  then obtain p q r s where "drop 12 a = [p, q, r, s]" by (rule list_of_4)
  then show thesis using assms append_take_drop_id [of 12 a] that by (auto simp: v4Addr_def)
qed

text \<open>
  C25. Parsing an IPv4 header in wire format reads every field back: for a header whose fields are in
  range (a multiple of four octets, 20 to 60, with that many octets of options), whatever follows it,
  \<open>ParseIPv4Header\<close> returns exactly the header on the systems that keep network byte order.
\<close>

theorem ParseIPv4Header_roundtrip:
  assumes "ipv4_ok h"
  shows "ParseIPv4Header OtherOS v e (ipv4_image h @ payload) = Inr h"
proof -
  obtain s1 s2 s3 s4 where s: "drop 12 (h_Src h) = [s1, s2, s3, s4]" "h_Src h = v4InV6Prefix @ [s1, s2, s3, s4]"
    using v4Addr_split [of "h_Src h"] assms unfolding ipv4_ok_def by blast
  obtain d1 d2 d3 d4 where d: "drop 12 (h_Dst h) = [d1, d2, d3, d4]" "h_Dst h = v4InV6Prefix @ [d1, d2, d3, d4]"
    using v4Addr_split [of "h_Dst h"] assms unfolding ipv4_ok_def by blast
  define l where "l = h_Len h div 4"
  have l: "h_Len h = 4 * l" "in_field 4 l" "5 \<le> l" and ol: "nat (4 * l) = 20 + length (h_Options h)"
    using assms by (auto simp: ipv4_ok_def in_field_def l_def)
  define b0 :: byte where "b0 = word_of_int (16 * h_Version h + l)"
  have "uint b0 = 16 * h_Version h + l"
    unfolding b0_def using assms l(2) by (intro uint_word_of_int_byte) (auto simp: ipv4_ok_def in_field_def)
  then have b0: "uint (drop_bit 4 b0) = h_Version h" "unat (b0 AND 0x0f) = nat l"
    using nibbles [of "h_Version h" l b0] assms l(2) by (auto simp: ipv4_ok_def)
  have hd: "push_bit 2 (nat l) = 20 + length (h_Options h)" using ol l(3) by (simp add: push_bit_eq_mult nat_mult_distrib)
  define fo where "fo = 8192 * h_Flags h + h_FragOff h"
  have fo: "0 \<le> fo" "fo < 65536" using assms by (auto simp: fo_def ipv4_ok_def in_field_def)
  have fl: "drop_bit 13 (fo AND 0xe000) = h_Flags h" "fo AND 0x1fff = h_FragOff h"
    using flags_offset assms by (auto simp: fo_def ipv4_ok_def)
  have img: "ipv4_image h = [b0, word_of_int (h_TOS h)] @ be16 (word_of_int (h_TotalLen h)) @
     be16 (word_of_int (h_ID h)) @ be16 (word_of_int fo) @ [word_of_int (h_TTL h), word_of_int (h_Protocol h)] @
     be16 (word_of_int (h_Checksum h)) @ [s1, s2, s3, s4] @ [d1, d2, d3, d4] @ h_Options h"
    by (simp add: ipv4_image_def s(1) d(1) b0_def fo_def l_def)
  have fields: "in_field 8 (h_TOS h)" "in_field 16 (h_TotalLen h)" "in_field 16 (h_ID h)" "in_field 8 (h_TTL h)"
    "in_field 8 (h_Protocol h)" "in_field 16 (h_Checksum h)" using assms by (auto simp: ipv4_ok_def)
  have hl: "20 + int (length (h_Options h)) = h_Len h" using assms by (simp add: ipv4_ok_def)
  show ?thesis
    unfolding img using fields fo
    by (simp add: ParseIPv4Header_def be16_def getUint16_def b0 hd in_field_def fl go_copy_def net_IPv4_def Let_def hl)
      (use fl in \<open>auto simp: s(2) d(2) simp flip: s(2) d(2) intro!: ipv4_Header.equality\<close>)
qed

theorem ParseIPv4Header_roundtrip_witness:
  "\<exists>h. ipv4_ok h \<and> length (ipv4_image h) = 24 \<and> h_Options h = [7, 4, 0, 0] \<and>
    ParseIPv4Header OtherOS 0 LittleEndian (ipv4_image h @ [9, 9]) = Inr h"
proof -
  let ?h = "\<lparr>h_Version = 4, h_Len = 24, h_TOS = 0, h_TotalLen = 84, h_ID = 4660, h_Flags = 2, h_FragOff = 5, h_TTL = 64,
    h_Protocol = 1, h_Checksum = 1000, h_Src = v4InV6Prefix @ [10, 0, 0, 1], h_Dst = v4InV6Prefix @ [10, 0, 0, 2], h_Options = [7, 4, 0, 0]\<rparr>"
  have p: "length v4InV6Prefix = 12" by (simp add: v4InV6Prefix_def)
  have "ipv4_ok ?h" by (simp add: ipv4_ok_def in_field_def v4Addr_def p)
  moreover have "length (ipv4_image ?h) = 24" by (simp add: ipv4_image_def p)
  ultimately show ?thesis using ParseIPv4Header_roundtrip [of ?h 0 LittleEndian "[9, 9]"] by (intro exI [of _ ?h]) simp
qed

lemma native_Uint16_Inr: "length s = 2 \<Longrightarrow> \<exists>v. native_Uint16 e s = Inr v"
  by (cases e) (auto simp: getUint16_def length_Suc_conv numeral_2_eq_2)

text \<open>
  Parsing an IPv4 header never panics on any system, byte order and input. It fails exactly if there
  are fewer than 20 bytes or fewer than the header announces; the header returned has a length of at
  most 60 that is a multiple of four and does not exceed the input, exactly the octets beyond the
  twentieth as options, and a fragment offset and flags within 13 and 3 bits.
\<close>

theorem ParseIPv4Header_bounds:
  "if length b < 20 then ParseIPv4Header os v e b = Inl (Error errHeaderTooShort)
   else if 4 * (unat (b ! 0) mod 16) > length b then ParseIPv4Header os v e b = Inl (Error errBufferTooShort)
   else \<exists>h. ParseIPv4Header os v e b = Inr h \<and> h_Len h = 4 * (uint (b ! 0) mod 16) \<and> h_Len h \<le> 60 \<and> h_Len h \<le> int (length b) \<and>
     int (length (h_Options h)) = max 0 (h_Len h - 20) \<and> 0 \<le> h_FragOff h \<and> h_FragOff h < 8192 \<and> 0 \<le> h_Flags h \<and> h_Flags h < 8"
proof -
  have a: "unat (w AND 0x0f) = unat w mod 16" for w :: byte
  proof -
    have "w AND 0x0f = take_bit 4 w" by (simp add: take_bit_eq_mask mask_eq_exp_minus_1)
    then show ?thesis by (simp add: take_bit_eq_mod unat_mod_distrib)
  qed
  have "(x :: int) AND 0x1fff = take_bit 13 x" for x by (simp add: take_bit_eq_mask mask_eq_exp_minus_1)
  then have fr: "0 \<le> (x :: int) AND 0x1fff" "(x :: int) AND 0x1fff < 8192" for x by (simp_all add: take_bit_eq_mod)
  have fl: "0 \<le> drop_bit 13 (x AND 0xe000)" "drop_bit 13 ((x :: int) AND 0xe000) < 8" for x
  proof -
    have "drop_bit 13 (x AND 0xe000) = drop_bit 13 x AND 7" by simp
    also have "\<dots> = take_bit 3 (drop_bit 13 x)" by (simp add: take_bit_eq_mask mask_eq_exp_minus_1)
    finally show "0 \<le> drop_bit 13 (x AND 0xe000)" "drop_bit 13 (x AND 0xe000) < 8" by (simp_all add: take_bit_eq_mod)
  qed
  show ?thesis
  proof (cases "length b < 20")
    case False
    then have i: "0 < length b" "1 < length b" "8 < length b" "9 < length b" by auto
    have "4 * (unat (b ! 0) mod 16) \<le> 60" by simp
    moreover have "\<exists>w. native_Uint16 e (take 2 (drop 2 b)) = Inr w" using False by (intro native_Uint16_Inr) simp
    moreover have "uint (b ! 0) mod 16 = int (unat (b ! 0) mod 16)" by (simp add: zmod_int)
    ultimately show ?thesis
      using False i fr fl
      by (auto simp: ParseIPv4Header_def getUint16_def Let_def a push_bit_eq_mult split: goos.split)
  qed (simp add: ParseIPv4Header_def)
qed

section \<open>The IPv6 pseudo header\<close>

lemma IPv6PseudoHeader_v6:
  assumes "length src = 16" and "length dst = 16"
  shows "IPv6PseudoHeader src dst = Inr (src @ dst @ [0, 0, 0, 0, 0, 0, 0, 58])"
proof -
  have r: "replicate 40 (0 :: byte) = replicate 16 0 @ replicate 16 0 @ [0, 0, 0, 0, 0, 0, 0, 0]" by (simp add: numeral_eq_Suc)
  have "go_copy (replicate 40 0) src = src @ replicate 16 0 @ [0, 0, 0, 0, 0, 0, 0, 0]"
    using assms(1) by (simp add: go_copy_def r)
  moreover have "go_copy (replicate 16 0 @ [0, 0, 0, 0, 0, 0, 0, 0]) dst = dst @ [0, 0, 0, 0, 0, 0, 0, 0]"
    using assms(2) by (simp add: go_copy_def)
  ultimately show ?thesis
    using assms by (simp add: IPv6PseudoHeader_def To16_def copy_from_def Let_def list_update_append)
qed

text \<open>
  C23. An ICMPv6 message marshalled with the pseudo header of its addresses carries the checksum of
  RFC 8200: over source address, destination address, message length, three zero octets, next header 58
  and the message itself, the Internet checksum is zero.
\<close>

theorem icmpv6_checksum_verifies:
  assumes "length src = 16" and "length dst = 16" and "IPv6PseudoHeader src dst = Inr psh"
    and "m_Type m = IPv6Type t" and "msg_Marshal m (Some psh) = Inr b" and "length b \<le> 131032"
  shows "checksum (src @ dst @ be32 (word_of_nat (length b)) @ [0, 0, 0, 58] @ b) = 0"
proof -
  have psh: "psh = src @ dst @ [0, 0, 0, 0, 0, 0, 0, 58]" using assms(3) IPv6PseudoHeader_v6 [OF assms(1,2)] by simp
  have ok: "psh_ok m (Some psh)" using assms(1,2,4) psh by (simp add: psh_ok_def)
  have c: "covered (Some psh) (length b) = src @ dst @ be32 (word_of_nat (length b)) @ [0, 0, 0, 58]"
    using assms(1,2) by (simp add: covered_def withLength_def psh)
  have "checksum (covered (Some psh) (length b) @ b) = 0"
    using assms(1,2,6) c by (intro covered_checksum [OF ok assms(5)]) simp_all
  then show ?thesis by (simp add: c)
qed

theorem icmpv6_checksum_verifies_witness:
  "\<exists>b. msg_Marshal \<lparr>m_Type = v6EchoRequest, m_Code = 0, m_Checksum = 0, m_Body = Some (BRaw [1, 2, 3])\<rparr>
        (Some (replicate 16 7 @ replicate 16 9 @ [0, 0, 0, 0, 0, 0, 0, 58])) = Inr b \<and>
    checksum (replicate 16 7 @ replicate 16 9 @ be32 7 @ [0, 0, 0, 58] @ b) = 0"
proof -
  let ?m = "\<lparr>m_Type = v6EchoRequest, m_Code = 0, m_Checksum = 0, m_Body = Some (BRaw [1, 2, 3])\<rparr>"
  let ?p = "replicate 16 7 @ replicate 16 9 @ [0, 0, 0, 0, 0, 0, 0, 58]"
  have psh: "IPv6PseudoHeader (replicate 16 7) (replicate 16 9) = Inr ?p" by (rule IPv6PseudoHeader_v6) simp_all
  have ok: "psh_ok ?m (Some ?p)" by (simp add: psh_ok_def)
  have "body_bytes (typeProtocol (m_Type ?m)) (m_Body ?m) = Inr [1, 2, 3]" by (simp add: body_bytes_def)
  from msg_Marshal_image [OF ok this] obtain b where b: "msg_Marshal ?m (Some ?p) = Inr b" "length b = 7"
    by (simp add: withChecksum_def msg_header_def)
  then show ?thesis using icmpv6_checksum_verifies [OF _ _ psh _ b(1)] by auto
qed

section \<open>Limits of the wire format\<close>

text \<open>
  A pseudo header given for an ICMPv4 message is not part of the buffer but is counted as if it were:
  marshalling panics for every ICMPv4 message no longer than the pseudo header and two more octets.
\<close>

theorem Marshal_v4_psh_panics:
  assumes "m_Type m = IPv4Type t" and "body_bytes 1 (m_Body m) = Inr mb" and "4 + length mb \<le> length psh + 2"
  shows "msg_Marshal m (Some psh) = Inl (Panic IndexOutOfRange)"
proof -
  have bind: "(case m_Body m of None \<Rightarrow> Inr b | Some body \<Rightarrow> if body_Len 1 body \<noteq> 0 then bind_go (body_Marshal 1 body) (\<lambda>mb. Inr (b @ mb)) else Inr b)
    = (Inr (b @ mb) :: bytes icmp)" for b using assms(2) by (auto simp: body_bytes_def split: option.splits if_splits)
  show ?thesis
    using assms by (simp add: msg_Marshal_def protocols bind Let_def xor_at_def idx_def)
qed

theorem Marshal_v4_psh_panics_witness:
  "msg_Marshal \<lparr>m_Type = v4Echo, m_Code = 0, m_Checksum = 0,
      m_Body = Some (BEcho \<lparr>ec_ID = 1, ec_Seq = 2, ec_Data = [1, 2, 3, 4]\<rparr>)\<rparr> (Some (replicate 40 0)) = Inl (Panic IndexOutOfRange)"
proof -
  let ?e = "\<lparr>ec_ID = 1, ec_Seq = 2, ec_Data = [1, 2, 3, 4]\<rparr>"
  let ?m = "\<lparr>m_Type = v4Echo, m_Code = 0, m_Checksum = 0, m_Body = Some (BEcho ?e)\<rparr>"
  obtain mb where "body_bytes 1 (m_Body ?m) = Inr mb" "length mb = 8"
    using echo.mar_par [of ?e 1] by (auto simp: body_bytes_def echo_ok_def echo_Len_def)
  then show ?thesis using Marshal_v4_psh_panics [of ?m 8 mb "replicate 40 0"] by simp
qed

lemma length_byte_wraps: "proto = 1 \<and> n = 1024 \<or> proto = 58 \<and> n = 2048 \<Longrightarrow> leading proto True n = [0, 0, 0, 0]"
  by (auto simp: leading_def word_of_nat_eq_0_iff)

text \<open>
  C40. The length attribute is one octet and wraps: an error message whose padded datagram has 1024 octets
  (ICMPv4; 2048 for ICMPv6) announces length 0, and unless octet 128 of the datagram happens to look
  like an extension header, parsing returns the extensions as part of the datagram and no extension.
\<close>

theorem length_attribute_wraps:
  assumes "proto = 1 \<and> length data = 1024 \<or> proto = 58 \<and> length data = 2048" and "\<forall>e \<in> set exts. ext_ok proto e" and "exts \<noteq> []"
    and "validExtensionHeader (drop 128 (data @ ext_structure proto exts)) = Inr False" and "\<not> isExtendedEchoRequest typ"
  shows "bind_go (marshalMultipartMessageBody proto True data exts) (parseMultipartMessageBody proto typ) =
    Inr (data @ ext_structure proto exts, [])"
proof -
  have pr: "proto = 1 \<or> proto = 58" using assms(1) by auto
  have n: "origLen proto True data = length data"
    using assms(1) by (auto simp: origLen_def multipartMessageOrigDatagramLen_def roundup_def alignDown_def)
  have "leading proto True (length data) = [0, 0, 0, 0]" using assms(1) length_byte_wraps by blast
  then have m: "marshalMultipartMessageBody proto True data exts = Inr ([0, 0, 0, 0] @ data @ ext_structure proto exts)"
    using marshalMultipart_image(1) [OF pr assms(2,3), of True data] by (simp add: n padded_def)
  have "parseExtensions typ (data @ ext_structure proto exts) 0 = Inl (Error errNoExtension)"
    using assms(1,4,5) by (auto simp: parseExtensions_def)
  then show ?thesis using assms(1) by (auto simp: m parseMultipart_unfold)
qed

theorem length_attribute_wraps_witness:
  "bind_go (marshalMultipartMessageBody 1 True (replicate 1024 0) [ExtRaw [0, 5, 9, 1, 7]]) (parseMultipartMessageBody 1 v4TimeExceeded) =
    Inr (replicate 1024 0 @ ext_structure 1 [ExtRaw [0, 5, 9, 1, 7]], [])"
proof -
  have raw: "ext_ok 1 (ExtRaw [0, 5, 9, 1, 7])"
    by (simp add: raw_ok_def be16_def classMPLSLabelStack_def classInterfaceInfo_def classInterfaceIdent_def)
  have "drop 128 (replicate 1024 0 @ x) = replicate 896 0 @ (x :: bytes)" for x by simp
  moreover have "replicate 896 (0 :: byte) = 0 # 0 # 0 # 0 # replicate 892 0" by (simp add: numeral_eq_Suc)
  ultimately have "validExtensionHeader (drop 128 (replicate 1024 0 @ x)) = Inr False" for x
    by (simp add: validExtensionHeader_def getUint16_def uint16_of_def extensionVersion_def)
  then show ?thesis using raw
    by (intro length_attribute_wraps) (simp_all add: isExtendedEchoRequest_def)
qed

text \<open>An interface information object with an interface index and a name.\<close>

definition named :: "int \<Rightarrow> bytes \<Rightarrow> Extension" where
  "named i name = ExtInfo \<lparr>ii_Class = 2, ii_Type = 0x0a, ii_Interface = Some \<lparr>if_Index = i, if_MTU = 0, if_Name = name\<rparr>, ii_Addr = None\<rparr>"

text \<open>
  A name that is longer than its 64-octet field is written beyond it, into the object that follows:
  after an interface whose name has 76 letters \<open>x\<close>, an interface named \<open>ab\<close> is read back as \<open>abx\<close>.
\<close>

theorem long_name_spills:
  "bind_go (marshalExts 1 [named 1 (replicate 76 0x78), named 2 [0x61, 0x62]] 0 (replicate 84 0)) (\<lambda>b. parseObjects b []) =
    Inr [named 1 (replicate 63 0x78), named 2 [0x61, 0x62, 0x78]]"
  by code_simp

fun isIdent :: "Extension \<Rightarrow> bool" where
  "isIdent (ExtIdent x) = True"
| "isIdent e = False"

lemma countIdents_eq:
  "countIdents es n = (if list_all (\<lambda>e. isIdent e \<or> isRawExtension e) es then Some (n + length (filter isIdent es)) else None)"
  by (induction es n rule: countIdents.induct) auto

text \<open>
  What the code accepts as extensions of an extended echo request: objects that are raw or interface
  identifications, except a single identification next to raw objects. Two identifications, also next
  to raw objects, are accepted, although the comment excludes all but a single one.
\<close>

theorem validExtensions_echo:
  "validExtensions (extreqType proto) exts =
    (list_all (\<lambda>e. isIdent e \<or> isRawExtension e) exts \<and> \<not> (length (filter isIdent exts) = 1 \<and> length exts > 1))"
  by (simp add: validExtensions_def extreqType_def countIdents_eq)

end
