(* ===== verification/Icmp_Listen.thy ===== *)
theory Icmp_Listen
  imports Icmp_Message
begin

text \<open>
  Opening an ICMP endpoint (\<open>listen_posix.go\<close>, \<open>helper_posix.go\<close>) and using it (\<open>endpoint.go\<close>). The kernel
  and package \<open>net\<close> are an argument: a record with the outcome of each call. The state is the list of
  open descriptors, so that every path of \<open>ListenPacket\<close> shows what it leaves open. Address family
  numbers are those of Linux.
\<close>

section \<open>Helpers\<close>

definition AF_INET :: int where "AF_INET = 2"
definition AF_INET6 :: int where "AF_INET6 = 10"

datatype net_error = SyscallError string string | InvalidAddrError string | NetError string

datatype Sockaddr = SockaddrInet4 bytes | SockaddrInet6 u32 bytes

record sysenv =
  se_Socket :: "int \<Rightarrow> int \<Rightarrow> string + nat"
  se_SetsockoptInt :: "nat \<Rightarrow> string option"
  se_Bind :: "nat \<Rightarrow> Sockaddr \<Rightarrow> string option"
  se_FilePacketConn :: "nat \<Rightarrow> string + nat"
  se_ListenPacket :: "string \<Rightarrow> string \<Rightarrow> string + nat"
  se_ResolveIPAddr :: "string \<Rightarrow> string \<Rightarrow> string + net_IPAddr"
  se_InterfaceByName :: "bytes \<Rightarrow> int option"

text \<open>\<open>strconv.Atoi\<close> on a 64-bit system: an optional sign, then decimal digits, within \<open>int64\<close>.\<close>

fun atoi_digits :: "bytes \<Rightarrow> int \<Rightarrow> int option" where
  "atoi_digits [] n = Some n"
| "atoi_digits (d # ds) n = (if 0x30 \<le> d \<and> d \<le> 0x39 then atoi_digits ds (10 * n + (uint d - 48)) else None)"

definition Atoi :: "bytes \<Rightarrow> int option" where
  "Atoi s =
     (let (neg, ds) = (case s of [] \<Rightarrow> (False, []) | c # cs \<Rightarrow> if c = 0x2d then (True, cs) else if c = 0x2b then (False, cs) else (False, s))
      in if ds = [] then None
         else case atoi_digits ds 0 of None \<Rightarrow> None
           | Some n \<Rightarrow> let v = (if neg then - n else n) in if - (2 ^ 63) \<le> v \<and> v < 2 ^ 63 then Some v else None)"

definition zoneToUint32 :: "sysenv \<Rightarrow> bytes \<Rightarrow> u32" where
  "zoneToUint32 env zone =
     (if zone = [] then 0
      else case se_InterfaceByName env zone of Some i \<Rightarrow> word_of_int i
        | None \<Rightarrow> (case Atoi zone of None \<Rightarrow> 0 | Some n \<Rightarrow> word_of_int n))"

fun last_loop :: "string \<Rightarrow> char \<Rightarrow> nat \<Rightarrow> int" where
  "last_loop s b 0 = - 1"
| "last_loop s b (Suc i) = (if s ! i = b then int i else last_loop s b i)"

definition last_index :: "string \<Rightarrow> char \<Rightarrow> int" where
  "last_index s b = last_loop s b (length s)"

definition IPv4zero :: bytes where "IPv4zero = v4InV6Prefix @ [0, 0, 0, 0]"
definition IPv6unspecified :: bytes where "IPv6unspecified = replicate 16 0"

text \<open>\<open>net.IP.Equal\<close>: an IPv4 address and the same address in IPv6 form are equal.\<close>

definition ip_Equal :: "bytes \<Rightarrow> bytes \<Rightarrow> bool" where
  "ip_Equal ip x =
     (if length ip = length x then ip = x
      else if length ip = 4 \<and> length x = 16 then take 12 x = v4InV6Prefix \<and> ip = drop 12 x
      else if length ip = 16 \<and> length x = 4 then take 12 ip = v4InV6Prefix \<and> drop 12 ip = x
      else False)"

definition sockaddr :: "sysenv \<Rightarrow> int \<Rightarrow> string \<Rightarrow> net_error + Sockaddr" where
  "sockaddr env family address =
     (if family = AF_INET then
        (case se_ResolveIPAddr env ''ip4'' address of Inl e \<Rightarrow> Inl (NetError e)
         | Inr a \<Rightarrow>
             let ip = (if length (ip_IP a) = 0 then IPv4zero else ip_IP a) in
             (case To4 ip of None \<Rightarrow> Inl (InvalidAddrError ''non-ipv4 address'')
              | Some ip4 \<Rightarrow> Inr (SockaddrInet4 (go_copy (replicate 4 0) ip4))))
      else if family = AF_INET6 then
        (case se_ResolveIPAddr env ''ip6'' address of Inl e \<Rightarrow> Inl (NetError e)
         | Inr a \<Rightarrow>
             let ip = (if length (ip_IP a) = 0 then IPv6unspecified else ip_IP a);
                 ip = (if ip_Equal ip IPv4zero then IPv6unspecified else ip) in
             (case To16 ip of None \<Rightarrow> Inl (InvalidAddrError ''non-ipv6 address'')
              | Some ip16 \<Rightarrow> if To4 ip16 \<noteq> None then Inl (InvalidAddrError ''non-ipv6 address'')
                  else Inr (SockaddrInet6 (zoneToUint32 env (ip_Zone a)) (go_copy (replicate 16 0) ip16))))
      else Inl (InvalidAddrError ''unexpected family''))"

section \<open>Listening\<close>

record PacketConn =
  pc_c :: "nat option"
  pc_p4 :: "nat option"
  pc_p6 :: "nat option"

definition sys_close :: "nat \<Rightarrow> nat list \<Rightarrow> nat list" where
  "sys_close fd fds = remove1 fd fds"

definition networkProto :: "string \<Rightarrow> int \<times> int" where
  "networkProto network =
     (if network = ''udp4'' then (AF_INET, protocolICMP)
      else if network = ''udp6'' then (AF_INET6, protocolIPv6ICMP)
      else
        let i = last_index network CHR '':'';
            i = (if i < 0 then length network else nat i);
            p = take i network
        in (0, if p = ''ip4'' then protocolICMP else if p = ''ip6'' then protocolIPv6ICMP else 0))"

definition listenDatagram :: "goos \<Rightarrow> sysenv \<Rightarrow> int \<Rightarrow> int \<Rightarrow> string \<Rightarrow> nat list \<Rightarrow> (net_error + nat) \<times> nat list" where
  "listenDatagram GOOS env family proto address fds =
     (case se_Socket env family proto of
        Inl e \<Rightarrow> (Inl (SyscallError ''socket'' e), fds)
      | Inr s \<Rightarrow>
          let fds = s # fds in
          case (if GOOS = Darwin \<and> family = AF_INET then se_SetsockoptInt env s else None) of
            Some e \<Rightarrow> (Inl (SyscallError ''setsockopt'' e), sys_close s fds)
          | None \<Rightarrow>
              (case sockaddr env family address of
                 Inl e \<Rightarrow> (Inl e, sys_close s fds)
               | Inr sa \<Rightarrow>
                   (case se_Bind env s sa of
                      Some e \<Rightarrow> (Inl (SyscallError ''bind'' e), sys_close s fds)
                    | None \<Rightarrow>
                        (case se_FilePacketConn env s of
                           Inl e \<Rightarrow> (Inl (NetError e), sys_close s fds)
                         | Inr c \<Rightarrow> (Inr c, sys_close s (c # fds))))))"

definition ListenPacket :: "goos \<Rightarrow> sysenv \<Rightarrow> string \<Rightarrow> string \<Rightarrow> nat list \<Rightarrow> (net_error + PacketConn) \<times> nat list" where
  "ListenPacket GOOS env network address fds =
     (let (family, proto) = networkProto network;
          (r, fds) = (if family = AF_INET \<or> family = AF_INET6 then listenDatagram GOOS env family proto address fds
                      else case se_ListenPacket env network address of Inl e \<Rightarrow> (Inl (NetError e), fds) | Inr c \<Rightarrow> (Inr c, c # fds))
      in case r of Inl e \<Rightarrow> (Inl e, fds)
         | Inr c \<Rightarrow> (Inr (if proto = protocolICMP then \<lparr>pc_c = Some c, pc_p4 = Some c, pc_p6 = None\<rparr>
                         else if proto = protocolIPv6ICMP then \<lparr>pc_c = Some c, pc_p4 = None, pc_p6 = Some c\<rparr>
                         else \<lparr>pc_c = Some c, pc_p4 = None, pc_p6 = None\<rparr>), fds))"

section \<open>The endpoint\<close>

text \<open>A nil \<open>*PacketConn\<close> is \<open>None\<close>. The operations of the underlying connection are arguments.\<close>

datatype conn_error = InvalidConn | ConnError string

record connops =
  co_ReadFrom :: "nat \<Rightarrow> nat \<Rightarrow> string + bytes \<times> bytes"
  co_ReadFrom4 :: "nat \<Rightarrow> nat \<Rightarrow> string + bytes \<times> bytes"
  co_WriteTo :: "nat \<Rightarrow> bytes \<Rightarrow> bytes \<Rightarrow> string + nat"
  co_Close :: "nat \<Rightarrow> string option"
  co_LocalAddr :: "nat \<Rightarrow> bytes"
  co_SetDeadline :: "nat \<Rightarrow> Time \<Rightarrow> string option"
  co_SetReadDeadline :: "nat \<Rightarrow> Time \<Rightarrow> string option"
  co_SetWriteDeadline :: "nat \<Rightarrow> Time \<Rightarrow> string option"

text \<open>The connection of an endpoint that passes \<open>ok\<close>.\<close>

text \<open>On the systems of \<open>listen_stub.go\<close> there is no endpoint.\<close>

definition ListenPacket_stub :: "string \<Rightarrow> string \<Rightarrow> nat list \<Rightarrow> (icmp_error + PacketConn) \<times> nat list" where
  "ListenPacket_stub network address fds = (Inl errNotImplemented, fds)"

text \<open>
  \<open>sys_freebsd.go\<close>: the version that \<open>ParseIPv4Header\<close> consults is read once from the kernel; the error is
  ignored, and the variable then gets what the call returns beside it.
\<close>

definition freebsdVersion_init :: "(string \<Rightarrow> u32 \<times> string option) \<Rightarrow> u32" where
  "freebsdVersion_init SysctlUint32 = fst (SysctlUint32 ''kern.osreldate'')"

definition pc_ok :: "PacketConn option \<Rightarrow> nat option" where
  "pc_ok c = (case c of None \<Rightarrow> None | Some p \<Rightarrow> pc_c p)"

definition lift_conn :: "string + 'a \<Rightarrow> conn_error + 'a" where
  "lift_conn r = (case r of Inl e \<Rightarrow> Inl (ConnError e) | Inr x \<Rightarrow> Inr x)"

definition lift_err :: "string option \<Rightarrow> conn_error option" where
  "lift_err r = (case r of None \<Rightarrow> None | Some e \<Rightarrow> Some (ConnError e))"

definition IPv4PacketConn :: "PacketConn option \<Rightarrow> nat option" where
  "IPv4PacketConn c = (case c of None \<Rightarrow> None | Some p \<Rightarrow> if pc_c p = None then None else pc_p4 p)"

definition IPv6PacketConn :: "PacketConn option \<Rightarrow> nat option" where
  "IPv6PacketConn c = (case c of None \<Rightarrow> None | Some p \<Rightarrow> if pc_c p = None then None else pc_p6 p)"

definition pc_ReadFrom :: "goos \<Rightarrow> connops \<Rightarrow> PacketConn option \<Rightarrow> nat \<Rightarrow> conn_error + bytes \<times> bytes" where
  "pc_ReadFrom GOOS ops c n =
     (case c of None \<Rightarrow> Inl InvalidConn
      | Some p \<Rightarrow>
          (case pc_c p of None \<Rightarrow> Inl InvalidConn
           | Some fd \<Rightarrow>
               (case pc_p4 p of
                  Some p4 \<Rightarrow> if GOOS = Darwin then lift_conn (co_ReadFrom4 ops p4 n) else lift_conn (co_ReadFrom ops fd n)
                | None \<Rightarrow> lift_conn (co_ReadFrom ops fd n))))"

definition pc_WriteTo :: "connops \<Rightarrow> PacketConn option \<Rightarrow> bytes \<Rightarrow> bytes \<Rightarrow> conn_error + nat" where
  "pc_WriteTo ops c b dst = (case pc_ok c of None \<Rightarrow> Inl InvalidConn | Some fd \<Rightarrow> lift_conn (co_WriteTo ops fd b dst))"

definition pc_Close :: "connops \<Rightarrow> PacketConn option \<Rightarrow> nat list \<Rightarrow> conn_error option \<times> nat list" where
  "pc_Close ops c fds = (case pc_ok c of None \<Rightarrow> (Some InvalidConn, fds) | Some fd \<Rightarrow> (lift_err (co_Close ops fd), sys_close fd fds))"

definition pc_LocalAddr :: "connops \<Rightarrow> PacketConn option \<Rightarrow> bytes option" where
  "pc_LocalAddr ops c = (case pc_ok c of None \<Rightarrow> None | Some fd \<Rightarrow> Some (co_LocalAddr ops fd))"

definition pc_SetDeadline :: "connops \<Rightarrow> PacketConn option \<Rightarrow> Time \<Rightarrow> conn_error option" where
  "pc_SetDeadline ops c t = (case pc_ok c of None \<Rightarrow> Some InvalidConn | Some fd \<Rightarrow> lift_err (co_SetDeadline ops fd t))"

definition pc_SetReadDeadline :: "connops \<Rightarrow> PacketConn option \<Rightarrow> Time \<Rightarrow> conn_error option" where
  "pc_SetReadDeadline ops c t = (case pc_ok c of None \<Rightarrow> Some InvalidConn | Some fd \<Rightarrow> lift_err (co_SetReadDeadline ops fd t))"

definition pc_SetWriteDeadline :: "connops \<Rightarrow> PacketConn option \<Rightarrow> Time \<Rightarrow> conn_error option" where
  "pc_SetWriteDeadline ops c t = (case pc_ok c of None \<Rightarrow> Some InvalidConn | Some fd \<Rightarrow> lift_err (co_SetWriteDeadline ops fd t))"

section \<open>Descriptors\<close>

text \<open>
  What is relied on of the kernel: a new descriptor is not one that is open, and the duplicate that
  \<open>net.FilePacketConn\<close> makes differs from the file it was made from.
\<close>

definition fresh_descriptors :: "sysenv \<Rightarrow> nat list \<Rightarrow> bool" where
  "fresh_descriptors env fds \<longleftrightarrow>
     (\<forall>f p s. se_Socket env f p = Inr s \<longrightarrow> s \<notin> set fds) \<and>
     (\<forall>s c. se_FilePacketConn env s = Inr c \<longrightarrow> c \<notin> set fds \<and> c \<noteq> s) \<and>
     (\<forall>n a c. se_ListenPacket env n a = Inr c \<longrightarrow> c \<notin> set fds)"

text \<open>An operation that acquires a resource and the one that gives it back.\<close>

locale resource =
  fixes acquire :: "'s \<Rightarrow> ('e + 'h) \<times> 's" and release :: "'h \<Rightarrow> 's \<Rightarrow> 's" and usable :: "'s \<Rightarrow> bool"
  assumes acquire_fails: "usable s \<Longrightarrow> acquire s = (Inl e, s') \<Longrightarrow> s' = s"
    and acquire_release: "usable s \<Longrightarrow> acquire s = (Inr h, s') \<Longrightarrow> release h s' = s"
begin

lemma balanced: "usable s \<Longrightarrow> (case acquire s of (Inl e, s') \<Rightarrow> s' | (Inr h, s') \<Rightarrow> release h s') = s"
  using acquire_fails acquire_release by (auto split: prod.split sum.split)

end

lemma listenDatagram_fds:
  assumes "fresh_descriptors env fds"
  shows "case listenDatagram os env family proto address fds of (Inl e, fds') \<Rightarrow> fds' = fds
    | (Inr c, fds') \<Rightarrow> fds' = c # fds \<and> c \<notin> set fds"
proof (cases "se_Socket env family proto")
  case (Inr s)
  then have s: "s \<notin> set fds" using assms by (simp add: fresh_descriptors_def)
  have c: "c \<notin> set fds \<and> c \<noteq> s" if "se_FilePacketConn env s = Inr c" for c
    using assms that by (simp add: fresh_descriptors_def)
  show ?thesis
    using Inr c
    by (cases "if os = Darwin \<and> family = AF_INET then se_SetsockoptInt env s else None")
      (auto simp: listenDatagram_def Let_def sys_close_def split: sum.split option.split)
qed (simp add: listenDatagram_def)

lemma ListenPacket_fds:
  assumes "fresh_descriptors env fds"
  shows "case ListenPacket os env network address fds of (Inl e, fds') \<Rightarrow> fds' = fds
    | (Inr p, fds') \<Rightarrow> (\<exists>c. fds' = c # fds \<and> c \<notin> set fds \<and> pc_c p = Some c)"
proof -
  obtain family proto where n: "networkProto network = (family, proto)" by fastforce
  define r where "r = (if family = AF_INET \<or> family = AF_INET6 then listenDatagram os env family proto address fds
    else case se_ListenPacket env network address of Inl e \<Rightarrow> (Inl (NetError e), fds) | Inr c \<Rightarrow> (Inr c, c # fds))"
  have "case r of (Inl e, fds') \<Rightarrow> fds' = fds | (Inr c, fds') \<Rightarrow> fds' = c # fds \<and> c \<notin> set fds"
    using listenDatagram_fds [OF assms] assms by (simp add: r_def fresh_descriptors_def split: sum.split)
  then show ?thesis by (auto simp: ListenPacket_def n Let_def simp flip: r_def split: sum.splits prod.splits)
qed

interpretation endpoint: resource "ListenPacket os env network address" "\<lambda>p fds. snd (pc_Close ops (Some p) fds)" "fresh_descriptors env"
  for os env network address ops
proof (unfold_locales, goal_cases)
  case (1 s e s')
  then show ?case using ListenPacket_fds [of env s os network address] by simp
next
  case (2 s h s')
  then show ?case using ListenPacket_fds [of env s os network address] by (auto simp: pc_Close_def pc_ok_def sys_close_def)
qed

text \<open>
  C26. \<open>ListenPacket\<close> leaks no descriptor: whichever call fails, exactly the descriptors open before remain
  open; on success one more is open, that of the endpoint's connection (the socket it was made from is
  closed), and closing the endpoint restores the descriptors.
\<close>

theorem listen_leaks_nothing:
  assumes "fresh_descriptors env fds"
  shows "case ListenPacket os env network address fds of
      (Inl e, fds') \<Rightarrow> fds' = fds
    | (Inr p, fds') \<Rightarrow> (\<exists>c. pc_ok (Some p) = Some c \<and> fds' = c # fds \<and> snd (pc_Close ops (Some p) fds') = fds)"
  using ListenPacket_fds [OF assms, of os network address]
    endpoint.balanced [OF assms, where os = os and network = network and address = address and ops = ops]
  by (auto simp: pc_ok_def split: prod.splits sum.splits)

definition sample_env :: sysenv where
  "sample_env = \<lparr>se_Socket = (\<lambda>f p. Inr 7), se_SetsockoptInt = (\<lambda>s. None), se_Bind = (\<lambda>s a. if a = SockaddrInet4 [10, 0, 0, 1] then None else Some ''EADDRNOTAVAIL''),
     se_FilePacketConn = (\<lambda>s. if s = 8 then Inl ''EBADF'' else Inr 8), se_ListenPacket = (\<lambda>n a. Inr 9),
     se_ResolveIPAddr = (\<lambda>n a. if a = ''me'' then Inr \<lparr>ip_IP = [10, 0, 0, 1], ip_Zone = []\<rparr> else Inr \<lparr>ip_IP = [], ip_Zone = []\<rparr>), se_InterfaceByName = (\<lambda>z. None)\<rparr>"

lemma sample_env_fresh: "fresh_descriptors sample_env [0, 2, 3]"
  by (auto simp: fresh_descriptors_def sample_env_def split: if_splits)

theorem listen_leaks_nothing_witness:
  "\<exists>p. ListenPacket OtherOS sample_env ''udp4'' ''me'' [0, 2, 3] = (Inr p, [8, 0, 2, 3]) \<and>
    (\<forall>ops. snd (pc_Close ops (Some p) [8, 0, 2, 3]) = [0, 2, 3]) \<and>
    ListenPacket OtherOS sample_env ''udp4'' ''other'' [0, 2, 3] = (Inl (SyscallError ''bind'' ''EADDRNOTAVAIL''), [0, 2, 3])"
proof -
  have r: "ListenPacket OtherOS sample_env ''udp4'' ''me'' [0, 2, 3] = (Inr \<lparr>pc_c = Some 8, pc_p4 = Some 8, pc_p6 = None\<rparr>, [8, 0, 2, 3])"
    by code_simp
  have f: "ListenPacket OtherOS sample_env ''udp4'' ''other'' [0, 2, 3] = (Inl (SyscallError ''bind'' ''EADDRNOTAVAIL''), [0, 2, 3])"
    by code_simp
  have "snd (pc_Close ops (Some \<lparr>pc_c = Some 8, pc_p4 = Some 8, pc_p6 = None\<rparr>) [8, 0, 2, 3]) = [0, 2, 3]" for ops
    using listen_leaks_nothing [OF sample_env_fresh, where os = OtherOS and network = "''udp4''" and address = "''me''" and ops = ops] by (simp add: r)
  with r f show ?thesis by blast
qed

section \<open>Addresses and protocols\<close>

lemma last_loop_spec:
  assumes "n \<le> length s" and "b \<notin> set (drop n s)"
  shows "last_loop s b n = - 1 \<and> b \<notin> set s \<or> (\<exists>pre post. s = pre @ b # post \<and> b \<notin> set post \<and> last_loop s b n = int (length pre))"
  using assms
proof (induction n)
  case (Suc i)
  then have d: "drop i s = s ! i # drop (Suc i) s" by (simp add: Cons_nth_drop_Suc)
  show ?case
  proof (cases "s ! i = b")
    case True
    then have "s = take i s @ b # drop (Suc i) s" using d append_take_drop_id [of i s] by simp
    then show ?thesis using True Suc.prems by (intro disjI2 exI [of _ "take i s"] exI [of _ "drop (Suc i) s"]) auto
  next
    case False
    then show ?thesis using Suc d by simp
  qed
qed simp

text \<open>The part of a network name before its last colon.\<close>

lemma last_index_spec:
  "last_index s b = - 1 \<and> b \<notin> set s \<or> (\<exists>pre post. s = pre @ b # post \<and> b \<notin> set post \<and> last_index s b = int (length pre))"
  unfolding last_index_def by (rule last_loop_spec) simp_all

definition names_family :: "string \<Rightarrow> string \<Rightarrow> bool" where
  "names_family f network \<longleftrightarrow> network = f \<or> (\<exists>post. network = f @ '':'' @ post \<and> CHR '':'' \<notin> set post)"

lemma prefix_names_family:
  assumes "CHR '':'' \<notin> set f"
  shows "take (if last_index s CHR '':'' < 0 then length s else nat (last_index s CHR '':'')) s = f \<longleftrightarrow> names_family f s"
  using last_index_spec [of s "CHR '':''"]
proof (elim disjE exE conjE)
  assume a: "last_index s CHR '':'' = - 1" "CHR '':'' \<notin> set s"
  then show ?thesis by (auto simp: names_family_def)
next
  fix pre post
  assume a: "s = pre @ CHR '':'' # post" "CHR '':'' \<notin> set post" "last_index s CHR '':'' = int (length pre)"
  have "names_family f s \<longleftrightarrow> pre = f"
  proof
    assume "names_family f s"
    then consider "s = f" | post' where "s = f @ CHR '':'' # post'" "CHR '':'' \<notin> set post'" by (auto simp: names_family_def)
    then show "pre = f"
    proof cases
      case 1
      then show ?thesis using a(1) assms by auto
    next
      case 2
      then show ?thesis using a(1,2) by (auto simp: append_eq_append_conv2 Cons_eq_append_conv append_eq_Cons_conv)
    qed
  qed (use a in \<open>auto simp: names_family_def\<close>)
  then show ?thesis using a(1,3) by simp
qed

lemma networkProto_eq:
  "networkProto network =
     (if network = ''udp4'' then (AF_INET, 1) else if network = ''udp6'' then (AF_INET6, 58)
      else (0, if names_family ''ip4'' network then 1 else if names_family ''ip6'' network then 58 else 0))"
proof -
  have "CHR '':'' \<notin> set ''ip4''" "CHR '':'' \<notin> set ''ip6''" by simp_all
  note p = this [THEN prefix_names_family, of network]
  show ?thesis unfolding networkProto_def Let_def p protocols by (rule refl)
qed

text \<open>
  C27. The network name decides the protocol: an endpoint from a successful \<open>ListenPacket\<close> has an IPv4 side
  exactly for \<open>udp4\<close>, \<open>ip4\<close> and \<open>ip4:\<close> with a protocol, an IPv6 side exactly for \<open>udp6\<close>, \<open>ip6\<close> and \<open>ip6:\<close>
  with a protocol, never both, and a raw endpoint is opened by package \<open>net\<close> under the name it was given.
\<close>

theorem listen_selects_protocol:
  assumes "ListenPacket os env network address fds = (Inr p, fds')"
  shows "((IPv4PacketConn (Some p) \<noteq> None) = (network = ''udp4'' \<or> names_family ''ip4'' network)) \<and>
    ((IPv6PacketConn (Some p) \<noteq> None) = (network = ''udp6'' \<or> names_family ''ip6'' network)) \<and>
    (network \<notin> {''udp4'', ''udp6''} \<longrightarrow> (\<exists>c. pc_c p = Some c \<and> se_ListenPacket env network address = Inr c))"
proof -
  obtain family proto where n: "networkProto network = (family, proto)" by fastforce
  have f: "(family = AF_INET \<or> family = AF_INET6) = (network \<in> {''udp4'', ''udp6''})"
    using n by (auto simp: networkProto_eq AF_INET_def AF_INET6_def split: if_splits)
  have nn: "\<not> names_family ''ip4'' ''udp4''" "\<not> names_family ''ip4'' ''udp6''" "\<not> names_family ''ip6'' ''udp4''" "\<not> names_family ''ip6'' ''udp6''"
    "\<not> (names_family ''ip4'' x \<and> names_family ''ip6'' x)" for x by (auto simp: names_family_def)
  have pr: "proto = (if network = ''udp4'' \<or> names_family ''ip4'' network then 1 else if network = ''udp6'' \<or> names_family ''ip6'' network then 58 else 0)"
    using n nn by (auto simp: networkProto_eq split: if_splits)
  obtain c where p: "p = (if proto = 1 then \<lparr>pc_c = Some c, pc_p4 = Some c, pc_p6 = None\<rparr>
      else if proto = 58 then \<lparr>pc_c = Some c, pc_p4 = None, pc_p6 = Some c\<rparr> else \<lparr>pc_c = Some c, pc_p4 = None, pc_p6 = None\<rparr>)"
    "network \<notin> {''udp4'', ''udp6''} \<Longrightarrow> se_ListenPacket env network address = Inr c"
    using assms n f by (auto simp: ListenPacket_def protocols split: prod.splits sum.splits if_splits)
  have "IPv4PacketConn (Some p) \<noteq> None \<longleftrightarrow> network = ''udp4'' \<or> names_family ''ip4'' network"
    "IPv6PacketConn (Some p) \<noteq> None \<longleftrightarrow> network = ''udp6'' \<or> names_family ''ip6'' network"
    using p(1) pr nn by (auto simp: IPv4PacketConn_def IPv6PacketConn_def)
  moreover have "pc_c p = Some c" using p(1) by simp
  ultimately show ?thesis using p(2) by blast
qed

theorem listen_selects_protocol_witness:
  "ListenPacket OtherOS sample_env ''ip4:icmp'' ''me'' [0, 2, 3] = (Inr \<lparr>pc_c = Some 9, pc_p4 = Some 9, pc_p6 = None\<rparr>, [9, 0, 2, 3]) \<and>
   names_family ''ip4'' ''ip4:icmp''"
proof -
  have r: "ListenPacket OtherOS sample_env ''ip4:icmp'' ''me'' [0, 2, 3] = (Inr \<lparr>pc_c = Some 9, pc_p4 = Some 9, pc_p6 = None\<rparr>, [9, 0, 2, 3])"
    by code_simp
  from listen_selects_protocol [OF r] have "names_family ''ip4'' ''ip4:icmp''" by (simp add: IPv4PacketConn_def)
  with r show ?thesis by simp
qed

lemma To16_cases: "To16 ip = Some x \<Longrightarrow> length x = 16"
  by (auto simp: To16_def v4InV6Prefix_def split: if_splits)

lemma To4_cases: "To4 ip = Some x \<Longrightarrow> length x = 4"
  by (auto simp: To4_def split: if_splits)

text \<open>
  C28. The address passed to \<open>bind\<close> fits the family of the socket: \<open>sockaddr\<close> yields four bytes for IPv4, and for
  IPv6 sixteen bytes that are not an IPv4 address in disguise; it never yields an address for another
  family, and an address without bytes stands for the unspecified address of the family.
\<close>

theorem sockaddr_matches_family:
  assumes "sockaddr env family address = Inr sa"
  shows "(family = AF_INET \<and> (\<exists>ip. sa = SockaddrInet4 ip \<and> length ip = 4 \<and>
        (\<exists>a. se_ResolveIPAddr env ''ip4'' address = Inr a \<and> ip = (if ip_IP a = [] then [0, 0, 0, 0] else the (To4 (ip_IP a))))))
    \<or> (family = AF_INET6 \<and> (\<exists>z ip. sa = SockaddrInet6 z ip \<and> length ip = 16 \<and> To4 ip = None \<and>
        (\<exists>a. se_ResolveIPAddr env ''ip6'' address = Inr a \<and> z = zoneToUint32 env (ip_Zone a) \<and>
          ip \<in> {replicate 16 0, ip_IP a})))"
proof (cases "family = AF_INET")
  case True
  have z: "To4 IPv4zero = Some [0, 0, 0, 0]" by (simp add: To4_def IPv4zero_def v4InV6Prefix_def)
  show ?thesis
    using assms True To4_cases
    by (fastforce simp: sockaddr_def go_copy_def z split: sum.splits option.splits if_splits)
next
  case False
  then have "family = AF_INET6" using assms by (simp add: sockaddr_def split: if_splits)
  moreover have "x = ip" if "To16 ip = Some x" "To4 x = None" for ip x
    using that by (auto simp: To16_def To4_def v4InV6Prefix_def split: if_splits)
  ultimately show ?thesis
    using assms False To16_cases
    by (fastforce simp: sockaddr_def go_copy_def Let_def IPv6unspecified_def split: sum.splits option.splits if_splits)
qed

theorem sockaddr_matches_family_witness:
  "\<exists>ip. sockaddr sample_env AF_INET ''other'' = Inr (SockaddrInet4 ip) \<and> ip = [0, 0, 0, 0]"
proof -
  have r: "sockaddr sample_env AF_INET ''other'' = Inr (SockaddrInet4 [0, 0, 0, 0])" by code_simp
  show ?thesis using sockaddr_matches_family [OF r] r by (auto simp: AF_INET_def AF_INET6_def)
qed

end
