(* ===== verification/Icmp_Pinger.thy ===== *)
theory Icmp_Pinger
  imports Icmp_Listen
begin

text \<open>
  The ICMP timestamp pinger (\<open>icmp-timestap-pinger/main.go\<close>): it opens a raw endpoint, sends one timestamp
  request and reports forward and return latency from the reply. The clock readings, the process id
  and the outcome of every call on the network are arguments; the endpoint and the codec are those of
  package \<open>icmp\<close>. The state is the list of open descriptors.
\<close>

record ping_env =
  pe_GOOS :: goos
  pe_sys :: sysenv
  pe_ops :: connops
  pe_Getpid :: int
  pe_now :: Time
  pe_start :: Time
  pe_deadline :: Time
  pe_end :: Time

datatype ping_error =
    PListen net_error | PResolve string | PMarshal icmp_error | PWrite conn_error | PShortWrite nat nat
  | PDeadline conn_error | PRead conn_error | PParse icmp_error | PUnexpected Message

fun wrap_error :: "('a \<Rightarrow> 'b) \<Rightarrow> ('a, 'c) go \<Rightarrow> ('b, 'c) go" where
  "wrap_error f (Inl (Error e)) = Inl (Error (f e))"
| "wrap_error f (Inl (Panic p)) = Inl (Panic p)"
| "wrap_error f (Inr x) = Inr x"

text \<open>\<open>time.Date\<close> with the year, month and day of a UTC time: days start at multiples of 24 hours.\<close>

definition midnight :: "Time \<Rightarrow> Time" where
  "midnight t = t - t mod (24 * Hour)"

definition pingMessage :: "ping_env \<Rightarrow> int \<Rightarrow> Message" where
  "pingMessage env seq =
     \<lparr>m_Type = v4Timestamp, m_Code = 0, m_Checksum = 0,
      m_Body = Some (BTimestamp \<lparr>ts_ID = pe_Getpid env AND 0xffff, ts_Seq = seq,
        ts_Originate = go_quot (time_Sub (pe_now env) (midnight (pe_now env))) 1000000, ts_Receive = 0, ts_Transmit = 0\<rparr>)\<rparr>"

definition pingReply :: "Duration \<Rightarrow> Message \<Rightarrow> (ping_error, Duration \<times> Timestamp option) go" where
  "pingReply duration rm =
     (if m_Type rm = v4EchoReply then Inr (duration, None)
      else if m_Type rm = v4TimestampReply then
        (case m_Body rm of Some (BTimestamp ts) \<Rightarrow> Inr (duration, Some ts) | _ \<Rightarrow> Inl (Panic TypeAssertion))
      else Inl (Error (PUnexpected rm)))"

definition pingOver :: "ping_env \<Rightarrow> PacketConn option \<Rightarrow> string \<Rightarrow> int \<Rightarrow> net_IPAddr option \<times> (ping_error, Duration \<times> Timestamp option) go" where
  "pingOver env c addr seq =
     (case se_ResolveIPAddr (pe_sys env) ''ip4'' addr of
        Inl e \<Rightarrow> (None, Inl (Error (PResolve e)))
      | Inr dst \<Rightarrow> (Some dst,
          bind_go (wrap_error PMarshal (msg_Marshal (pingMessage env seq) None)) (\<lambda>b.
          case pc_WriteTo (pe_ops env) c b (ip_IP dst) of
            Inl e \<Rightarrow> Inl (Error (PWrite e))
          | Inr n \<Rightarrow>
              if n \<noteq> length b then Inl (Error (PShortWrite n (length b)))
              else case pc_SetReadDeadline (pe_ops env) c (time_Add (pe_deadline env) (10 * Second)) of
                Some e \<Rightarrow> Inl (Error (PDeadline e))
              | None \<Rightarrow>
                  (case pc_ReadFrom (pe_GOOS env) (pe_ops env) c 1500 of
                     Inl e \<Rightarrow> Inl (Error (PRead e))
                   | Inr (data, peer) \<Rightarrow>
                       bind_go (slice (go_copy (replicate 1500 0) data) 0 (length data)) (\<lambda>r.
                       bind_go (wrap_error PParse (ParseMessage 1 r)) (\<lambda>rm.
                         pingReply (time_Since (pe_end env) (pe_start env)) rm))))))"

definition Ping :: "ping_env \<Rightarrow> string \<Rightarrow> int \<Rightarrow> nat list \<Rightarrow> (net_IPAddr option \<times> (ping_error, Duration \<times> Timestamp option) go) \<times> nat list" where
  "Ping env addr seq fds =
     (case ListenPacket (pe_GOOS env) (pe_sys env) ''ip4:icmp'' ''0.0.0.0'' fds of
        (Inl e, fds) \<Rightarrow> ((None, Inl (Error (PListen e))), fds)
      | (Inr c, fds) \<Rightarrow> (pingOver env (Some c) addr seq, snd (pc_Close (pe_ops env) (Some c) fds)))"

datatype report = LogError ping_error | Latency int int int

definition Milliseconds :: "Duration \<Rightarrow> int" where
  "Milliseconds d = go_quot d 1000000"

text \<open>The closure \<open>p\<close> of \<open>main\<close> and the loop over the hosts; a panic ends the program.\<close>

definition pingHost :: "ping_env \<Rightarrow> string \<Rightarrow> nat list \<Rightarrow> (ping_error, report) go \<times> nat list" where
  "pingHost env addr fds =
     (let ((dst, r), fds) = Ping env addr 1 fds in
      (case r of
         Inl (Panic q) \<Rightarrow> Inl (Panic q)
       | Inl (Error e) \<Rightarrow> Inr (LogError e)
       | Inr (dur, None) \<Rightarrow> Inl (Panic NilDereference)
       | Inr (dur, Some ts) \<Rightarrow>
           Inr (Latency (ts_Transmit ts - ts_Originate ts) (Milliseconds dur - (ts_Transmit ts - ts_Originate ts)) (Milliseconds dur)), fds))"

text \<open>
  \<open>env k\<close> is what the network and the clock do while the host with number \<open>k\<close> is pinged, so the same host
  can answer differently when it is listed twice. The result lists the reports that were printed, also when a panic then
  ends the loop.
\<close>

fun pingHosts :: "(nat \<Rightarrow> ping_env) \<Rightarrow> nat \<Rightarrow> string list \<Rightarrow> nat list \<Rightarrow> report list \<times> ping_error fault option \<times> nat list" where
  "pingHosts env k [] fds = ([], None, fds)"
| "pingHosts env k (v # vs) fds =
     (case pingHost (env k) v fds of
        (Inl e, fds) \<Rightarrow> ([], Some e, fds)
      | (Inr r, fds) \<Rightarrow> (let (rs, e, fds) = pingHosts env (Suc k) vs fds in (r # rs, e, fds)))"

text \<open>\<open>main\<close>: without a host the usage text is printed and the process exits with status 1.\<close>

datatype pinger_outcome = UsageExit int | Pinged "report list" "ping_error fault option"

definition pinger_main :: "(nat \<Rightarrow> ping_env) \<Rightarrow> string list \<Rightarrow> nat list \<Rightarrow> pinger_outcome \<times> nat list" where
  "pinger_main env hosts fds =
     (if length hosts = 0 then (UsageExit 1, fds)
      else let (rs, e, fds) = pingHosts env 0 hosts fds in (Pinged rs e, fds))"

section \<open>The request\<close>

lemma go_quot_nonneg: "0 \<le> a \<Longrightarrow> 0 < b \<Longrightarrow> go_quot a b = a div b"
  by (cases "a = 0") (simp_all add: go_quot_def signed_divide_int_def)

lemma midnight_ms:
  "0 \<le> go_quot (time_Sub t (midnight t)) 1000000 \<and> go_quot (time_Sub t (midnight t)) 1000000 < 86400000"
proof -
  have b: "0 \<le> t mod (24 * Hour)" "t mod (24 * Hour) < 24 * Hour" by (simp_all add: time_simps)
  have "time_Sub t (midnight t) = t mod (24 * Hour)" using b by (simp add: midnight_def time_simps)
  moreover have "0 \<le> x div 1000000 \<and> x div 1000000 < 86400000" if "0 \<le> x" "x < 24 * Hour" for x :: int
    using that by (auto simp: time_simps)
  ultimately show ?thesis using b by (simp add: go_quot_nonneg)
qed

lemma pid_16bit: "0 \<le> p AND 0xffff \<and> p AND 0xffff < (65536 :: int)"
proof -
  have "p AND 0xffff = take_bit 16 p" by (simp add: take_bit_eq_mask mask_eq_exp_minus_1)
  then show ?thesis by (simp add: take_bit_eq_mod)
qed

lemma timestamp_wire:
  assumes "timestamp_ok ts" and "typ \<in> {v4Timestamp, v4TimestampReply}" and "0 \<le> code" and "code < 256"
  obtains b c where "msg_Marshal \<lparr>m_Type = typ, m_Code = code, m_Checksum = cs, m_Body = Some (BTimestamp ts)\<rparr> None = Inr b"
    "length b = 20" "ParseMessage 1 b = Inr \<lparr>m_Type = typ, m_Code = code, m_Checksum = c, m_Body = Some (BTimestamp ts)\<rparr>"
proof -
  let ?m = "\<lparr>m_Type = typ, m_Code = code, m_Checksum = cs, m_Body = Some (BTimestamp ts)\<rparr>"
  obtain mb where mb: "timestamp_Marshal 1 ts = Inr mb" "length mb = 16" "parseTimestamp 1 typ mb = Inr ts"
    using timestamp.encoded [OF assms(1), of 1 "typ"] unfolding timestamp_Len_def by auto
  have p: "typeProtocol typ = 1" "typ \<noteq> OtherType" "0 \<le> type_value typ" "type_value typ < 256" using assms(2) by (auto simp: protocols)
  have bb: "body_bytes (typeProtocol (m_Type ?m)) (m_Body ?m) = Inr mb" using mb by (simp add: body_bytes_def p timestamp_Len_def)
  have pb: "parseBody (m_Type ?m) mb = Inr (BTimestamp ts)" using assms(2) mb(3) by (auto simp: parsed_def)
  have ok: "psh_ok ?m None" using assms(2) by (auto simp: psh_ok_def)
  note img = msg_Marshal_image [OF ok bb]
  have "length (withChecksum (msg_header ?m) (msg_checksum ?m None mb) mb) = 20" using mb(2) by (simp add: withChecksum_def msg_header_def)
  then show thesis using that [OF img] ParseMessage_image [of ?m, OF _ _ _ _ _ pb] p assms(3,4) by simp
qed

lemma ping_request_ok:
  "0 \<le> seq \<Longrightarrow> seq < 65536 \<Longrightarrow> timestamp_ok \<lparr>ts_ID = pe_Getpid env AND 0xffff, ts_Seq = seq,
        ts_Originate = go_quot (time_Sub (pe_now env) (midnight (pe_now env))) 1000000, ts_Receive = 0, ts_Transmit = 0\<rparr>"
  using midnight_ms [of "pe_now env"] pid_16bit [of "pe_Getpid env"] by (simp add: timestamp_ok_def)

text \<open>
  What the pinger sends is a timestamp request: for a sequence number of 16 bits the message is
  marshalled into 20 bytes, and the host that parses them reads the low 16 bits of the process id, the
  sequence number, and as originate time the milliseconds since midnight UTC, less than 86400000.
\<close>

theorem ping_request_wire:
  assumes "0 \<le> seq" and "seq < 65536"
  shows "\<exists>b c ms. msg_Marshal (pingMessage env seq) None = Inr b \<and> length b = 20 \<and> 0 \<le> ms \<and> ms < 86400000 \<and>
    ms = (pe_now env - midnight (pe_now env)) div 1000000 \<and>
    ParseMessage 1 b = Inr \<lparr>m_Type = v4Timestamp, m_Code = 0, m_Checksum = c,
      m_Body = Some (BTimestamp \<lparr>ts_ID = pe_Getpid env mod 65536, ts_Seq = seq, ts_Originate = ms, ts_Receive = 0, ts_Transmit = 0\<rparr>)\<rparr>"
proof -
  let ?t = "pe_now env"
  have b: "0 \<le> ?t mod (24 * Hour)" "?t mod (24 * Hour) < 24 * Hour" by (simp_all add: time_simps)
  then have "go_quot (time_Sub ?t (midnight ?t)) 1000000 = (?t - midnight ?t) div 1000000"
    using time_Sub_exact [of ?t "midnight ?t"] by (simp add: midnight_def go_quot_nonneg time_simps)
  moreover have "pe_Getpid env AND 0xffff = pe_Getpid env mod 65536"
    using take_bit_eq_mask [of 16 "pe_Getpid env"] by (simp add: mask_eq_exp_minus_1 take_bit_eq_mod)
  ultimately show ?thesis
    using midnight_ms [of ?t] timestamp_wire [OF ping_request_ok [OF assms, of env], of v4Timestamp 0 0]
    unfolding pingMessage_def by (metis insertI1 order_refl zero_less_numeral)
qed

definition sample_ops :: connops where
  "sample_ops = \<lparr>co_ReadFrom = (\<lambda>c n. Inl ''timeout''), co_ReadFrom4 = (\<lambda>c n. Inl ''timeout''), co_WriteTo = (\<lambda>c b d. Inr (length b)),
     co_Close = (\<lambda>c. None), co_LocalAddr = (\<lambda>c. []), co_SetDeadline = (\<lambda>c t. None), co_SetReadDeadline = (\<lambda>c t. None), co_SetWriteDeadline = (\<lambda>c t. None)\<rparr>"

definition sample_ping :: "bytes \<Rightarrow> ping_env" where
  "sample_ping reply = \<lparr>pe_GOOS = OtherOS, pe_sys = sample_env, pe_ops = sample_ops\<lparr>co_ReadFrom := \<lambda>c n. Inr (reply, [10, 0, 0, 1])\<rparr>,
     pe_Getpid = 70000, pe_now = 3661000000000, pe_start = 0, pe_deadline = 0, pe_end = 30000000\<rparr>"

theorem ping_request_wire_witness:
  "\<exists>b c. msg_Marshal (pingMessage (sample_ping []) 1) None = Inr b \<and>
    ParseMessage 1 b = Inr \<lparr>m_Type = v4Timestamp, m_Code = 0, m_Checksum = c,
      m_Body = Some (BTimestamp \<lparr>ts_ID = 4464, ts_Seq = 1, ts_Originate = 3661000, ts_Receive = 0, ts_Transmit = 0\<rparr>)\<rparr>"
  using ping_request_wire [of 1 "sample_ping []"] by (auto simp: sample_ping_def midnight_def time_simps)

section \<open>The exchange\<close>

text \<open>An environment in which the endpoint opens, the host resolves, and the request is sent in full.\<close>

definition sends :: "ping_env \<Rightarrow> string \<Rightarrow> PacketConn \<Rightarrow> nat list \<Rightarrow> nat list \<Rightarrow> bool" where
  "sends env addr c fds fds' \<longleftrightarrow>
     ListenPacket (pe_GOOS env) (pe_sys env) ''ip4:icmp'' ''0.0.0.0'' fds = (Inr c, fds') \<and>
     (\<exists>dst. se_ResolveIPAddr (pe_sys env) ''ip4'' addr = Inr dst \<and>
        (\<forall>b. pc_WriteTo (pe_ops env) (Some c) b (ip_IP dst) = Inr (length b))) \<and>
     pc_SetReadDeadline (pe_ops env) (Some c) (time_Add (pe_deadline env) (10 * Second)) = None"

lemma pingOver_reply:
  assumes "sends env addr c fds fds'" and "pc_ReadFrom (pe_GOOS env) (pe_ops env) (Some c) 1500 = Inr (data, peer)"
    and "length data \<le> 1500" and "0 \<le> seq" and "seq < 65536"
  shows "snd (pingOver env (Some c) addr seq) =
    bind_go (wrap_error PParse (ParseMessage 1 data)) (pingReply (time_Since (pe_end env) (pe_start env)))"
proof -
  obtain b where "msg_Marshal (pingMessage env seq) None = Inr b"
    unfolding pingMessage_def by (rule timestamp_wire [OF ping_request_ok [OF assms(4,5), of env], of v4Timestamp 0 0]) auto
  moreover have "take (length data) (go_copy (replicate 1500 0) data) = data" using assms(3) by (simp add: go_copy_def)
  ultimately show ?thesis using assms(1-3) by (auto simp: pingOver_def sends_def)
qed

lemma ping_exchange_run:
  assumes "fresh_descriptors (pe_sys env) fds" and "sends env addr c fds fds'" and "timestamp_ok ts"
    and "msg_Marshal \<lparr>m_Type = v4TimestampReply, m_Code = 0, m_Checksum = 0, m_Body = Some (BTimestamp ts)\<rparr> None = Inr data"
    and "pc_ReadFrom (pe_GOOS env) (pe_ops env) (Some c) 1500 = Inr (data, peer)"
  shows "length data = 20 \<and> pingHost env addr fds =
    (let forward = ts_Transmit ts - ts_Originate ts; rtt = Milliseconds (time_Since (pe_end env) (pe_start env))
     in (Inr (Latency forward (rtt - forward) rtt), fds))"
proof -
  let ?d = "time_Since (pe_end env) (pe_start env)"
  obtain k where d: "length data = 20" "ParseMessage 1 data =
      Inr \<lparr>m_Type = v4TimestampReply, m_Code = 0, m_Checksum = k, m_Body = Some (BTimestamp ts)\<rparr>"
    using timestamp_wire [OF assms(3), of v4TimestampReply 0 0] assms(4) by auto
  then have "snd (pingOver env (Some c) addr 1) = Inr (?d, Some ts)"
    using pingOver_reply [OF assms(2,5), of 1] by (simp add: pingReply_def)
  moreover have "ListenPacket (pe_GOOS env) (pe_sys env) ''ip4:icmp'' ''0.0.0.0'' fds = (Inr c, fds')" using assms(2) by (simp add: sends_def)
  ultimately show ?thesis
    using d(1) endpoint.acquire_release [OF assms(1), where ops = "pe_ops env"]
      by (cases "pingOver env (Some c) addr 1") (simp add: pingHost_def Ping_def Let_def)
qed

text \<open>
  C30. A successful exchange is reported: if the request is sent and the datagram read is a timestamp reply,
  marshalled from any time stamps of 32 bits, the pinger reports as forward latency the difference of
  the reply's transmit and originate times, as return latency the rest of the round trip, and closes
  its endpoint.
\<close>

theorem ping_exchange_reported:
  assumes "fresh_descriptors (pe_sys env) fds" and "sends env addr c fds fds'" and "timestamp_ok ts"
    and "msg_Marshal \<lparr>m_Type = v4TimestampReply, m_Code = 0, m_Checksum = 0, m_Body = Some (BTimestamp ts)\<rparr> None = Inr data"
    and "pc_ReadFrom (pe_GOOS env) (pe_ops env) (Some c) 1500 = Inr (data, peer)"
  shows "pingHost env addr fds =
    (let forward = ts_Transmit ts - ts_Originate ts; rtt = Milliseconds (time_Since (pe_end env) (pe_start env))
     in (Inr (Latency forward (rtt - forward) rtt), fds))"
  using ping_exchange_run [OF assms] by (rule conjunct2)

lemma Ping_no_leak: "fresh_descriptors (pe_sys env) fds \<Longrightarrow> snd (Ping env addr seq fds) = fds"
  using endpoint.balanced [where env = "pe_sys env" and s = fds and os = "pe_GOOS env" and network = "''ip4:icmp''" and address = "''0.0.0.0''" and ops = "pe_ops env"]
  by (auto simp: Ping_def split: prod.splits sum.splits)

lemma no_panic_wrap [simp]: "no_panic (wrap_error f r) \<longleftrightarrow> no_panic r"
  by (cases r rule: no_panic.cases) auto

lemma ParseMessage_no_panic: "no_panic (ParseMessage 1 b)"
proof (cases "length b < 4")
  case False
  let ?t = "IPv4Type (uint (b ! 0))"
  have "no_panic (parseBody ?t (drop 4 b))" using accepts_body [of ?t "drop 4 b"] by (auto simp: accepts_def split: if_splits)
  then show ?thesis using False ParseMessage_unfold [of b ?t 1] by auto
qed (simp add: ParseMessage_def)

lemma ParseMessage_timestampReply:
  assumes "ParseMessage 1 b = Inr rm" and "m_Type rm = v4TimestampReply"
  shows "\<exists>ts. m_Body rm = Some (BTimestamp ts)"
proof -
  have "\<not> length b < 4" using assms(1) by (auto simp: ParseMessage_def)
  then show ?thesis using assms ParseMessage_unfold [of b "IPv4Type (uint (b ! 0))" 1] by (auto simp: bind_go_Inr_iff parsed_def)
qed

lemma pingReply_no_panic:
  "ParseMessage 1 b = Inr rm \<Longrightarrow> no_panic (pingReply d rm)"
  using ParseMessage_timestampReply [of b rm] by (auto simp: pingReply_def)

lemma pingOver_no_panic:
  assumes "\<And>data peer. pc_ReadFrom (pe_GOOS env) (pe_ops env) c 1500 = Inr (data, peer) \<Longrightarrow> length data \<le> 1500"
    and "0 \<le> seq" and "seq < 65536"
  shows "no_panic (snd (pingOver env c addr seq))"
proof -
  obtain b where b: "msg_Marshal (pingMessage env seq) None = Inr b"
    unfolding pingMessage_def by (rule timestamp_wire [OF ping_request_ok [OF assms(2,3), of env], of v4Timestamp 0 0]) auto
  have parse: "no_panic (bind_go (wrap_error PParse (ParseMessage 1 r)) (pingReply d))" for r d
    using ParseMessage_no_panic [of r] pingReply_no_panic [of r] by (cases "ParseMessage 1 r" rule: no_panic.cases) auto
  show ?thesis
    using assms(1) b parse by (auto simp: pingOver_def split: sum.splits option.splits prod.splits)
qed

text \<open>A read returns no more than the buffer of 1500 bytes holds.\<close>

definition reads_bounded :: "ping_env \<Rightarrow> bool" where
  "reads_bounded env \<longleftrightarrow>
     (\<forall>c data peer. pc_ReadFrom (pe_GOOS env) (pe_ops env) c 1500 = Inr (data, peer) \<longrightarrow> length data \<le> 1500)"

lemma Ping_no_panic:
  assumes "reads_bounded env" and "0 \<le> seq" and "seq < 65536"
  shows "no_panic (snd (fst (Ping env addr seq fds)))"
proof -
  have "no_panic (snd (pingOver env c addr seq))" for c
    using assms by (intro pingOver_no_panic) (auto simp: reads_bounded_def)
  then show ?thesis by (auto simp: Ping_def split: prod.splits sum.splits)
qed

text \<open>
  C29. \<open>Ping\<close> is safe: as long as the kernel hands out fresh descriptors and a read returns no more bytes than
  the buffer holds, \<open>Ping\<close> does not panic whatever the network delivers (any bytes, any failure), in
  particular its type assertion on the body of a timestamp reply holds, and it leaves no descriptor open.
\<close>

theorem Ping_safe:
  assumes "fresh_descriptors (pe_sys env) fds"
    and "\<And>c data peer. pc_ReadFrom (pe_GOOS env) (pe_ops env) c 1500 = Inr (data, peer) \<Longrightarrow> length data \<le> 1500"
    and "0 \<le> seq" and "seq < 65536"
  shows "no_panic (snd (fst (Ping env addr seq fds))) \<and> snd (Ping env addr seq fds) = fds"
proof -
  have "reads_bounded env" using assms(2) by (simp add: reads_bounded_def)
  then show ?thesis using Ping_no_panic [OF _ assms(3,4)] Ping_no_leak [OF assms(1)] by blast
qed

lemma sample_read: "pc_ReadFrom (pe_GOOS (sample_ping r)) (pe_ops (sample_ping r)) c 1500 = Inr (data, peer) \<Longrightarrow> data = r"
  by (auto simp: pc_ReadFrom_def sample_ping_def lift_conn_def split: option.splits)

theorem Ping_safe_witness:
  "no_panic (snd (fst (Ping (sample_ping [14, 0, 0, 0, 1]) ''me'' 1 [0, 2, 3]))) \<and> snd (Ping (sample_ping [14, 0, 0, 0, 1]) ''me'' 1 [0, 2, 3]) = [0, 2, 3]"
proof (rule Ping_safe)
  show "fresh_descriptors (pe_sys (sample_ping [14, 0, 0, 0, 1])) [0, 2, 3]" using sample_env_fresh by (simp add: sample_ping_def)
  show "length data \<le> 1500" if "pc_ReadFrom (pe_GOOS (sample_ping [14, 0, 0, 0, 1])) (pe_ops (sample_ping [14, 0, 0, 0, 1])) c 1500 = Inr (data, peer)"
    for c data peer using sample_read [OF that] by simp
qed simp_all

text \<open>
  An echo reply crashes the pinger: it is accepted by \<open>Ping\<close> without a time stamp, and the report then
  dereferences the missing time stamp.
\<close>

theorem echo_reply_panics:
  assumes "fresh_descriptors (pe_sys env) fds" and "sends env addr c fds fds'"
    and "pc_ReadFrom (pe_GOOS env) (pe_ops env) (Some c) 1500 = Inr (data, peer)" and "length data \<le> 1500"
    and "ParseMessage 1 data = Inr rm" and "m_Type rm = v4EchoReply"
  shows "pingHost env addr fds = (Inl (Panic NilDereference), fds)"
proof -
  have "snd (pingOver env (Some c) addr 1) = Inr (time_Since (pe_end env) (pe_start env), None)"
    using pingOver_reply [OF assms(2,3,4), of 1] assms(5,6) by (simp add: pingReply_def)
  moreover have l: "ListenPacket (pe_GOOS env) (pe_sys env) ''ip4:icmp'' ''0.0.0.0'' fds = (Inr c, fds')" using assms(2) by (simp add: sends_def)
  ultimately show ?thesis
    using endpoint.acquire_release [OF assms(1) l, where ops = "pe_ops env"]
    by (cases "pingOver env (Some c) addr 1") (simp add: pingHost_def Ping_def Let_def)
qed

lemma sample_sends:
  "sends (sample_ping r) ''me'' \<lparr>pc_c = Some 9, pc_p4 = Some 9, pc_p6 = None\<rparr> [0, 2, 3] [9, 0, 2, 3]"
proof -
  have "ListenPacket OtherOS sample_env ''ip4:icmp'' ''0.0.0.0'' [0, 2, 3] = (Inr \<lparr>pc_c = Some 9, pc_p4 = Some 9, pc_p6 = None\<rparr>, [9, 0, 2, 3])"
    by code_simp
  then show ?thesis
    by (simp add: sends_def sample_ping_def sample_env_def sample_ops_def pc_WriteTo_def pc_SetReadDeadline_def pc_ok_def lift_conn_def lift_err_def)
qed

lemma sample_reads:
  "pc_ReadFrom (pe_GOOS (sample_ping r)) (pe_ops (sample_ping r)) (Some \<lparr>pc_c = Some 9, pc_p4 = Some 9, pc_p6 = None\<rparr>) 1500 = Inr (r, [10, 0, 0, 1])"
  by (simp add: pc_ReadFrom_def sample_ping_def lift_conn_def)

theorem echo_reply_panics_witness:
  "pingHost (sample_ping [0, 0, 0, 0, 0, 1, 0, 2]) ''me'' [0, 2, 3] = (Inl (Panic NilDereference), [0, 2, 3])"
proof -
  have f: "fresh_descriptors (pe_sys (sample_ping r)) [0, 2, 3]" for r using sample_env_fresh by (simp add: sample_ping_def)
  have "ParseMessage 1 [0, 0, 0, 0, 0, 1, 0, 2] = Inr \<lparr>m_Type = v4EchoReply, m_Code = 0, m_Checksum = 0, m_Body = Some (BEcho \<lparr>ec_ID = 1, ec_Seq = 2, ec_Data = []\<rparr>)\<rparr>"
    by code_simp
  from echo_reply_panics [OF f sample_sends sample_reads _ this] show ?thesis by simp
qed

lemma sample_exchange:
  "\<exists>data. pingHost (sample_ping data) ''me'' [0, 2, 3] = (Inr (Latency 12 18 30), [0, 2, 3]) \<and> length data \<le> 1500"
proof -
  let ?ts = "\<lparr>ts_ID = 4464, ts_Seq = 1, ts_Originate = 3661000, ts_Receive = 3661012, ts_Transmit = 3661012\<rparr>"
  have f: "fresh_descriptors (pe_sys (sample_ping r)) [0, 2, 3]" for r using sample_env_fresh by (simp add: sample_ping_def)
  have ts: "timestamp_ok ?ts" by (simp add: timestamp_ok_def)
  obtain data where d: "msg_Marshal \<lparr>m_Type = v4TimestampReply, m_Code = 0, m_Checksum = 0, m_Body = Some (BTimestamp ?ts)\<rparr> None = Inr data"
    by (rule timestamp_wire [OF ts, of v4TimestampReply 0 0]) auto
  have "Milliseconds (time_Since (pe_end (sample_ping data)) (pe_start (sample_ping data))) = 30"
    by (simp add: Milliseconds_def sample_ping_def time_simps go_quot_nonneg)
  then show ?thesis
    using ping_exchange_run [OF f sample_sends ts d sample_reads] by (intro exI [of _ data]) (simp add: Let_def)
qed

theorem ping_exchange_reported_witness:
  "\<exists>data. pingHost (sample_ping data) ''me'' [0, 2, 3] = (Inr (Latency 12 18 30), [0, 2, 3])"
proof -
  let ?ts = "\<lparr>ts_ID = 4464, ts_Seq = 1, ts_Originate = 3661000, ts_Receive = 3661012, ts_Transmit = 3661012\<rparr>"
  have f: "fresh_descriptors (pe_sys (sample_ping r)) [0, 2, 3]" for r using sample_env_fresh by (simp add: sample_ping_def)
  have ts: "timestamp_ok ?ts" by (simp add: timestamp_ok_def)
  obtain data where d: "msg_Marshal \<lparr>m_Type = v4TimestampReply, m_Code = 0, m_Checksum = 0, m_Body = Some (BTimestamp ?ts)\<rparr> None = Inr data"
    by (rule timestamp_wire [OF ts, of v4TimestampReply 0 0]) auto
  have "Milliseconds (time_Since (pe_end (sample_ping data)) (pe_start (sample_ping data))) = 30"
    by (simp add: Milliseconds_def sample_ping_def time_simps go_quot_nonneg)
  then have "pingHost (sample_ping data) ''me'' [0, 2, 3] = (Inr (Latency 12 18 30), [0, 2, 3])"
    using ping_exchange_reported [OF f sample_sends ts d sample_reads] by (simp add: Let_def)
  then show ?thesis by blast
qed

text \<open>A host that answers without a time stamp: the case in which the report dereferences nil.\<close>

definition unstamped :: "ping_env \<Rightarrow> string \<Rightarrow> nat list \<Rightarrow> bool" where
  "unstamped env addr fds \<longleftrightarrow> (\<exists>d. snd (fst (Ping env addr 1 fds)) = Inr (d, None))"

lemma pingHost_cases:
  assumes "fresh_descriptors (pe_sys env) fds" and "reads_bounded env"
  shows "pingHost env addr fds = (if unstamped env addr fds then Inl (Panic NilDereference)
    else Inr (projr (fst (pingHost env addr fds))), fds)"
proof -
  obtain dst r where ping: "Ping env addr 1 fds = ((dst, r), fds)"
    using Ping_no_leak [OF assms(1), of addr 1] by (cases "Ping env addr 1 fds") auto
  moreover have "no_panic r"
    using Ping_no_panic [OF assms(2), where addr = addr and seq = 1 and fds = fds] ping by simp
  ultimately show ?thesis
    by (cases r rule: no_panic.cases) (auto simp: pingHost_def unstamped_def Let_def split: option.splits)
qed

lemma pingHosts_run:
  assumes "\<forall>(i, v) \<in> set (List.enumerate k hosts). fresh_descriptors (pe_sys (env i)) fds \<and> reads_bounded (env i)"
  shows "pingHosts env k hosts fds =
    (map (\<lambda>(i, v). projr (fst (pingHost (env i) v fds))) (takeWhile (\<lambda>(i, v). \<not> unstamped (env i) v fds) (List.enumerate k hosts)),
     if list_ex (\<lambda>(i, v). unstamped (env i) v fds) (List.enumerate k hosts) then Some (Panic NilDereference) else None, fds)"
  using assms
proof (induction hosts arbitrary: k)
  case (Cons v vs)
  have v: "pingHost (env k) v fds = (if unstamped (env k) v fds then Inl (Panic NilDereference)
      else Inr (projr (fst (pingHost (env k) v fds))), fds)"
    using Cons.prems by (intro pingHost_cases) auto
  show ?case
  proof (cases "unstamped (env k) v fds")
    case True
    then show ?thesis using v by simp
  next
    case False
    then obtain r where "pingHost (env k) v fds = (Inr r, fds)" using v by auto
    then show ?thesis using Cons False by simp
  qed
qed simp

text \<open>
  C31. A run of the pinger over its hosts prints, in the order of the hosts, the report each host gets
  alone, up to the first host that answers without a time stamp (with an echo reply); there, and
  only there, the program panics, and the hosts behind it are not pinged. In every case no descriptor is left open.
  Each position of the list has its own network and clock, so a host that is listed twice may answer differently.
\<close>

theorem pinger_main_run:
  assumes "hosts \<noteq> []"
    and "\<forall>(k, v) \<in> set (List.enumerate 0 hosts). fresh_descriptors (pe_sys (env k)) fds \<and> reads_bounded (env k)"
  shows "pinger_main env hosts fds =
    (Pinged (map (\<lambda>(k, v). projr (fst (pingHost (env k) v fds)))
              (takeWhile (\<lambda>(k, v). \<not> unstamped (env k) v fds) (List.enumerate 0 hosts)))
       (if list_ex (\<lambda>(k, v). unstamped (env k) v fds) (List.enumerate 0 hosts) then Some (Panic NilDereference) else None), fds)"
  using pingHosts_run [OF assms(2)] assms(1) by (simp add: pinger_main_def)

theorem pinger_main_run_witness:
  "\<exists>data. pinger_main (\<lambda>k. sample_ping (if k = 0 then data else [0, 0, 0, 0, 0, 1, 0, 2])) [''me'', ''me'', ''me''] [0, 2, 3] =
     (Pinged [Latency 12 18 30] (Some (Panic NilDereference)), [0, 2, 3])"
proof -
  let ?bad = "sample_ping [0, 0, 0, 0, 0, 1, 0, 2]"
  have f: "fresh_descriptors (pe_sys (sample_ping r)) [0, 2, 3]" for r using sample_env_fresh by (simp add: sample_ping_def)
  obtain data where good: "pingHost (sample_ping data) ''me'' [0, 2, 3] = (Inr (Latency 12 18 30), [0, 2, 3])" and len: "length data \<le> 1500"
    using sample_exchange by blast
  let ?env = "\<lambda>k :: nat. sample_ping (if k = 0 then data else [0, 0, 0, 0, 0, 1, 0, 2])"
  have r: "reads_bounded (?env k)" for k
    unfolding reads_bounded_def using len by (auto dest: sample_read split: if_splits)
  have "ParseMessage 1 [0, 0, 0, 0, 0, 1, 0, 2] = Inr \<lparr>m_Type = v4EchoReply, m_Code = 0, m_Checksum = 0, m_Body = Some (BEcho \<lparr>ec_ID = 1, ec_Seq = 2, ec_Data = []\<rparr>)\<rparr>"
    by code_simp
  from echo_reply_panics [OF f sample_sends sample_reads _ this]
  have bad: "unstamped ?bad ''me'' [0, 2, 3]" using pingHost_cases [OF f r [of 1], of "''me''"] by (auto split: if_splits)
  have "\<not> unstamped (?env 0) ''me'' [0, 2, 3]" using pingHost_cases [OF f r [of 0], of "''me''"] good by (auto split: if_splits)
  then show ?thesis
    using pinger_main_run [of "[''me'', ''me'', ''me'']" ?env "[0, 2, 3]"] f r bad good by (intro exI [of _ data]) simp
qed

end
