(* ===== verification/Icmp_Const.thy ===== *)
theory Icmp_Const
  imports Icmp_Base
begin

text \<open>
  The number tables of \<open>listen_posix.go\<close>: protocol numbers and address family numbers, by the name that
  follows \<open>Protocol\<close> or \<open>AddrFamily\<close> in the constant's name.
\<close>

definition Protocol :: "(string \<times> nat) list" where
  "Protocol =
    [(''IP'', 0), (''HOPOPT'', 0), (''ICMP'', 1), (''IGMP'', 2), (''GGP'', 3), (''IPv4'', 4), (''ST'', 5),
    (''TCP'', 6), (''CBT'', 7), (''EGP'', 8), (''IGP'', 9), (''BBNRCCMON'', 10), (''NVPII'', 11),
    (''PUP'', 12), (''EMCON'', 14), (''XNET'', 15), (''CHAOS'', 16), (''UDP'', 17), (''MUX'', 18),
    (''DCNMEAS'', 19), (''HMP'', 20), (''PRM'', 21), (''XNSIDP'', 22), (''TRUNK1'', 23), (''TRUNK2'', 24),
    (''LEAF1'', 25), (''LEAF2'', 26), (''RDP'', 27), (''IRTP'', 28), (''ISOTP4'', 29), (''NETBLT'', 30),
    (''MFENSP'', 31), (''MERITINP'', 32), (''DCCP'', 33), (''3PC'', 34), (''IDPR'', 35), (''XTP'', 36),
    (''DDP'', 37), (''IDPRCMTP'', 38), (''TPPP'', 39), (''IL'', 40), (''IPv6'', 41), (''SDRP'', 42),
    (''IPv6Route'', 43), (''IPv6Frag'', 44), (''IDRP'', 45), (''RSVP'', 46), (''GRE'', 47), (''DSR'', 48),
    (''BNA'', 49), (''ESP'', 50), (''AH'', 51), (''INLSP'', 52), (''NARP'', 54), (''MOBILE'', 55),
    (''TLSP'', 56), (''SKIP'', 57), (''IPv6ICMP'', 58), (''IPv6NoNxt'', 59), (''IPv6Opts'', 60),
    (''CFTP'', 62), (''SATEXPAK'', 64), (''KRYPTOLAN'', 65), (''RVD'', 66), (''IPPC'', 67), (''SATMON'', 69),
    (''VISA'', 70), (''IPCV'', 71), (''CPNX'', 72), (''CPHB'', 73), (''WSN'', 74), (''PVP'', 75),
    (''BRSATMON'', 76), (''SUNND'', 77), (''WBMON'', 78), (''WBEXPAK'', 79), (''ISOIP'', 80), (''VMTP'', 81),
    (''SECUREVMTP'', 82), (''VINES'', 83), (''TTP'', 84), (''IPTM'', 84), (''NSFNETIGP'', 85), (''DGP'', 86),
    (''TCF'', 87), (''EIGRP'', 88), (''OSPFIGP'', 89), (''SpriteRPC'', 90), (''LARP'', 91), (''MTP'', 92),
    (''AX25'', 93), (''IPIP'', 94), (''SCCSP'', 96), (''ETHERIP'', 97), (''ENCAP'', 98), (''GMTP'', 100),
    (''IFMP'', 101), (''PNNI'', 102), (''PIM'', 103), (''ARIS'', 104), (''SCPS'', 105), (''QNX'', 106),
    (''AN'', 107), (''IPComp'', 108), (''SNP'', 109), (''CompaqPeer'', 110), (''IPXinIP'', 111),
    (''VRRP'', 112), (''PGM'', 113), (''L2TP'', 115), (''DDX'', 116), (''IATP'', 117), (''STP'', 118),
    (''SRP'', 119), (''UTI'', 120), (''SMP'', 121), (''PTP'', 123), (''ISIS'', 124), (''FIRE'', 125),
    (''CRTP'', 126), (''CRUDP'', 127), (''SSCOPMCE'', 128), (''IPLT'', 129), (''SPS'', 130), (''PIPE'', 131),
    (''SCTP'', 132), (''FC'', 133), (''RSVPE2EIGNORE'', 134), (''MobilityHeader'', 135), (''UDPLite'', 136),
    (''MPLSinIP'', 137), (''MANET'', 138), (''HIP'', 139), (''Shim6'', 140), (''WESP'', 141),
    (''ROHC'', 142), (''Reserved'', 255)]"

definition AddrFamily :: "(string \<times> nat) list" where
  "AddrFamily =
    [(''IPv4'', 1), (''IPv6'', 2), (''NSAP'', 3), (''HDLC'', 4), (''BBN1822'', 5), (''802'', 6),
    (''E163'', 7), (''E164'', 8), (''F69'', 9), (''X121'', 10), (''IPX'', 11), (''Appletalk'', 12),
    (''DecnetIV'', 13), (''BanyanVines'', 14), (''E164withSubaddress'', 15), (''DNS'', 16),
    (''DistinguishedName'', 17), (''ASNumber'', 18), (''XTPoverIPv4'', 19), (''XTPoverIPv6'', 20),
    (''XTPnativemodeXTP'', 21), (''FibreChannelWorldWidePortName'', 22),
    (''FibreChannelWorldWideNodeName'', 23), (''GWID'', 24), (''L2VPN'', 25),
    (''MPLSTPSectionEndpointID'', 26), (''MPLSTPLSPEndpointID'', 27), (''MPLSTPPseudowireEndpointID'', 28),
    (''MTIPv4'', 29), (''MTIPv6'', 30), (''EIGRPCommonServiceFamily'', 16384),
    (''EIGRPIPv4ServiceFamily'', 16385), (''EIGRPIPv6ServiceFamily'', 16386),
    (''LISPCanonicalAddressFormat'', 16387), (''BGPLS'', 16388), (''48bitMAC'', 16389),
    (''64bitMAC'', 16390), (''OUI'', 16391), (''MACFinal24bits'', 16392), (''MACFinal40bits'', 16393),
    (''IPv6Initial64bits'', 16394), (''RBridgePortID'', 16395), (''TRILLNickname'', 16396)]"

text \<open>
  The tables are in ascending order. A protocol number fits the octet of an IP header; an address
  family fits 16 bits and has a single name.
\<close>

lemma protocol_numbers: "sorted (map snd Protocol)" "\<forall>x \<in> set Protocol. snd x < 256"
  by (simp_all add: Protocol_def sorted2_simps del: sorted_wrt.simps)

lemma address_families: "sorted_wrt (<) (map snd AddrFamily)" "\<forall>x \<in> set AddrFamily. snd x < 65536"
  by (simp_all add: AddrFamily_def sorted_wrt2_simps del: sorted_wrt.simps)

text \<open>The constants the package itself uses.\<close>

lemma used_constants:
  "map_of Protocol ''ICMP'' = Some (nat protocolICMP)" "map_of Protocol ''IPv6ICMP'' = Some (nat protocolIPv6ICMP)"
  "map_of AddrFamily ''IPv4'' = Some 1" "map_of AddrFamily ''IPv6'' = Some 2"
  by (simp_all add: Protocol_def AddrFamily_def protocolICMP_def protocolIPv6ICMP_def)

end
