(* ===== verification/Spec2Isabelle.thy ===== *)
theory Spec2Isabelle
  imports Sping_Split Sping_Overrun Sping_Table_Race Icmp_Pinger Icmp_Const
begin

text \<open>
  \<^bold>\<open>Verification of sping.\<close> sping is a split ping: two peers agree on a session over TCP, then send each
  other one UDP packet per second, on whole seconds of a clock that both correct against NTP. Each
  packet carries the table of the last 32 packets its sender has received, so that both ends know loss
  and latency of each direction. The repository also holds an ICMP library and a small program that
  measures one-way latency with ICMP timestamp messages.

  \<^bold>\<open>The language.\<close> \<open>Prelude\<close> models what is used of Go: machine words, slices with checked access, byte order,
  truncating division, time, and step relations with their invariants (the locale
  \<open>inductive_invariant\<close>). A function that may fail or panic returns a value of type \<open>go\<close>: \<open>Inr\<close> a
  result, \<open>Inl (Error e)\<close> a returned error, \<open>Inl (Panic p)\<close> a run-time panic.

  \<^bold>\<open>The ping program.\<close>
  \<^item> \<open>Sping_Time\<close> (\<open>ntp.go\<close>, \<open>timecorrection.go\<close>): polling the NTP servers, sorting and choosing among the results,
    the cached offset, the corrected clock and the sleep to the next whole second. The answers of the
    servers are arguments. Shown: the chosen offset withstands two wrong results of five, the results
    considered are the five with the smallest round trip, a tick ends on a whole second, and the
    corrected clock is at most a second ahead.
  \<^item> \<open>Sping_Session\<close> (\<open>main.go\<close>): sessions, the table of sessions and the ring of acknowledgements. Session pointers
    are addresses in a heap. Shown: the ring holds the last 32 packets.
  \<^item> \<open>Sping_Stats\<close> (\<open>main.go\<close>): \<open>getStats\<close> and \<open>getLoss\<close>. The endless loop of \<open>getLoss\<close> is a partial function that is
    proved to return. Shown: what exactly is counted as loss and reported as latency.
  \<^item> \<open>Sping_Packet\<close> (\<open>main.go\<close>): the receive path, \<open>handlePacket\<close> with all its early returns and
    \<open>handleInboundHandshake\<close>. The msgpack decoder and the rate limiter's verdict are arguments.
  \<^item> \<open>Sping_Handshake\<close> (\<open>sessionhandle.go\<close>, \<open>main.go\<close>): the TCP invitation on both sides, the UDP handshake and the
    sender. Shown: both ends agree on the session id, and a ping sent is recorded by the peer.
  \<^item> \<open>Sping_Tick\<close> (\<open>main.go\<close>): the session collector, the tickers, start-up and the goroutines \<open>main\<close> starts.
  \<^item> \<open>Sping_Pps\<close> (\<open>pps.go\<close>, \<open>pps_linux.go\<close>, \<open>pps_other.go\<close>): the pulse-per-second device and the loop it drives, with the
    outcome of each call on the device as an argument and the calls made as state. Shown: the device is
    opened and configured once.
  \<^item> \<open>Sping_Prom\<close> (\<open>prom.go\<close>): the metrics published, the routes of the HTTP server and its root page.
  \<^item> \<open>Sping_System\<close> (\<open>main.go\<close>, \<open>sessionhandle.go\<close>): the process as a step relation whose steps are single accesses to shared memory. Every
    packet has a goroutine (\<open>pkt_micro\<close> is one access of \<open>handlePacket\<close> or \<open>handleInboundHandshake\<close>), every session its handshake
    goroutine and sender (\<open>proc_micro\<close>, \<open>send_micro\<close>), a session that has been inserted waits for its \<open>go\<close> statement, the
    collector looks at one entry at a time, and a panic or fatal error of any of them ends the process.
  \<^item> \<open>Sping_Safety\<close>: the invariant of that relation, the three conditions under which a step panics, and the calm runs, in which
    none of them arises.
  \<^item> \<open>Sping_Undisturbed\<close>: the handlers that the other theories run in one step are exactly the uninterrupted runs of the process.
  \<^item> \<open>Sping_Notify\<close>: what becomes of a handshake notification, delivered or lost, and the handshake of two peers.
  \<^item> \<open>Sping_Overrun\<close>: runs of the process that reach each of the three panics, and with them the safety theorem.
  \<^item> \<open>Sping_Split\<close>: two peers. The whole sender loop with its wait, for any number of turns, and a receiver that handles
    what the network delivers. Shown: the loss one peer publishes for the direction it cannot see is
    the loss the other one measures; the loss computed is exactly the loss that happened; a clock that
    lags is counted as loss.
  \<^item> \<open>Sping_Ring_Race\<close> (\<open>getNextAckSlot\<close> and its use in \<open>handlePacket\<close>): the ring update as single memory accesses of concurrent
    handlers. Shown: when it stays inside the array, and the interleaving that leaves it.
  \<^item> \<open>Sping_Table_Race\<close> (\<open>sessionMap\<close> and \<open>sessionLock\<close> in \<open>main.go\<close>, \<open>sessionhandle.go\<close>, \<open>prom.go\<close>): the accesses of each kind of
    goroutine to the table and its lock, interleaved. The lock invariant gives that writes exclude each other and that
    there is no deadlock; the unlocked reads give exactly the conflicts that are listed. Without a collector and with different ids each
    handshake goroutine gets the session of its creator; with equal ids or a collector pass in between it may not.

  \<^bold>\<open>The ICMP library.\<close>
  \<^item> \<open>Icmp_Base\<close> (\<open>message.go\<close>): errors, message types and the checksum, proved equal to the one's-complement sum; the
    locale \<open>object_codec\<close> states what the encoder of extensions relies on for each kind of object.
  \<^item> \<open>Icmp_Mpls\<close>, \<open>Icmp_Interface\<close>, \<open>Icmp_Extension\<close>, \<open>Icmp_Multipart\<close> (\<open>mpls.go\<close>, \<open>interface.go\<close>, \<open>extension.go\<close>,
    \<open>multipart.go\<close>): extension objects and multi-part bodies; the interpretations of \<open>object_codec\<close> are the
    round trips of the objects.
  \<^item> \<open>Icmp_Body\<close> (\<open>echo.go\<close>, \<open>timestamp.go\<close>, \<open>dstunreach.go\<close>, \<open>timeexceeded.go\<close>, \<open>paramprob.go\<close>, \<open>packettoobig.go\<close>): the
    bodies; each interprets the locale \<open>body_codec\<close>, its round trip.
  \<^item> \<open>Icmp_Message\<close> (\<open>message.go\<close>, \<open>ipv4.go\<close>, \<open>ipv6.go\<close>): whole messages, IPv4 headers and the IPv6 pseudo header. Shown:
    marshalling and parsing are inverse, checksums verify, parsing never panics and when it fails.
    The limit of 131072 octets on checksummed data keeps the 32-bit accumulator from overflowing.
  \<^item> \<open>Icmp_Const\<close> (\<open>listen_posix.go\<close>): the tables of protocol and address family numbers.
  \<^item> \<open>Icmp_Listen\<close> (\<open>listen_posix.go\<close>, \<open>helper_posix.go\<close>, \<open>endpoint.go\<close>, \<open>listen_stub.go\<close>, \<open>sys_freebsd.go\<close>): opening and using an endpoint, with the list of
    open descriptors as state and the system calls as an argument. Shown: no path leaks a descriptor
    (the locale \<open>resource\<close>), the protocol follows from the network name, addresses fit their family.
  \<^item> \<open>Icmp_Pinger\<close> (\<open>icmp-timestap-pinger/main.go\<close>): one exchange and its report, and the run over all hosts.

  \<^bold>\<open>Bounds.\<close> Loops without an end (senders, tickers, the collector, the monitor of \<open>startSession\<close>) are modelled by their
  turn, and where whole runs matter by any number of turns; the theorems hold for every number. The
  loss loop needs no bound, it is proved to return.

  \<^bold>\<open>Not modelled.\<close> Log and debug output; flag parsing; listening on the HTTP socket; the vendored packages:
  the msgpack encoding, the NTP queries, the metrics registry and the token bucket of the rate limiter, whose
  decision is an argument because it is computed in floating point. In the interleaved process memory is sequentially consistent, and one
  access each are a reading of the corrected clock (its NTP exchange included), the copy of \<open>LastAcks\<close>, the insertion of a session under the
  lock and a turn of a ticker; that Go itself ends a process on conflicting map accesses is treated in \<open>Sping_Table_Race\<close> only. Monotonic
  clock readings are not distinguished from wall clock readings.
\<close>

end
